(* ===== verification/Js_Prelude.thy ===== *)
theory Js_Prelude
  imports Complex_Main "HOL-Library.Sublist"
begin

text \<open>
  The part of the JavaScript standard library the modelled code uses, and the generic lemmas
  the components share.

  A JavaScript string is a sequence of UTF-16 code units. The operations below are stated for
  \<open>'a list\<close>, so they serve both \<open>string\<close> (code units in the Latin-1 range, which is what
  every component but the status-code rules needs) and lists of code-unit numbers (where a
  character beyond that range matters). A JavaScript number is an exact rational: the
  rounding of binary64, \<open>NaN\<close> and the infinities are outside the model.
  \<open>undefined\<close> (an absent field) is \<open>None\<close>.
\<close>

named_theorems js_string \<open>characteristic facts of the string operations\<close>
named_theorems js_array \<open>characteristic facts of the array operations\<close>

type_synonym number = rat

text \<open>What a call can throw, where the code or a caller's \<open>catch\<close> depends on it.\<close>

datatype js_error = SyntaxError | TypeError | QuotaExceededError | ZodError | RequestError string

section \<open>Optional values\<close>

text \<open>\<open>a ?? b\<close> on an optional value.\<close>

definition nullish :: "'a option \<Rightarrow> 'a \<Rightarrow> 'a" where
  "nullish x d = (case x of None \<Rightarrow> d | Some y \<Rightarrow> y)"

lemma nullish_simps [simp]: "nullish None d = d" "nullish (Some y) d = y"
  by (simp_all add: nullish_def)

text \<open>\<open>a ?? b\<close> where \<open>b\<close> is optional again (a chain of \<open>??\<close>).\<close>

definition orelse :: "'a option \<Rightarrow> 'a option \<Rightarrow> 'a option" where
  "orelse x y = (case x of None \<Rightarrow> y | Some z \<Rightarrow> Some z)"

lemma orelse_simps [simp]: "orelse None y = y" "orelse (Some z) y = Some z"
  by (simp_all add: orelse_def)

text \<open>\<open>s || d\<close> on strings: the empty string is falsy.\<close>

definition or_string :: "'a list \<Rightarrow> 'a list \<Rightarrow> 'a list" where
  "or_string s d = (if s = [] then d else s)"

lemma or_string_simps [simp]: "or_string [] d = d" "or_string (c # s) d = c # s"
  by (simp_all add: or_string_def)

lemma or_string_Nil [simp]: "or_string s [] = s"
  by (simp add: or_string_def)

section \<open>Strings\<close>

subsection \<open>White space and trimming\<close>

text \<open>The code units ECMAScript calls white space or line terminators.\<close>

definition is_space_unit :: "nat \<Rightarrow> bool" where
  "is_space_unit n \<longleftrightarrow>
     9 \<le> n \<and> n \<le> 13 \<or> n = 32 \<or> n = 160 \<or> n = 5760 \<or> 8192 \<le> n \<and> n \<le> 8202 \<or>
     n = 8232 \<or> n = 8233 \<or> n = 8239 \<or> n = 8287 \<or> n = 12288 \<or> n = 65279"

definition is_space :: "char \<Rightarrow> bool" where
  "is_space c = is_space_unit (of_char c)"

lemma is_space_code [code]:
  "is_space c \<longleftrightarrow> c \<in> set [CHR 0x09, CHR 0x0A, CHR 0x0B, CHR 0x0C, CHR 0x0D, CHR 0x20, CHR 0xA0]"
proof -
  have "is_space_unit n \<longleftrightarrow> n \<in> {9, 10, 11, 12, 13, 32, 160}" if "n < 256" for n
    using that by (auto simp: is_space_unit_def)
  then have "is_space c \<longleftrightarrow> (of_char c :: nat) \<in> {9, 10, 11, 12, 13, 32, 160}"
    using nat_of_char_less_256 unfolding is_space_def by blast
  also have "\<dots> \<longleftrightarrow> (of_char c :: nat) \<in>
      of_char ` {CHR 0x09, CHR 0x0A, CHR 0x0B, CHR 0x0C, CHR 0x0D, CHR 0x20, CHR 0xA0}" by simp
  finally show ?thesis by (simp only: inj_image_mem_iff [OF inj_of_char]) simp
qed

definition trim_by :: "('a \<Rightarrow> bool) \<Rightarrow> 'a list \<Rightarrow> 'a list" where
  "trim_by ws s = rev (dropWhile ws (rev (dropWhile ws s)))"

abbreviation trim :: "string \<Rightarrow> string" where
  "trim \<equiv> trim_by is_space"

definition trimmed_by :: "('a \<Rightarrow> bool) \<Rightarrow> 'a list \<Rightarrow> bool" where
  "trimmed_by ws s \<longleftrightarrow> (s = [] \<or> \<not> ws (hd s) \<and> \<not> ws (last s))"

lemma trim_by_Nil [simp]: "trim_by ws [] = []"
  by (simp add: trim_by_def)

lemma set_dropWhile_subset: "set (dropWhile P s) \<subseteq> set s"
  by (induction s) auto

lemma all_dropWhile_iff: "(\<forall>c\<in>set (dropWhile P s). P c) \<longleftrightarrow> (\<forall>c\<in>set s. P c)"
  by (induction s) auto

lemma trim_by_eq_Nil_iff [js_string]: "trim_by ws s = [] \<longleftrightarrow> (\<forall>c\<in>set s. ws c)"
  by (simp add: trim_by_def dropWhile_eq_Nil_conv all_dropWhile_iff)

lemma set_trim_by: "set (trim_by ws s) \<subseteq> set s"
  using set_dropWhile_subset [of ws "rev (dropWhile ws s)"] set_dropWhile_subset [of ws s]
  by (auto simp: trim_by_def)

lemma last_dropWhile: "dropWhile P s \<noteq> [] \<Longrightarrow> last (dropWhile P s) = last s"
  by (induction s) (auto split: if_splits)

lemma trimmed_trim_by [simp]: "trimmed_by ws (trim_by ws s)"
proof (cases "trim_by ws s = []")
  case True
  then show ?thesis by (simp add: trimmed_by_def)
next
  case False
  let ?d = "dropWhile ws s"
  let ?r = "dropWhile ws (rev ?d)"
  have ne: "?r \<noteq> []" using False by (simp add: trim_by_def)
  then have d: "?d \<noteq> []" by (metis dropWhile.simps(1) rev.simps(1))
  have "\<not> ws (hd ?r)" using ne by (rule hd_dropWhile)
  moreover have "last ?r = hd ?d"
    using ne d by (simp add: last_dropWhile last_rev)
  moreover have "\<not> ws (hd ?d)" using d by (rule hd_dropWhile)
  ultimately show ?thesis
    using ne by (simp add: trim_by_def trimmed_by_def hd_rev last_rev)
qed

lemma trim_by_id [js_string]: "trimmed_by ws s \<Longrightarrow> trim_by ws s = s"
proof -
  assume t: "trimmed_by ws s"
  have drop_id: "dropWhile ws xs = xs" if "xs \<noteq> [] \<Longrightarrow> \<not> ws (hd xs)" for xs :: "'a list"
    using that by (cases xs) auto
  have "dropWhile ws s = s"
    by (rule drop_id) (use t in \<open>auto simp: trimmed_by_def\<close>)
  moreover have "dropWhile ws (rev s) = rev s"
    by (rule drop_id) (use t in \<open>auto simp: trimmed_by_def hd_rev\<close>)
  ultimately show ?thesis by (simp add: trim_by_def)
qed

lemma trim_by_idem [simp]: "trim_by ws (trim_by ws s) = trim_by ws s"
  by (simp add: trim_by_id)

lemma trim_by_no_space: "\<forall>c\<in>set s. \<not> ws c \<Longrightarrow> trim_by ws s = s"
  by (rule trim_by_id) (auto simp: trimmed_by_def)

subsection \<open>Searching\<close>

text \<open>\<open>s.startsWith(p)\<close> and \<open>s.endsWith(p)\<close>.\<close>

text \<open>\<open>toLowerCase\<close> on Latin-1 text\<close>

definition to_lower_char :: "char \<Rightarrow> char" where
  "to_lower_char c = (let n = of_char c :: nat
     in if 65 \<le> n \<and> n \<le> 90 \<or> 192 \<le> n \<and> n \<le> 222 \<and> n \<noteq> 215 then char_of (n + 32) else c)"

definition toLowerCase :: "string \<Rightarrow> string" where
  "toLowerCase s = map to_lower_char s"

definition startsWith :: "'a list \<Rightarrow> 'a list \<Rightarrow> bool" where
  "startsWith s p = prefix p s"

definition endsWith :: "'a list \<Rightarrow> 'a list \<Rightarrow> bool" where
  "endsWith s p = prefix (rev p) (rev s)"

text \<open>The offset of the first occurrence of a pattern; \<open>None\<close> is JavaScript's \<open>-1\<close>.\<close>

fun find_sub :: "'a list \<Rightarrow> 'a list \<Rightarrow> nat option" where
  "find_sub p [] = (if p = [] then Some 0 else None)"
| "find_sub p (x # xs) =
     (if prefix p (x # xs) then Some 0 else map_option Suc (find_sub p xs))"

text \<open>\<open>s.indexOf(p, pos)\<close> (the start position is clamped to the length).\<close>

definition indexOf :: "'a list \<Rightarrow> 'a list \<Rightarrow> nat \<Rightarrow> nat option" where
  "indexOf s p pos =
     (let q = min pos (length s) in map_option (\<lambda>i. q + i) (find_sub p (drop q s)))"

definition contains :: "'a list \<Rightarrow> 'a list \<Rightarrow> bool" where
  "contains s p \<longleftrightarrow> find_sub p s \<noteq> None"

text \<open>\<open>s.slice(a, b)\<close> and \<open>s.slice(a)\<close> for non-negative positions, \<open>s.slice(-n)\<close>.\<close>

definition slice :: "'a list \<Rightarrow> nat \<Rightarrow> nat \<Rightarrow> 'a list" where
  "slice s a b = take (b - a) (drop a s)"

definition sliceFrom :: "'a list \<Rightarrow> nat \<Rightarrow> 'a list" where
  "sliceFrom s a = drop a s"

definition sliceLast :: "'a list \<Rightarrow> nat \<Rightarrow> 'a list" where
  "sliceLast s n = (if n = 0 then s else drop (length s - n) s)"

lemma find_sub_Some_prefix:
  "find_sub p s = Some i \<Longrightarrow> i \<le> length s \<and> prefix p (drop i s)"
  by (induction s arbitrary: i) (auto split: if_splits)

lemma find_sub_Some_bound: "find_sub p s = Some i \<Longrightarrow> i + length p \<le> length s"
  using find_sub_Some_prefix [of p s i] prefix_length_le [of p "drop i s"] by auto

lemma find_sub_Some_before:
  "find_sub p s = Some i \<Longrightarrow> j < i \<Longrightarrow> \<not> prefix p (drop j s)"
proof (induction s arbitrary: i j)
  case (Cons x xs)
  then obtain i' where "\<not> prefix p (x # xs)" "find_sub p xs = Some i'" "i = Suc i'"
    by (auto split: if_splits)
  then show ?case using Cons.IH [of i' "j - 1"] Cons.prems(2) by (cases j) auto
qed (auto split: if_splits)

lemma find_sub_None_iff: "find_sub p s = None \<longleftrightarrow> (\<forall>j\<le>length s. \<not> prefix p (drop j s))"
proof (induction s)
  case (Cons x xs)
  then show ?case by (simp add: less_Suc_eq_le [symmetric] All_less_Suc2)
qed (cases p; simp)

lemma contains_iff: "contains s p \<longleftrightarrow> (\<exists>a b. s = a @ p @ b)"
proof
  assume "contains s p"
  then obtain i where "find_sub p s = Some i" by (auto simp: contains_def)
  then have "prefix p (drop i s)" by (simp add: find_sub_Some_prefix)
  then obtain b where "drop i s = p @ b" by (auto simp: prefix_def)
  then have "s = take i s @ p @ b" by (metis append_take_drop_id)
  then show "\<exists>a b. s = a @ p @ b" by blast
next
  assume "\<exists>a b. s = a @ p @ b"
  then obtain a b where s: "s = a @ p @ b" by blast
  then have "length a \<le> length s" "prefix p (drop (length a) s)" by simp_all
  then show "contains s p" by (auto simp: contains_def find_sub_None_iff)
qed

lemma contains_Nil [simp]: "contains s []"
  by (cases s) (simp_all add: contains_def)

lemma contains_append [js_string]: "contains s p \<Longrightarrow> contains (a @ s @ b) p"
  by (auto simp: contains_iff) (metis append.assoc)

lemma prefix_nth: "prefix p s \<Longrightarrow> i < length p \<Longrightarrow> p ! i = s ! i"
  by (auto simp: prefix_def nth_append)

text \<open>
  A pattern whose first character does not occur again in it cannot overlap itself, so the
  first occurrence in \<open>v @ p @ w\<close> is at the end of \<open>v\<close> whenever \<open>v\<close> itself has none.
\<close>

lemma find_sub_skip:
  assumes p: "p = c # q" "c \<notin> set q" and v: "\<not> contains v p"
  shows "find_sub p (v @ p @ w) = Some (length v)"
  using v
proof (induction v)
  case Nil
  show ?case using p by simp
next
  case (Cons x v)
  have inc: "\<not> contains v p"
  proof
    assume "contains v p"
    then show False using Cons.prems contains_append [of v p "[x]" "[]"] by simp
  qed
  have "\<not> prefix p ((x # v) @ p @ w)"
  proof
    assume pre: "prefix p ((x # v) @ p @ w)"
    show False
    proof (cases "length p \<le> length (x # v)")
      case True
      have "prefix p (x # v)"
        by (rule prefix_length_prefix [OF pre _ True]) simp
      then show False using Cons.prems by (simp add: contains_def)
    next
      case False
      from pre False have "p ! Suc (length v) = ((x # v) @ p @ w) ! Suc (length v)"
        by (intro prefix_nth) simp_all
      also have "\<dots> = c" using p(1) by (simp add: nth_append)
      finally have "q ! length v = c" using p(1) by simp
      moreover have "length v < length q" using False p(1) by simp
      ultimately show False using p(2) nth_mem by blast
    qed
  qed
  then show ?case using Cons.IH [OF inc] by simp
qed

lemma indexOf_at: "indexOf (pre @ s) p (length pre) = map_option (\<lambda>i. length pre + i) (find_sub p s)"
  by (simp add: indexOf_def)

lemma indexOf_Some:
  assumes "indexOf s p pos = Some i" "p \<noteq> []"
  shows "pos \<le> i \<and> i + length p \<le> length s"
proof (cases "pos \<le> length s")
  case True
  with assms obtain k where "find_sub p (drop pos s) = Some k" "i = pos + k"
    by (auto simp: indexOf_def)
  then show ?thesis using find_sub_Some_bound [of p "drop pos s" k] True by simp
next
  case False
  with assms show ?thesis by (simp add: indexOf_def)
qed

subsection \<open>Splitting and joining\<close>

text \<open>\<open>s.split(c)\<close> for a separator of one code unit, \<open>parts.join(sep)\<close>.\<close>

fun split_on :: "'a \<Rightarrow> 'a list \<Rightarrow> 'a list list" where
  "split_on c [] = [[]]"
| "split_on c (x # xs) =
     (if x = c then [] # split_on c xs
      else case split_on c xs of [] \<Rightarrow> [[x]] | y # ys \<Rightarrow> (x # y) # ys)"

fun join :: "'a list \<Rightarrow> 'a list list \<Rightarrow> 'a list" where
  "join sep [] = []"
| "join sep [x] = x"
| "join sep (x # y # ys) = x @ sep @ join sep (y # ys)"

lemma split_on_not_Nil [simp]: "split_on c s \<noteq> []"
  by (induction s) (auto split: list.splits)

lemma split_on_no_sep: "c \<notin> set s \<Longrightarrow> split_on c s = [s]"
  by (induction s) auto

lemma split_on_append_sep:
  "c \<notin> set s \<Longrightarrow> split_on c (s @ c # t) = s # split_on c t"
  by (induction s) auto

lemma split_on_parts: "p \<in> set (split_on c s) \<Longrightarrow> c \<notin> set p \<and> set p \<subseteq> set s"
  by (induction s arbitrary: p) (fastforce split: if_splits list.splits)+

lemma join_Nil [simp]: "join [] xs = concat xs"
  by (induction "[] :: 'a list" xs rule: join.induct) auto

lemma join_Cons: "ys \<noteq> [] \<Longrightarrow> join sep (x # ys) = x @ sep @ join sep ys"
  by (cases ys) auto

lemma join_Cons_Cons: "join sep ((x # y) # ys) = x # join sep (y # ys)"
  by (cases ys) auto

lemma join_split_on [js_string]: "join [c] (split_on c s) = s"
proof (induction s)
  case (Cons x s)
  obtain y ys where "split_on c s = y # ys" by (meson neq_Nil_conv split_on_not_Nil)
  with Cons show ?case by (simp add: join_Cons join_Cons_Cons)
qed simp

lemma split_on_join [js_string]:
  "xs \<noteq> [] \<Longrightarrow> \<forall>x\<in>set xs. c \<notin> set x \<Longrightarrow> split_on c (join [c] xs) = xs"
proof (induction xs)
  case (Cons x xs)
  then show ?case
    by (cases "xs = []") (simp_all add: split_on_no_sep join_Cons split_on_append_sep)
qed simp

lemma set_join_subset: "set (join [c] ps) \<subseteq> insert c (\<Union>p\<in>set ps. set p)"
proof (induction ps)
  case (Cons p ps)
  then show ?case by (cases "ps = []") (auto simp: join_Cons)
qed simp

section \<open>Arrays\<close>

text \<open>\<open>Array.from(new Set(xs))\<close>: the first occurrence of every element, in order.\<close>

fun uniq :: "'a list \<Rightarrow> 'a list" where
  "uniq [] = []"
| "uniq (x # xs) = x # filter (\<lambda>y. y \<noteq> x) (uniq xs)"

lemma set_uniq [simp]: "set (uniq xs) = set xs"
  by (induction xs) auto

lemma distinct_uniq [simp]: "distinct (uniq xs)"
  by (induction xs) auto

lemma uniq_distinct [js_array]: "distinct xs \<Longrightarrow> uniq xs = xs"
  by (induction xs) (auto intro: filter_True)

lemma uniq_eq_Nil [simp]: "uniq xs = [] \<longleftrightarrow> xs = []"
  by (cases xs) auto

lemma uniq_snoc: "uniq (xs @ [x]) = (if x \<in> set xs then uniq xs else uniq xs @ [x])"
  by (induction xs) auto

lemma set_map_filter: "set (List.map_filter f xs) = {y. \<exists>x\<in>set xs. f x = Some y}"
  by (induction xs) (auto simp: map_filter_simps split: option.splits)

text \<open>\<open>xs.findIndex(P)\<close>.\<close>

fun findIndex :: "('a \<Rightarrow> bool) \<Rightarrow> 'a list \<Rightarrow> nat option" where
  "findIndex P [] = None"
| "findIndex P (x # xs) = (if P x then Some 0 else map_option Suc (findIndex P xs))"

lemma findIndex_Some: "findIndex P xs = Some i \<Longrightarrow>
    i < length xs \<and> P (xs ! i) \<and> (\<forall>j<i. \<not> P (xs ! j))"
proof (induction xs arbitrary: i)
  case (Cons x xs)
  then show ?case by (auto split: if_splits simp: less_Suc_eq_0_disj)
qed simp

lemma findIndex_None [js_array]: "findIndex P xs = None \<longleftrightarrow> (\<forall>x\<in>set xs. \<not> P x)"
  by (induction xs) auto

end
