(* ===== verification/Think_Tags.thy ===== *)
theory Think_Tags
  imports Js_Prelude
begin

text \<open>
  \<open>lib/message/message-reasoning-utils.ts\<close> of the playground: separating the reasoning a model
  wraps in think tags from the text that is shown. \<open>parseThinkTags\<close> is the scanning loop over
  positions of the content; \<open>render_segments\<close> is the abstract view of a tagged text, and the
  lemmas show that the loop recovers exactly the segments a text is made of.
\<close>

definition think_open :: string where
  "think_open = ''<think>''"

definition think_close :: string where
  "think_close = ''</think>''"

abbreviation blank_line :: string where
  "blank_line \<equiv> ''\<newline>\<newline>''"

lemma length_think_open [simp]: "length think_open = 7"
  by (simp add: think_open_def)

lemma length_think_close [simp]: "length think_close = 8"
  by (simp add: think_close_def)

lemma think_tags_not_Nil [simp]: "think_open \<noteq> []" "think_close \<noteq> []"
  by (simp_all add: think_open_def think_close_def)

record ParsedThinkTags =
  visibleContent :: string
  tagReasoning :: string
  hasUnclosedTag :: bool

section \<open>The scanning loop\<close>

text \<open>
  The \<open>while (true)\<close> loop: \<open>pos\<close> is \<open>currentPos\<close>, the two lists are \<open>visibleParts\<close> and
  \<open>reasoningParts\<close>; each \<open>break\<close> is a branch without a recursive call.
\<close>

function think_loop ::
  "string \<Rightarrow> nat \<Rightarrow> string list \<Rightarrow> string list \<Rightarrow> string list \<times> string list \<times> bool" where
  "think_loop content pos visibleParts reasoningParts =
     (case indexOf content think_open pos of
        None \<Rightarrow>
          (if pos < length content then visibleParts @ [sliceFrom content pos] else visibleParts,
           reasoningParts, False)
      | Some openPos \<Rightarrow>
          (let visibleParts' =
             (if pos < openPos then visibleParts @ [slice content pos openPos] else visibleParts)
           in case indexOf content think_close (openPos + 7) of
                None \<Rightarrow> (visibleParts', reasoningParts @ [sliceFrom content (openPos + 7)], True)
              | Some closePos \<Rightarrow>
                  think_loop content (closePos + 8) visibleParts'
                    (reasoningParts @ [slice content (openPos + 7) closePos])))"
  by pat_completeness auto
termination
  by (relation "measure (\<lambda>(content, pos, _, _). length content - pos)")
     (auto dest!: indexOf_Some)

declare think_loop.simps [simp del]

definition parseThinkTags :: "string \<Rightarrow> ParsedThinkTags" where
  "parseThinkTags content =
     (if \<not> contains content think_open
      then \<lparr>visibleContent = content, tagReasoning = [], hasUnclosedTag = False\<rparr>
      else (case think_loop content 0 [] [] of (visibleParts, reasoningParts, unclosed) \<Rightarrow>
        \<lparr>visibleContent = trim (join [] visibleParts),
         tagReasoning = trim (join blank_line reasoningParts),
         hasUnclosedTag = unclosed\<rparr>))"

section \<open>Tagged texts as segments\<close>

text \<open>A closed segment is a visible part followed by a complete think element.\<close>

fun render_segments :: "(string \<times> string) list \<Rightarrow> string" where
  "render_segments [] = []"
| "render_segments ((v, r) # segs) = v @ think_open @ r @ think_close @ render_segments segs"

definition plain_segments :: "(string \<times> string) list \<Rightarrow> bool" where
  "plain_segments segs \<longleftrightarrow>
     list_all (\<lambda>(v, r). \<not> contains v think_open \<and> \<not> contains r think_close) segs"

lemma plain_segments_simps [simp]:
  "plain_segments []"
  "plain_segments ((v, r) # segs) \<longleftrightarrow>
     \<not> contains v think_open \<and> \<not> contains r think_close \<and> plain_segments segs"
  by (simp_all add: plain_segments_def)

lemma find_open: "\<not> contains v think_open \<Longrightarrow> find_sub think_open (v @ think_open @ w) = Some (length v)"
  by (rule find_sub_skip [of _ "CHR ''<''" "''think>''"]) (simp_all add: think_open_def)

lemma find_close: "\<not> contains r think_close \<Longrightarrow> find_sub think_close (r @ think_close @ w) = Some (length r)"
  by (rule find_sub_skip [of _ "CHR ''<''" "''/think>''"]) (simp_all add: think_close_def)

lemma find_none: "\<not> contains v p \<Longrightarrow> find_sub p v = None"
  by (simp add: contains_def)

text \<open>One round of the loop at a position where a closed segment starts.\<close>

lemma think_loop_closed:
  assumes "\<not> contains v think_open" "\<not> contains r think_close"
  shows "think_loop (pre @ v @ think_open @ r @ think_close @ w) (length pre) vis rea =
         think_loop ((pre @ v @ think_open @ r @ think_close) @ w)
           (length (pre @ v @ think_open @ r @ think_close))
           (vis @ filter (\<lambda>p. p \<noteq> []) [v]) (rea @ [r])"
proof -
  let ?c = "pre @ v @ think_open @ r @ think_close @ w"
  have o: "indexOf ?c think_open (length pre) = Some (length pre + length v)"
    using find_open [OF assms(1), of "r @ think_close @ w"] by (simp add: indexOf_at)
  have c: "indexOf ?c think_close (length pre + length v + 7) =
           Some (length pre + length v + 7 + length r)"
    using indexOf_at [of "pre @ v @ think_open" "r @ think_close @ w" think_close]
      find_close [OF assms(2), of w] by (simp add: add.assoc)
  have r: "slice ?c (length pre + length v + 7) (length pre + length v + 7 + length r) = r"
    by (simp add: slice_def)
  have v: "slice ?c (length pre) (length pre + length v) = v"
    by (simp add: slice_def)
  show ?thesis
    by (subst think_loop.simps) (use o c r v in \<open>simp add: add.assoc\<close>)
qed

lemma think_loop_tail:
  assumes "\<not> contains v think_open"
  shows "think_loop (pre @ v) (length pre) vis rea =
         (vis @ filter (\<lambda>p. p \<noteq> []) [v], rea, False)"
  by (subst think_loop.simps)
     (use assms in \<open>simp add: indexOf_at find_none sliceFrom_def\<close>)

lemma think_loop_unclosed:
  assumes "\<not> contains v think_open" "\<not> contains r think_close"
  shows "think_loop (pre @ v @ think_open @ r) (length pre) vis rea =
         (vis @ filter (\<lambda>p. p \<noteq> []) [v], rea @ [r], True)"
proof -
  let ?c = "pre @ v @ think_open @ r"
  have o: "indexOf ?c think_open (length pre) = Some (length pre + length v)"
    using find_open [OF assms(1), of r] by (simp add: indexOf_at)
  have c: "indexOf ?c think_close (length pre + length v + 7) = None"
    using indexOf_at [of "pre @ v @ think_open" r think_close] find_none [OF assms(2)] by (simp add: add.assoc)
  have v: "slice ?c (length pre) (length pre + length v) = v"
    by (simp add: slice_def)
  show ?thesis
    by (subst think_loop.simps) (use o c v in \<open>simp add: sliceFrom_def\<close>)
qed

lemma think_loop_segments:
  assumes "plain_segments segs"
  shows "think_loop (pre @ render_segments segs @ w) (length pre) vis rea =
         think_loop ((pre @ render_segments segs) @ w) (length (pre @ render_segments segs))
           (vis @ filter (\<lambda>p. p \<noteq> []) (map fst segs)) (rea @ map snd segs)"
  using assms
proof (induction segs arbitrary: pre vis rea)
  case (Cons seg segs)
  obtain v r where seg: "seg = (v, r)" by (cases seg)
  show ?case
    using Cons.prems Cons.IH [of "pre @ v @ think_open @ r @ think_close"
        "vis @ filter (\<lambda>p. p \<noteq> []) [v]" "rea @ [r]"]
      think_loop_closed [of v r pre "render_segments segs @ w" vis rea]
    by (simp add: seg)
qed simp

lemma concat_filter_ne: "concat (filter (\<lambda>p. p \<noteq> []) xs) = concat xs"
  by (induction xs) auto

lemma contains_open_render: "segs \<noteq> [] \<Longrightarrow> contains (render_segments segs @ w) think_open"
  by (cases segs) (auto simp: contains_iff simp del: append_Cons intro!: exI)

section \<open>What parsing returns\<close>

text \<open>Every text is a sequence of closed segments followed by untagged or unclosed text.\<close>

lemma find_sub_SomeE:
  assumes "find_sub p s = Some i" "p \<noteq> []"
  obtains a b where "s = a @ p @ b" "\<not> contains a p" "length a = i"
proof -
  have pre: "prefix p (drop i s)" "i \<le> length s"
    using find_sub_Some_prefix [OF assms(1)] by simp_all
  then obtain b where b: "drop i s = p @ b" by (auto simp: prefix_def)
  have s: "s = take i s @ p @ b" using b by (metis append_take_drop_id)
  have "\<not> contains (take i s) p"
  proof
    assume "contains (take i s) p"
    then obtain x y where xy: "take i s = x @ p @ y" by (auto simp: contains_iff)
    then have "length x < i"
      using assms(2) pre(2) by (metis length_append length_greater_0_conv length_take
          less_add_same_cancel1 min.absorb2 add_gr_0)
    moreover have "prefix p (drop (length x) s)"
      using s xy by (metis append.assoc append_eq_conv_conj prefixI)
    ultimately show False using find_sub_Some_before [OF assms(1)] by blast
  qed
  then show thesis using that s pre(2) by (metis length_take min.absorb2)
qed

lemma segments_exist:
  "\<exists>segs v. plain_segments segs \<and> \<not> contains v think_open \<and>
     (content = render_segments segs @ v \<or>
      (\<exists>r. \<not> contains r think_close \<and> content = render_segments segs @ v @ think_open @ r))"
proof (induction "length content" arbitrary: content rule: less_induct)
  case less
  show ?case
  proof (cases "find_sub think_open content")
    case None
    then show ?thesis
      by (intro exI [of _ "[]"] exI [of _ content]) (simp add: contains_def)
  next
    case (Some i)
    then obtain v w where vw: "content = v @ think_open @ w" "\<not> contains v think_open"
      by (rule find_sub_SomeE) auto
    show ?thesis
    proof (cases "find_sub think_close w")
      case None
      then show ?thesis using vw
        by (intro exI [of _ "[]"] exI [of _ v]) (auto simp: contains_def)
    next
      case (Some j)
      then obtain r x where rx: "w = r @ think_close @ x" "\<not> contains r think_close"
        by (rule find_sub_SomeE) auto
      have "length x < length content" using vw(1) rx(1) by simp
      from less [OF this] obtain segs v' where ih: "plain_segments segs" "\<not> contains v' think_open"
        "x = render_segments segs @ v' \<or>
         (\<exists>r. \<not> contains r think_close \<and> x = render_segments segs @ v' @ think_open @ r)"
        by blast
      show ?thesis
        using vw rx ih by (intro exI [of _ "(v, r) # segs"] exI [of _ v']) auto
    qed
  qed
qed

lemma parseThinkTags_closed:
  assumes "plain_segments segs" "\<not> contains v think_open" "segs \<noteq> []"
  shows "parseThinkTags (render_segments segs @ v) =
         \<lparr>visibleContent = trim (concat (map fst segs) @ v),
          tagReasoning = trim (join blank_line (map snd segs)), hasUnclosedTag = False\<rparr>"
  using think_loop_segments [OF assms(1), of "[]" v "[]" "[]"]
    think_loop_tail [OF assms(2), of "render_segments segs"] contains_open_render [OF assms(3)]
  by (simp add: parseThinkTags_def concat_filter_ne)

lemma parseThinkTags_unclosed:
  assumes "plain_segments segs" "\<not> contains v think_open" "\<not> contains r think_close"
  shows "parseThinkTags (render_segments segs @ v @ think_open @ r) =
         \<lparr>visibleContent = trim (concat (map fst segs) @ v),
          tagReasoning = trim (join blank_line (map snd segs @ [r])), hasUnclosedTag = True\<rparr>"
proof -
  have "contains (render_segments segs @ v @ think_open @ r) think_open"
    unfolding contains_iff by (rule exI [of _ "render_segments segs @ v"]) simp
  then show ?thesis
    using think_loop_segments [OF assms(1), of "[]" "v @ think_open @ r" "[]" "[]"]
      think_loop_unclosed [OF assms(2,3), of "render_segments segs"]
    by (simp add: parseThinkTags_def concat_filter_ne)
qed

section \<open>Properties\<close>

text \<open>
  C22: \<open>parseThinkTags\<close> takes a text made of closed think elements apart exactly: what is shown is
  the text outside the elements, the reasoning is the contents of the elements separated by blank
  lines; a last element that is still open belongs to the reasoning and is reported.
\<close>

theorem parseThinkTags_segments:
  assumes "plain_segments segs" "\<not> contains v think_open" "\<not> contains r think_close"
  shows "(segs \<noteq> [] \<longrightarrow> parseThinkTags (render_segments segs @ v) =
            \<lparr>visibleContent = trim (concat (map fst segs) @ v),
             tagReasoning = trim (join blank_line (map snd segs)), hasUnclosedTag = False\<rparr>) \<and>
         parseThinkTags (render_segments segs @ v @ think_open @ r) =
            \<lparr>visibleContent = trim (concat (map fst segs) @ v),
             tagReasoning = trim (join blank_line (map snd segs @ [r])), hasUnclosedTag = True\<rparr>"
  using parseThinkTags_closed [OF assms(1,2)] parseThinkTags_unclosed [OF assms] by blast

lemmas think_eval =
  plain_segments_def contains_def think_open_def think_close_def trim_by_def is_space_def
  is_space_unit_def

theorem parseThinkTags_segments_witness:
  "parseThinkTags (render_segments [(''a'', ''why'')] @ '' b'') =
     \<lparr>visibleContent = ''a b'', tagReasoning = ''why'', hasUnclosedTag = False\<rparr>"
  using parseThinkTags_segments [of "[(''a'', ''why'')]" "'' b''" "''x''"]
  by (simp add: think_eval)

text \<open>
  The decomposition covers every text: each content is a sequence of closed elements followed
  by plain text or by an open element, and \<open>parseThinkTags\<close> reports an open element exactly when
  the content has the second form and leaves an untagged content as it is.
\<close>

theorem parseThinkTags_covers:
  "\<exists>segs v r. plain_segments segs \<and> \<not> contains v think_open \<and> \<not> contains r think_close \<and>
     content = render_segments segs @ v @
       (if hasUnclosedTag (parseThinkTags content) then think_open @ r else []) \<and>
     (contains content think_open \<or> visibleContent (parseThinkTags content) = content)"
proof -
  obtain segs v where sv: "plain_segments segs" "\<not> contains v think_open"
    "content = render_segments segs @ v \<or>
     (\<exists>r. \<not> contains r think_close \<and> content = render_segments segs @ v @ think_open @ r)"
    using segments_exist by blast
  have e: "\<not> contains [] think_close" by (simp add: contains_def think_close_def)
  have plain: "contains content think_open \<or> parseThinkTags content =
      \<lparr>visibleContent = content, tagReasoning = [], hasUnclosedTag = False\<rparr>"
    by (simp add: parseThinkTags_def)
  show ?thesis using sv(3)
  proof
    assume c: "content = render_segments segs @ v"
    then have "hasUnclosedTag (parseThinkTags content) = False"
      using plain parseThinkTags_closed [OF sv(1,2)] sv(2) by (cases "segs = []") auto
    then show ?thesis using c sv e plain by (intro exI [of _ segs] exI [of _ v] exI [of _ "[]"]) auto
  next
    assume "\<exists>r. \<not> contains r think_close \<and> content = render_segments segs @ v @ think_open @ r"
    then show ?thesis using sv parseThinkTags_unclosed [OF sv(1,2)] plain by fastforce
  qed
qed

text \<open>The shown text can contain a tag again: a second pass over it would find an open element.\<close>

lemma parseThinkTags_reassembles:
  "visibleContent (parseThinkTags (''<thi'' @ think_open @ think_close @ ''nk>'')) = think_open"
  using parseThinkTags_closed [of "[(''<thi'', [])]" "''nk>''"]
  by (simp add: think_eval)

end
