(* ===== verification/Messages.thy ===== *)
theory Messages
  imports Think_Tags
begin

text \<open>
  The playground's message data model (\<open>types.ts\<close>) and the pure functions over single messages
  (\<open>lib/message/message-utils.ts\<close>, \<open>message-timing-utils.ts\<close>, and the view functions
  \<open>message-action-utils.ts\<close>, \<open>message-content-utils.ts\<close>, \<open>message-editor-utils.ts\<close>,
  \<open>message-error-utils.ts\<close>, \<open>message-layout-utils.ts\<close>).

  An optional field is an \<open>option\<close>, \<open>None\<close> standing for \<open>undefined\<close>; \<open>errorCode\<close> may be
  \<open>undefined\<close>, \<open>null\<close> (\<open>Some None\<close>) or a string. The identifiers of \<open>nanoid()\<close> and the
  readings of \<open>Date.now()\<close> are arguments.
\<close>

section \<open>Data\<close>

datatype MessageRole = USER | ASSISTANT | SYSTEM

datatype MessageStatus = LOADING | STREAMING | COMPLETE | ERROR

datatype PlaygroundMessageLayoutMode = Alternating | LeftLayout

record MessageVersion =
  v_id :: string
  v_content :: string

record MessageSource =
  s_href :: string
  s_title :: string

record Reasoning =
  r_content :: string
  r_duration :: number
  r_startedAt :: "number option"
  r_completedAt :: "number option"
  r_durationMs :: "number option"

record Message =
  m_key :: string
  m_from :: MessageRole
  m_versions :: "MessageVersion list"
  m_createdAt :: "number option"
  m_startedAt :: "number option"
  m_completedAt :: "number option"
  m_durationMs :: "number option"
  m_sources :: "MessageSource list option"
  m_reasoning :: "Reasoning option"
  m_isReasoningStreaming :: "bool option"
  m_isReasoningComplete :: "bool option"
  m_isContentComplete :: "bool option"
  m_status :: "MessageStatus option"
  m_errorCode :: "string option option"

datatype PartType = TextPart | ImageUrlPart

record ContentPart =
  p_type :: PartType
  p_text :: "string option"
  p_image_url :: "string option"

datatype MessageContent = StringContent string | PartsContent "ContentPart list"

record ChatCompletionMessage =
  c_role :: MessageRole
  c_content :: MessageContent

section \<open>\<open>message-utils.ts\<close>\<close>

definition createMessageVersion :: "string \<Rightarrow> string \<Rightarrow> MessageVersion" where
  "createMessageVersion nid content = \<lparr>v_id = nid, v_content = content\<rparr>"

definition getCurrentVersion :: "Message \<Rightarrow> MessageVersion" where
  "getCurrentVersion message =
     (case m_versions message of [] \<Rightarrow> \<lparr>v_id = ''default'', v_content = []\<rparr> | v # _ \<Rightarrow> v)"

definition getMessageContent :: "Message \<Rightarrow> string" where
  "getMessageContent message = v_content (getCurrentVersion message)"

definition hasMessageContent :: "Message \<Rightarrow> bool" where
  "hasMessageContent message \<longleftrightarrow> trim (getMessageContent message) \<noteq> []"

definition updateCurrentVersionContent :: "Message \<Rightarrow> string \<Rightarrow> Message" where
  "updateCurrentVersionContent message content =
     message\<lparr>m_versions := [(getCurrentVersion message)\<lparr>v_content := content\<rparr>]\<rparr>"

definition createUserMessage :: "string \<Rightarrow> string \<Rightarrow> string \<Rightarrow> number \<Rightarrow> Message" where
  "createUserMessage key versionId content createdAt =
     \<lparr>m_key = key, m_from = USER, m_versions = [createMessageVersion versionId content],
      m_createdAt = Some createdAt, m_startedAt = None, m_completedAt = None,
      m_durationMs = None, m_sources = None, m_reasoning = None,
      m_isReasoningStreaming = None, m_isReasoningComplete = None, m_isContentComplete = None,
      m_status = None, m_errorCode = None\<rparr>"

definition createLoadingAssistantMessage :: "string \<Rightarrow> string \<Rightarrow> number \<Rightarrow> Message" where
  "createLoadingAssistantMessage key versionId startedAt =
     \<lparr>m_key = key, m_from = ASSISTANT, m_versions = [createMessageVersion versionId []],
      m_createdAt = Some startedAt, m_startedAt = Some startedAt, m_completedAt = None,
      m_durationMs = None, m_sources = None, m_reasoning = None,
      m_isReasoningStreaming = Some False, m_isReasoningComplete = Some False,
      m_isContentComplete = Some False, m_status = Some LOADING, m_errorCode = None\<rparr>"

definition buildMessageContent :: "string \<Rightarrow> string list \<Rightarrow> MessageContent" where
  "buildMessageContent text imageUrls =
     (let validImages = filter (\<lambda>url. trim url \<noteq> []) imageUrls
      in if validImages = [] then StringContent text
         else PartsContent
           (\<lparr>p_type = TextPart, p_text = Some (or_string text []), p_image_url = None\<rparr> #
            map (\<lambda>url. \<lparr>p_type = ImageUrlPart, p_text = None, p_image_url = Some (trim url)\<rparr>)
              validImages))"

definition getTextContent :: "MessageContent \<Rightarrow> string" where
  "getTextContent content =
     (case content of
        StringContent s \<Rightarrow> s
      | PartsContent parts \<Rightarrow>
          (case find (\<lambda>part. p_type part = TextPart) parts of
             None \<Rightarrow> []
           | Some textPart \<Rightarrow> nullish (p_text textPart) []))"

definition formatMessageForAPI :: "Message \<Rightarrow> ChatCompletionMessage" where
  "formatMessageForAPI message =
     \<lparr>c_role = m_from message, c_content = StringContent (v_content (getCurrentVersion message))\<rparr>"

definition isValidMessage :: "Message \<Rightarrow> bool" where
  "isValidMessage message =
     (if m_versions message = [] then False
      else if m_from message = ASSISTANT \<and> \<not> hasMessageContent message then False
      else True)"

section \<open>\<open>message-timing-utils.ts\<close>\<close>

definition completeAssistantTiming :: "Message \<Rightarrow> number \<Rightarrow> Message" where
  "completeAssistantTiming message completedAt =
     (if m_from message \<noteq> ASSISTANT then message
      else let startedAt = nullish (orelse (m_startedAt message) (m_createdAt message)) completedAt
           in message\<lparr>m_startedAt := Some startedAt, m_completedAt := Some completedAt,
                m_durationMs := Some (max 0 (completedAt - startedAt))\<rparr>)"

definition startReasoningTiming :: "Message \<Rightarrow> number \<Rightarrow> Reasoning" where
  "startReasoningTiming message startedAt =
     (case m_reasoning message of
        None \<Rightarrow> \<lparr>r_content = [], r_duration = 0, r_startedAt = Some startedAt,
                  r_completedAt = None, r_durationMs = None\<rparr>
      | Some r \<Rightarrow> \<lparr>r_content = r_content r, r_duration = r_duration r,
                    r_startedAt = Some (nullish (r_startedAt r) startedAt),
                    r_completedAt = r_completedAt r, r_durationMs = r_durationMs r\<rparr>)"

definition completeReasoningTiming :: "Message \<Rightarrow> number \<Rightarrow> Message" where
  "completeReasoningTiming message completedAt =
     (case m_reasoning message of
        None \<Rightarrow> message
      | Some r \<Rightarrow>
          if r_durationMs r \<noteq> None then message
          else let startedAt = nullish (orelse (r_startedAt r) (m_startedAt message)) completedAt;
                   durationMs = max 0 (completedAt - startedAt)
               in message\<lparr>m_reasoning := Some (r\<lparr>r_startedAt := Some startedAt,
                    r_completedAt := Some completedAt, r_durationMs := Some durationMs,
                    r_duration := of_int \<lceil>durationMs / 1000\<rceil>\<rparr>)\<rparr>)"

section \<open>View functions\<close>

subsection \<open>\<open>message-action-utils.ts\<close>\<close>

record MessageActionState =
  act_content :: string
  act_hasContent :: bool
  act_isAssistant :: bool
  act_isLoading :: bool
  act_isUser :: bool

definition getMessageActionState :: "Message \<Rightarrow> MessageActionState" where
  "getMessageActionState message =
     \<lparr>act_content = getMessageContent message, act_hasContent = hasMessageContent message,
      act_isAssistant = (m_from message = ASSISTANT),
      act_isLoading = (m_status message = Some LOADING \<or> m_status message = Some STREAMING),
      act_isUser = (m_from message = USER)\<rparr>"

definition getMessageActionsVisibilityClass :: "bool \<Rightarrow> string" where
  "getMessageActionsVisibilityClass alwaysVisible =
     (if alwaysVisible then ''opacity-100''
      else ''opacity-0 group-hover:opacity-100 max-md:opacity-100'')"

subsection \<open>\<open>message-content-utils.ts\<close>\<close>

record MessageContentState =
  displayContent :: string
  hasSources :: bool
  cs_isAssistant :: bool
  showLoader :: bool
  showMessageContent :: bool
  cs_sources :: "MessageSource list"
  hasReasoning :: bool
  reasoningContent :: "string option"

definition shouldShowMessageLoader :: "Message \<Rightarrow> bool \<Rightarrow> string \<Rightarrow> bool" where
  "shouldShowMessageLoader message isAssistant versionContent \<longleftrightarrow>
     isAssistant \<and> m_isReasoningStreaming message \<noteq> Some True \<and>
     (m_status message = Some LOADING \<or> m_status message = Some STREAMING \<and> versionContent = [])"

definition shouldShowMessageContent :: "Message \<Rightarrow> string \<Rightarrow> bool" where
  "shouldShowMessageContent message versionContent \<longleftrightarrow>
     (m_from message = USER \<or> m_isReasoningStreaming message \<noteq> Some True) \<and>
     0 < length versionContent"

definition getDisplayContent :: "Message \<Rightarrow> string \<Rightarrow> string" where
  "getDisplayContent message versionContent =
     (if m_from message \<noteq> ASSISTANT then versionContent
      else if \<not> contains versionContent think_open then versionContent
      else visibleContent (parseThinkTags versionContent))"

definition getMessageContentState :: "Message \<Rightarrow> string \<Rightarrow> MessageContentState" where
  "getMessageContentState message versionContent =
     (let isAssistant = (m_from message = ASSISTANT);
          sources = nullish (m_sources message) [];
          reasoning = (if isAssistant then map_option r_content (m_reasoning message) else None);
          hasR = (reasoning \<noteq> None \<and> reasoning \<noteq> Some [])
      in \<lparr>displayContent = getDisplayContent message versionContent,
          hasSources = (0 < length sources), cs_isAssistant = isAssistant,
          showLoader = shouldShowMessageLoader message isAssistant versionContent,
          showMessageContent = shouldShowMessageContent message versionContent,
          cs_sources = sources, hasReasoning = hasR,
          reasoningContent = (if hasR then reasoning else None)\<rparr>)"

subsection \<open>\<open>message-editor-utils.ts\<close>\<close>

record MessageEditorState =
  canSave :: bool
  hasChanged :: bool
  showSaveAndSubmit :: bool

definition getMessageEditorState :: "Message \<Rightarrow> string \<Rightarrow> string \<Rightarrow> MessageEditorState" where
  "getMessageEditorState message editText originalText =
     (let hasText = (0 < length (trim editText)); changed = (editText \<noteq> originalText)
      in \<lparr>canSave = (hasText \<and> changed), hasChanged = changed,
          showSaveAndSubmit = (m_from message = USER)\<rparr>)"

subsection \<open>\<open>message-error-utils.ts\<close>\<close>

datatype ErrorKind = Generic | ModelPrice

record MessageErrorState =
  err_content :: string
  err_kind :: ErrorKind
  showSettingsLink :: bool

definition MODEL_PRICE_ERROR_CODE :: string where
  "MODEL_PRICE_ERROR_CODE = ''model_price_error''"

definition FALLBACK_ERROR_CONTENT :: string where
  "FALLBACK_ERROR_CONTENT = ''An unknown error occurred''"

definition isAdminRole :: "number option \<Rightarrow> bool" where
  "isAdminRole role = (case role of None \<Rightarrow> False | Some r \<Rightarrow> r \<ge> 10)"

definition isErrorMessage :: "Message \<Rightarrow> bool" where
  "isErrorMessage message \<longleftrightarrow> m_status message = Some ERROR"

definition getMessageErrorState :: "Message \<Rightarrow> bool \<Rightarrow> MessageErrorState option" where
  "getMessageErrorState message isAdmin =
     (if \<not> isErrorMessage message then None
      else let content = or_string (getMessageContent message) FALLBACK_ERROR_CONTENT;
               isModelPriceError = (m_errorCode message = Some (Some MODEL_PRICE_ERROR_CODE))
           in Some \<lparr>err_content = content,
                err_kind = (if isModelPriceError then ModelPrice else Generic),
                showSettingsLink = (isModelPriceError \<and> isAdmin)\<rparr>)"

subsection \<open>\<open>message-layout-utils.ts\<close>\<close>

datatype MessageAlignment = AlignLeft | AlignRight

definition getMessageAlignment :: "Message \<Rightarrow> PlaygroundMessageLayoutMode \<Rightarrow> MessageAlignment" where
  "getMessageAlignment message layoutMode =
     (if layoutMode = LeftLayout then AlignLeft
      else if m_from message = USER then AlignRight else AlignLeft)"

definition getMessageAlignmentClass :: "MessageAlignment \<Rightarrow> string" where
  "getMessageAlignmentClass alignment =
     (if alignment = AlignRight then ''items-end text-right'' else ''items-start text-left'')"

section \<open>Lemmas\<close>

text \<open>What each update leaves alone, as one simp collection.\<close>

named_theorems message_frame \<open>fields the message operations leave unchanged\<close>

lemma updateCurrentVersionContent_frame [message_frame, simp]:
  "m_key (updateCurrentVersionContent m c) = m_key m"
  "m_from (updateCurrentVersionContent m c) = m_from m"
  "m_status (updateCurrentVersionContent m c) = m_status m"
  "m_reasoning (updateCurrentVersionContent m c) = m_reasoning m"
  "m_isReasoningStreaming (updateCurrentVersionContent m c) = m_isReasoningStreaming m"
  "m_createdAt (updateCurrentVersionContent m c) = m_createdAt m"
  "m_startedAt (updateCurrentVersionContent m c) = m_startedAt m"
  by (simp_all add: updateCurrentVersionContent_def)

lemma getCurrentVersion_update [simp]:
  "getCurrentVersion (updateCurrentVersionContent m c) = (getCurrentVersion m)\<lparr>v_content := c\<rparr>"
  by (simp add: updateCurrentVersionContent_def getCurrentVersion_def)

lemma getMessageContent_update [simp]:
  "getMessageContent (updateCurrentVersionContent m c) = c"
  by (simp add: getMessageContent_def)

lemma versions_updateCurrentVersionContent [simp]:
  "m_versions (updateCurrentVersionContent m c) \<noteq> []"
  by (simp add: updateCurrentVersionContent_def)

lemma completeAssistantTiming_frame [message_frame, simp]:
  "m_key (completeAssistantTiming m t) = m_key m"
  "m_from (completeAssistantTiming m t) = m_from m"
  "m_status (completeAssistantTiming m t) = m_status m"
  "m_versions (completeAssistantTiming m t) = m_versions m"
  "m_reasoning (completeAssistantTiming m t) = m_reasoning m"
  "m_isReasoningStreaming (completeAssistantTiming m t) = m_isReasoningStreaming m"
  "m_createdAt (completeAssistantTiming m t) = m_createdAt m"
  "m_errorCode (completeAssistantTiming m t) = m_errorCode m"
  by (simp_all add: completeAssistantTiming_def Let_def)

lemma completeReasoningTiming_frame [message_frame, simp]:
  "m_key (completeReasoningTiming m t) = m_key m"
  "m_from (completeReasoningTiming m t) = m_from m"
  "m_status (completeReasoningTiming m t) = m_status m"
  "m_versions (completeReasoningTiming m t) = m_versions m"
  "m_isReasoningStreaming (completeReasoningTiming m t) = m_isReasoningStreaming m"
  "m_createdAt (completeReasoningTiming m t) = m_createdAt m"
  "m_startedAt (completeReasoningTiming m t) = m_startedAt m"
  by (simp_all add: completeReasoningTiming_def Let_def split: option.split)

lemma completeReasoningTiming_content [simp]:
  "map_option r_content (m_reasoning (completeReasoningTiming m t)) =
   map_option r_content (m_reasoning m)"
  by (auto simp: completeReasoningTiming_def Let_def split: option.split)

lemma getCurrentVersion_cong: "m_versions m = m_versions m' \<Longrightarrow> getCurrentVersion m = getCurrentVersion m'"
  by (simp add: getCurrentVersion_def)

lemma startReasoningTiming_content [simp]:
  "r_content (startReasoningTiming m t) = nullish (map_option r_content (m_reasoning m)) []"
  by (simp add: startReasoningTiming_def split: option.split)

text \<open>A placeholder is pending, empty and never sent to the API.\<close>

lemma createLoadingAssistantMessage_content [simp]:
  "getMessageContent (createLoadingAssistantMessage k v t) = []"
  "hasMessageContent (createLoadingAssistantMessage k v t) = False"
  by (simp_all add: createLoadingAssistantMessage_def getMessageContent_def hasMessageContent_def
      getCurrentVersion_def createMessageVersion_def)

lemma createLoadingAssistantMessage_fields [simp]:
  "m_key (createLoadingAssistantMessage k v t) = k"
  "m_from (createLoadingAssistantMessage k v t) = ASSISTANT"
  "m_status (createLoadingAssistantMessage k v t) = Some LOADING"
  "m_versions (createLoadingAssistantMessage k v t) = [createMessageVersion v []]"
  by (simp_all add: createLoadingAssistantMessage_def)

lemma createUserMessage_fields [simp]:
  "m_key (createUserMessage k v c t) = k"
  "m_from (createUserMessage k v c t) = USER"
  "m_status (createUserMessage k v c t) = None"
  "m_versions (createUserMessage k v c t) = [createMessageVersion v c]"
  "getMessageContent (createUserMessage k v c t) = c"
  by (simp_all add: createUserMessage_def getMessageContent_def getCurrentVersion_def
      createMessageVersion_def)

lemma getTextContent_build: "getTextContent (buildMessageContent text urls) = text"
  by (simp add: getTextContent_def buildMessageContent_def Let_def or_string_def)

lemma isValidMessage_iff:
  "isValidMessage m \<longleftrightarrow> m_versions m \<noteq> [] \<and> (m_from m = ASSISTANT \<longrightarrow> hasMessageContent m)"
  by (simp add: isValidMessage_def)

end
