(* ===== verification/Streaming.thy ===== *)
theory Streaming
  imports Messages
begin

text \<open>
  How an assistant message changes while a completion arrives:
  \<open>lib/message/message-streaming-utils.ts\<close> and \<open>lib/message/message-update-utils.ts\<close>, with the
  \<open>ERROR_MESSAGES\<close> of \<open>constants.ts\<close>.

  A handler reads \<open>Date.now()\<close> several times; \<open>clk k\<close> is its \<open>k\<close>-th reading, in the order
  the code takes them. \<open>t\<close> is the translation function of i18next.
\<close>

type_synonym clock = "nat \<Rightarrow> number"
type_synonym translation = "string \<Rightarrow> string"

section \<open>Constants and response data\<close>

definition API_REQUEST_ERROR :: string where
  "API_REQUEST_ERROR = ''Request error occurred''"

definition NETWORK_ERROR :: string where
  "NETWORK_ERROR = ''Network connection failed or server not responding''"

definition PARSE_ERROR :: string where
  "PARSE_ERROR = ''Error parsing response data''"

definition STREAM_START_ERROR :: string where
  "STREAM_START_ERROR = ''Error establishing connection''"

definition CONNECTION_CLOSED :: string where
  "CONNECTION_CLOSED = ''Connection closed''"

definition INTERRUPTED :: string where
  "INTERRUPTED = ''Generation was interrupted''"

datatype StreamChunkType = ReasoningChunk | ContentChunk

text \<open>The parts of a completion response the code reads; any of them may be missing.\<close>

record ResponseMessage =
  rm_content :: "string option"
  rm_reasoning_content :: "string option"

record ChatCompletionChoice =
  ch_message :: "ResponseMessage option"

record ChatCompletionResponse =
  resp_choices :: "ChatCompletionChoice list option"

section \<open>\<open>message-streaming-utils.ts\<close>\<close>

definition processStreamingContent :: "clock \<Rightarrow> Message \<Rightarrow> string option \<Rightarrow> Message" where
  "processStreamingContent clk message contentChunk =
     (let currentVersion = getCurrentVersion message;
          fullContent = (case contentChunk of
              None \<Rightarrow> v_content currentVersion
            | Some c \<Rightarrow> if c = [] then v_content currentVersion else v_content currentVersion @ c)
      in if m_reasoning message = None \<and> \<not> contains fullContent think_open
         then (updateCurrentVersionContent message fullContent)
                \<lparr>m_isReasoningStreaming := Some False\<rparr>
         else let parsed = parseThinkTags fullContent;
                  finalReasoning =
                    (if tagReasoning parsed \<noteq> []
                     then Some ((startReasoningTiming message (clk 0))\<lparr>r_content := tagReasoning parsed\<rparr>)
                     else m_reasoning message)
              in (updateCurrentVersionContent message fullContent)
                   \<lparr>m_reasoning := finalReasoning,
                    m_isReasoningStreaming := Some (hasUnclosedTag parsed)\<rparr>)"

definition getAppendableChunk :: "string \<Rightarrow> string \<Rightarrow> string" where
  "getAppendableChunk currentContent chunk =
     (if currentContent = [] \<or> \<not> startsWith chunk currentContent then chunk
      else sliceFrom chunk (length currentContent))"

definition applyStreamingChunk ::
  "clock \<Rightarrow> Message \<Rightarrow> StreamChunkType \<Rightarrow> string \<Rightarrow> Message" where
  "applyStreamingChunk clk message type chunk =
     (if m_status message = Some ERROR then message
      else if type = ReasoningChunk then
        (let reasoning = startReasoningTiming message (clk 0);
             appendableChunk = getAppendableChunk (r_content reasoning) chunk
         in message\<lparr>m_reasoning := Some (reasoning\<lparr>r_content := r_content reasoning @ appendableChunk\<rparr>),
              m_isReasoningStreaming := Some True, m_status := Some STREAMING\<rparr>)
      else
        (let currentVersion = getCurrentVersion message;
             appendableChunk = getAppendableChunk (v_content currentVersion) chunk;
             contentMessage = processStreamingContent clk message (Some appendableChunk)
         in (if m_isReasoningStreaming contentMessage = Some True then contentMessage
             else completeReasoningTiming contentMessage (clk 1))\<lparr>m_status := Some STREAMING\<rparr>))"

definition finalizeMessage :: "clock \<Rightarrow> Message \<Rightarrow> string option \<Rightarrow> Message" where
  "finalizeMessage clk message apiReasoningContent =
     (let currentVersion = getCurrentVersion message;
          parsedThinkTags =
            (if contains (v_content currentVersion) think_open
             then Some (parseThinkTags (v_content currentVersion)) else None);
          visible = nullish (map_option visibleContent parsedThinkTags) (v_content currentVersion);
          finalReasoning =
            or_string (nullish apiReasoningContent [])
              (or_string (nullish (map_option r_content (m_reasoning message)) [])
                (or_string (nullish (map_option tagReasoning parsedThinkTags) []) []));
          finalized = (updateCurrentVersionContent message visible)
            \<lparr>m_reasoning :=
               (if finalReasoning \<noteq> []
                then Some ((startReasoningTiming message (clk 0))\<lparr>r_content := finalReasoning\<rparr>)
                else None),
             m_isReasoningStreaming := Some False\<rparr>
      in completeReasoningTiming finalized (clk 1))"

definition completeAssistantMessage :: "clock \<Rightarrow> Message \<Rightarrow> Message" where
  "completeAssistantMessage clk message =
     completeAssistantTiming ((finalizeMessage clk message None)\<lparr>m_status := Some COMPLETE\<rparr>) (clk 2)"

definition isAssistantMessageFinal :: "Message \<Rightarrow> bool" where
  "isAssistantMessageFinal message \<longleftrightarrow>
     m_status message = Some COMPLETE \<or> m_status message = Some ERROR"

definition isAssistantMessagePending :: "Message \<Rightarrow> bool" where
  "isAssistantMessagePending message \<longleftrightarrow>
     m_status message = Some LOADING \<or> m_status message = Some STREAMING"

definition isPendingAssistantMessage :: "Message option \<Rightarrow> bool" where
  "isPendingAssistantMessage message =
     (case message of None \<Rightarrow> False
      | Some m \<Rightarrow> m_from m = ASSISTANT \<and> isAssistantMessagePending m)"

definition first_choice :: "ChatCompletionResponse \<Rightarrow> ChatCompletionChoice option" where
  "first_choice response =
     (case resp_choices response of None \<Rightarrow> None | Some [] \<Rightarrow> None | Some (c # _) \<Rightarrow> Some c)"

definition hasChatCompletionChoice :: "ChatCompletionResponse \<Rightarrow> bool" where
  "hasChatCompletionChoice response \<longleftrightarrow> first_choice response \<noteq> None"

definition applyChatCompletionChoice ::
  "clock \<Rightarrow> Message \<Rightarrow> ChatCompletionChoice \<Rightarrow> Message" where
  "applyChatCompletionChoice clk message choice =
     completeAssistantTiming
       ((finalizeMessage clk
           (updateCurrentVersionContent message
              (case ch_message choice of None \<Rightarrow> [] | Some cm \<Rightarrow> nullish (rm_content cm) []))
           (Option.bind (ch_message choice) rm_reasoning_content))
        \<lparr>m_status := Some COMPLETE\<rparr>) (clk 2)"

definition applyChatCompletionResponse ::
  "clock \<Rightarrow> Message \<Rightarrow> ChatCompletionResponse \<Rightarrow> Message option" where
  "applyChatCompletionResponse clk message response =
     map_option (applyChatCompletionChoice clk message) (first_choice response)"

text \<open>The loop \<open>for (let i = n - 1; i >= 0; i--)\<close> that stops at the first hit.\<close>

fun scan_down :: "('a \<Rightarrow> bool) \<Rightarrow> 'a list \<Rightarrow> nat \<Rightarrow> nat option" where
  "scan_down P xs 0 = None"
| "scan_down P xs (Suc i) = (if P (xs ! i) then Some i else scan_down P xs i)"

definition sanitizePending :: "translation \<Rightarrow> clock \<Rightarrow> Message \<Rightarrow> Message" where
  "sanitizePending t clk message =
     (let finalized = finalizeMessage clk message None;
          hasContent = hasMessageContent finalized;
          hasReasoningText =
            (trim (nullish (map_option r_content (m_reasoning finalized)) []) \<noteq> [])
      in if hasContent \<or> hasReasoningText
         then completeAssistantTiming
                (finalized\<lparr>m_status := Some COMPLETE, m_isReasoningStreaming := Some False\<rparr>) (clk 2)
         else completeAssistantTiming
                ((updateCurrentVersionContent finalized
                    (t API_REQUEST_ERROR @ '': '' @ t INTERRUPTED))
                 \<lparr>m_status := Some ERROR, m_isReasoningStreaming := Some False\<rparr>) (clk 2))"

definition sanitizeMessagesOnLoad :: "translation \<Rightarrow> clock \<Rightarrow> Message list \<Rightarrow> Message list" where
  "sanitizeMessagesOnLoad t clk messages =
     (case scan_down (\<lambda>m. isPendingAssistantMessage (Some m)) messages (length messages) of
        None \<Rightarrow> messages
      | Some targetIndex \<Rightarrow>
          messages[targetIndex := sanitizePending t clk (messages ! targetIndex)])"

section \<open>\<open>message-update-utils.ts\<close>\<close>

definition updateLastAssistantMessage ::
  "Message list \<Rightarrow> (Message \<Rightarrow> Message) \<Rightarrow> Message list" where
  "updateLastAssistantMessage messages updater =
     (if length messages = 0 then messages
      else let lastMessage = messages ! (length messages - 1)
           in if m_from lastMessage \<noteq> ASSISTANT then messages
              else messages[length messages - 1 := updater lastMessage])"

definition updateAssistantMessageWithError ::
  "clock \<Rightarrow> Message list \<Rightarrow> string \<Rightarrow> string option \<Rightarrow> string \<Rightarrow> Message list" where
  "updateAssistantMessageWithError clk messages errorMessage errorCode title =
     updateLastAssistantMessage messages (\<lambda>message.
       completeAssistantTiming
         ((updateCurrentVersionContent message (title @ '': '' @ errorMessage))
          \<lparr>m_status := Some ERROR, m_isReasoningStreaming := Some False,
           m_errorCode := Some (if errorCode = Some [] then None else errorCode)\<rparr>) (clk 0))"

section \<open>Lemmas\<close>

subsection \<open>Appending chunks\<close>

text \<open>The text a chunk leaves: a chunk that repeats the text so far replaces it.\<close>

definition merge_chunk :: "string \<Rightarrow> string \<Rightarrow> string" where
  "merge_chunk cur chunk = (if cur \<noteq> [] \<and> prefix cur chunk then chunk else cur @ chunk)"

lemma append_getAppendableChunk: "cur @ getAppendableChunk cur chunk = merge_chunk cur chunk"
  by (auto simp: getAppendableChunk_def merge_chunk_def startsWith_def sliceFrom_def prefix_def)

lemma merge_chunk_Nil [simp]: "merge_chunk [] c = c"
  by (simp add: merge_chunk_def)

lemma merge_chunk_self [simp]: "merge_chunk c c = c"
  by (simp add: merge_chunk_def)

lemma processStreamingContent_content:
  "getMessageContent (processStreamingContent clk m (Some c)) = getMessageContent m @ c"
  by (simp add: processStreamingContent_def Let_def getMessageContent_def getCurrentVersion_def
      updateCurrentVersionContent_def)

lemma processStreamingContent_frame [message_frame, simp]:
  "m_key (processStreamingContent clk m c) = m_key m"
  "m_from (processStreamingContent clk m c) = m_from m"
  "m_status (processStreamingContent clk m c) = m_status m"
  by (simp_all add: processStreamingContent_def Let_def)

lemma applyStreamingChunk_frame [message_frame, simp]:
  "m_key (applyStreamingChunk clk m ty c) = m_key m"
  "m_from (applyStreamingChunk clk m ty c) = m_from m"
  by (simp_all add: applyStreamingChunk_def Let_def)

lemma applyStreamingChunk_status:
  "m_status (applyStreamingChunk clk m ty c) =
     (if m_status m = Some ERROR then Some ERROR else Some STREAMING)"
  by (simp add: applyStreamingChunk_def Let_def)

lemma applyStreamingChunk_error [simp]:
  "m_status m = Some ERROR \<Longrightarrow> applyStreamingChunk clk m ty c = m"
  by (simp add: applyStreamingChunk_def)

lemma getMessageContent_versions:
  "m_versions m = m_versions m' \<Longrightarrow> getMessageContent m = getMessageContent m'"
  by (simp add: getMessageContent_def getCurrentVersion_def)

lemma applyStreamingChunk_content:
  assumes "m_status m \<noteq> Some ERROR"
  shows "getMessageContent (applyStreamingChunk clk m ContentChunk c) =
         merge_chunk (getMessageContent m) c"
proof -
  let ?p = "processStreamingContent clk m (Some (getAppendableChunk (getMessageContent m) c))"
  have "m_versions (applyStreamingChunk clk m ContentChunk c) = m_versions ?p"
    using assms by (simp add: applyStreamingChunk_def Let_def getMessageContent_def)
  then have "getMessageContent (applyStreamingChunk clk m ContentChunk c) = getMessageContent ?p"
    by (rule getMessageContent_versions)
  then show ?thesis
    by (simp add: processStreamingContent_content append_getAppendableChunk)
qed

lemma applyStreamingChunk_reasoning_keeps_content [simp]:
  "getMessageContent (applyStreamingChunk clk m ReasoningChunk c) = getMessageContent m"
  by (rule getMessageContent_versions) (simp add: applyStreamingChunk_def Let_def)

text \<open>The text of a reasoning block, empty when there is none.\<close>

definition reasoning_text :: "Message \<Rightarrow> string" where
  "reasoning_text m = nullish (map_option r_content (m_reasoning m)) []"

lemma applyStreamingChunk_reasoning:
  assumes "m_status m \<noteq> Some ERROR"
  shows "reasoning_text (applyStreamingChunk clk m ReasoningChunk c) =
         merge_chunk (reasoning_text m) c"
  using assms
  by (simp add: applyStreamingChunk_def Let_def reasoning_text_def append_getAppendableChunk)

subsection \<open>Finalising\<close>

lemma finalizeMessage_frame [message_frame, simp]:
  "m_key (finalizeMessage clk m r) = m_key m"
  "m_from (finalizeMessage clk m r) = m_from m"
  "m_status (finalizeMessage clk m r) = m_status m"
  "m_isReasoningStreaming (finalizeMessage clk m r) = Some False"
  "m_versions (finalizeMessage clk m r) \<noteq> []"
  "m_createdAt (finalizeMessage clk m r) = m_createdAt m"
  "m_startedAt (finalizeMessage clk m r) = m_startedAt m"
  by (simp_all add: finalizeMessage_def Let_def)

lemma finalizeMessage_content:
  "getMessageContent (finalizeMessage clk m r) =
     (if contains (getMessageContent m) think_open
      then visibleContent (parseThinkTags (getMessageContent m)) else getMessageContent m)"
  by (simp add: finalizeMessage_def Let_def getMessageContent_def getCurrentVersion_def
      updateCurrentVersionContent_def)

lemma finalizeMessage_reasoning:
  "reasoning_text (finalizeMessage clk m api) =
     or_string (nullish api [])
       (or_string (reasoning_text m)
         (if contains (getMessageContent m) think_open
          then tagReasoning (parseThinkTags (getMessageContent m)) else []))"
  by (simp add: finalizeMessage_def Let_def reasoning_text_def getMessageContent_def)

lemma completeReasoningTiming_durationMs:
  "m_reasoning (completeReasoningTiming m t) = Some r \<Longrightarrow> r_durationMs r \<noteq> None"
  by (auto simp: completeReasoningTiming_def Let_def split: option.splits if_splits)

lemma finalizeMessage_reasoning_timed:
  "m_reasoning (finalizeMessage clk m api) = Some r \<Longrightarrow> r_durationMs r \<noteq> None"
  by (simp add: finalizeMessage_def Let_def completeReasoningTiming_durationMs)

lemma completeAssistantMessage_frame [message_frame, simp]:
  "m_key (completeAssistantMessage clk m) = m_key m"
  "m_from (completeAssistantMessage clk m) = m_from m"
  "m_status (completeAssistantMessage clk m) = Some COMPLETE"
  "m_isReasoningStreaming (completeAssistantMessage clk m) = Some False"
  "m_versions (completeAssistantMessage clk m) \<noteq> []"
  by (simp_all add: completeAssistantMessage_def)

lemma sanitizePending_frame [message_frame, simp]:
  "m_key (sanitizePending t clk m) = m_key m"
  "m_from (sanitizePending t clk m) = m_from m"
  "m_isReasoningStreaming (sanitizePending t clk m) = Some False"
  by (simp_all add: sanitizePending_def Let_def)

lemma sanitizePending_final [simp]: "isAssistantMessageFinal (sanitizePending t clk m)"
  by (simp add: sanitizePending_def Let_def isAssistantMessageFinal_def)

lemma final_not_pending: "isAssistantMessageFinal m \<Longrightarrow> \<not> isAssistantMessagePending m"
  by (auto simp: isAssistantMessageFinal_def isAssistantMessagePending_def)

subsection \<open>The downward scan\<close>

lemma scan_down_Some:
  "scan_down P xs n = Some i \<Longrightarrow> i < n \<and> P (xs ! i) \<and> (\<forall>j. i < j \<and> j < n \<longrightarrow> \<not> P (xs ! j))"
  by (induction n) (auto split: if_splits simp: less_Suc_eq)

lemma scan_down_None: "scan_down P xs n = None \<longleftrightarrow> (\<forall>j<n. \<not> P (xs ! j))"
  by (induction n) (auto simp: less_Suc_eq)

subsection \<open>Updating the last assistant message\<close>

lemma updateLastAssistantMessage_snoc:
  "updateLastAssistantMessage (ms @ [m]) f = ms @ [if m_from m = ASSISTANT then f m else m]"
  by (simp add: updateLastAssistantMessage_def)

lemma updateLastAssistantMessage_Nil [simp]: "updateLastAssistantMessage [] f = []"
  by (simp add: updateLastAssistantMessage_def)

lemma updateLastAssistantMessage_length [simp]:
  "length (updateLastAssistantMessage ms f) = length ms"
  by (simp add: updateLastAssistantMessage_def Let_def)

lemma updateLastAssistantMessage_comp:
  assumes "\<And>m. m_from (f m) = m_from m"
  shows "updateLastAssistantMessage (updateLastAssistantMessage ms f) g =
         updateLastAssistantMessage ms (\<lambda>m. g (f m))"
  using assms by (cases ms rule: rev_cases) (simp_all add: updateLastAssistantMessage_snoc)

lemma updateLastAssistantMessage_keys:
  assumes "\<And>m. m_key (f m) = m_key m"
  shows "map m_key (updateLastAssistantMessage ms f) = map m_key ms"
  using assms by (cases ms rule: rev_cases) (simp_all add: updateLastAssistantMessage_snoc)

lemma updateLastAssistantMessage_from:
  assumes "\<And>m. m_from (f m) = m_from m"
  shows "map m_from (updateLastAssistantMessage ms f) = map m_from ms"
  using assms by (cases ms rule: rev_cases) (simp_all add: updateLastAssistantMessage_snoc)

subsection \<open>Sequences of chunks\<close>

definition applyStreamingChunks ::
  "clock \<Rightarrow> Message \<Rightarrow> (StreamChunkType \<times> string) list \<Rightarrow> Message" where
  "applyStreamingChunks clk m chunks = foldl (\<lambda>m (ty, c). applyStreamingChunk clk m ty c) m chunks"

text \<open>The chunks of one type, in the order they arrive.\<close>

definition chunks_of :: "StreamChunkType \<Rightarrow> (StreamChunkType \<times> string) list \<Rightarrow> string list" where
  "chunks_of ty chunks = map snd (filter (\<lambda>(ty', _). ty' = ty) chunks)"

text \<open>Texts none of which starts with everything that precedes it.\<close>

fun increments :: "string \<Rightarrow> string list \<Rightarrow> bool" where
  "increments cur [] = True"
| "increments cur (c # cs) = ((cur = [] \<or> \<not> prefix cur c) \<and> increments (cur @ c) cs)"

text \<open>Texts each of which starts with the one before.\<close>

fun snapshots :: "string \<Rightarrow> string list \<Rightarrow> bool" where
  "snapshots cur [] = True"
| "snapshots cur (c # cs) = (prefix cur c \<and> snapshots c cs)"

lemma foldl_merge_increments: "increments cur cs \<Longrightarrow> foldl merge_chunk cur cs = cur @ concat cs"
  by (induction cs arbitrary: cur) (auto simp: merge_chunk_def)

lemma foldl_merge_snapshots: "snapshots cur cs \<Longrightarrow> foldl merge_chunk cur cs = last (cur # cs)"
  by (induction cs arbitrary: cur) (auto simp: merge_chunk_def)

lemma applyStreamingChunks_content:
  assumes "m_status m \<noteq> Some ERROR"
  shows "getMessageContent (applyStreamingChunks clk m chunks) =
         foldl merge_chunk (getMessageContent m) (chunks_of ContentChunk chunks)"
  using assms unfolding applyStreamingChunks_def
proof (induction chunks arbitrary: m)
  case (Cons x chunks)
  obtain ty c where x: "x = (ty, c)" by (cases x)
  show ?case
    using Cons.IH [of "applyStreamingChunk clk m ty c"] Cons.prems
    by (cases ty) (simp_all add: x chunks_of_def applyStreamingChunk_status applyStreamingChunk_content)
qed (simp add: chunks_of_def)

lemma applyStreamingChunks_error:
  "m_status m = Some ERROR \<Longrightarrow> applyStreamingChunks clk m chunks = m"
  unfolding applyStreamingChunks_def by (induction chunks) auto

lemma applyStreamingChunks_frame:
  "m_key (applyStreamingChunks clk m chunks) = m_key m \<and>
   m_from (applyStreamingChunks clk m chunks) = m_from m \<and>
   (m_status m \<noteq> Some ERROR \<and> chunks \<noteq> [] \<longrightarrow>
    m_status (applyStreamingChunks clk m chunks) = Some STREAMING)"
proof (induction chunks rule: rev_induct)
  case (snoc x chunks)
  then show ?case
    by (cases x, cases "chunks = []")
      (auto simp: applyStreamingChunks_def applyStreamingChunk_status)
qed (simp add: applyStreamingChunks_def)

section \<open>Properties\<close>

text \<open>
  C7: whatever order reasoning and content chunks arrive in, the content of a message that is not
  in error is the text it had followed by the content chunks when they are increments, and the
  last chunk when they are snapshots of the whole text; key and sender stay, and the message is
  streaming.
\<close>

theorem stream_content:
  assumes "m_status m \<noteq> Some ERROR" "chunks \<noteq> []"
  shows "(increments (getMessageContent m) (chunks_of ContentChunk chunks) \<longrightarrow>
            getMessageContent (applyStreamingChunks clk m chunks) =
            getMessageContent m @ concat (chunks_of ContentChunk chunks)) \<and>
         (snapshots (getMessageContent m) (chunks_of ContentChunk chunks) \<longrightarrow>
            getMessageContent (applyStreamingChunks clk m chunks) =
            last (getMessageContent m # chunks_of ContentChunk chunks)) \<and>
         m_status (applyStreamingChunks clk m chunks) = Some STREAMING \<and>
         m_key (applyStreamingChunks clk m chunks) = m_key m \<and>
         m_from (applyStreamingChunks clk m chunks) = m_from m"
  using assms applyStreamingChunks_frame [of clk m chunks]
  by (simp add: applyStreamingChunks_content foldl_merge_increments foldl_merge_snapshots del: last.simps)

theorem stream_content_witness:
  "getMessageContent (applyStreamingChunks (\<lambda>k. 0) (createLoadingAssistantMessage ''k'' ''v'' 0)
     [(ReasoningChunk, ''hm''), (ContentChunk, ''He''), (ContentChunk, ''llo'')]) = ''Hello'' \<and>
   getMessageContent (applyStreamingChunks (\<lambda>k. 0) (createLoadingAssistantMessage ''k'' ''v'' 0)
     [(ContentChunk, ''He''), (ContentChunk, ''Hello'')]) = ''Hello''"
  using stream_content [of "createLoadingAssistantMessage ''k'' ''v'' 0"
      "[(ReasoningChunk, ''hm''), (ContentChunk, ''He''), (ContentChunk, ''llo'')]" "\<lambda>k. 0"]
    stream_content [of "createLoadingAssistantMessage ''k'' ''v'' 0"
      "[(ContentChunk, ''He''), (ContentChunk, ''Hello'')]" "\<lambda>k. 0"]
  by (simp add: chunks_of_def)

text \<open>A delta that repeats the text so far is taken for a snapshot: its text is lost.\<close>

lemma repeated_delta_lost:
  "getMessageContent (applyStreamingChunks clk (createLoadingAssistantMessage k v now)
     [(ContentChunk, ''ha''), (ContentChunk, ''ha'')]) = ''ha''"
  by (subst applyStreamingChunks_content) (simp_all add: chunks_of_def)

text \<open>
  C24: a completed assistant message is final, shows its content with the think elements taken
  out, has lost no reasoning to the tags, and its timing is consistent: it completes when it was
  completed, and its durations are not negative.
\<close>

theorem completeAssistantMessage_final:
  assumes "m_from m = ASSISTANT"
  shows "isAssistantMessageFinal (completeAssistantMessage clk m) \<and>
         getMessageContent (completeAssistantMessage clk m) =
           (if contains (getMessageContent m) think_open
            then visibleContent (parseThinkTags (getMessageContent m)) else getMessageContent m) \<and>
         reasoning_text (completeAssistantMessage clk m) =
           or_string (reasoning_text m)
             (if contains (getMessageContent m) think_open
              then tagReasoning (parseThinkTags (getMessageContent m)) else []) \<and>
         m_completedAt (completeAssistantMessage clk m) = Some (clk 2) \<and>
         (\<exists>s d. m_startedAt (completeAssistantMessage clk m) = Some s \<and>
            m_durationMs (completeAssistantMessage clk m) = Some d \<and> 0 \<le> d \<and>
            (s \<le> clk 2 \<longrightarrow> clk 2 = s + d)) \<and>
         (\<forall>r. m_reasoning (completeAssistantMessage clk m) = Some r \<longrightarrow> r_durationMs r \<noteq> None)"
proof -
  let ?f = "(finalizeMessage clk m None)\<lparr>m_status := Some COMPLETE\<rparr>"
  have c: "completeAssistantMessage clk m = completeAssistantTiming ?f (clk 2)"
    by (simp add: completeAssistantMessage_def)
  have v: "m_versions (completeAssistantMessage clk m) = m_versions (finalizeMessage clk m None)"
    by (simp add: c)
  have r: "m_reasoning (completeAssistantMessage clk m) = m_reasoning (finalizeMessage clk m None)"
    by (simp add: c)
  have rt: "reasoning_text (completeAssistantMessage clk m) = reasoning_text (finalizeMessage clk m None)"
    by (simp add: reasoning_text_def r)
  have "\<exists>s d. m_startedAt (completeAssistantMessage clk m) = Some s \<and>
            m_durationMs (completeAssistantMessage clk m) = Some d \<and> 0 \<le> d \<and>
            (s \<le> clk 2 \<longrightarrow> clk 2 = s + d)"
    using assms by (simp add: c completeAssistantTiming_def Let_def)
  then show ?thesis
    using assms finalizeMessage_content [of clk m None] finalizeMessage_reasoning [of clk m None]
      getMessageContent_versions [OF v] finalizeMessage_reasoning_timed [of clk m None]
    by (simp add: isAssistantMessageFinal_def rt r or_string_def) 
       (simp add: c completeAssistantTiming_def Let_def)
qed

theorem completeAssistantMessage_final_witness:
  "m_durationMs (completeAssistantMessage (\<lambda>k. 50) (createLoadingAssistantMessage ''k'' ''v'' 20)) = Some 30"
  using completeAssistantMessage_final [of "createLoadingAssistantMessage ''k'' ''v'' 20" "\<lambda>k. 50"]
  by (simp add: completeAssistantMessage_def completeAssistantTiming_def Let_def)
     (simp add: createLoadingAssistantMessage_def)

text \<open>
  An error ends a message for good: it is final, shows the error, and chunks that arrive
  afterwards change nothing.
\<close>

theorem error_is_absorbing:
  assumes "m_from m = ASSISTANT"
  shows "\<exists>m'. updateAssistantMessageWithError clk (ms @ [m]) errorMessage errorCode title = ms @ [m'] \<and>
           m_status m' = Some ERROR \<and> m_key m' = m_key m \<and>
           getMessageContent m' = title @ '': '' @ errorMessage \<and>
           updateLastAssistantMessage (ms @ [m']) (\<lambda>m. applyStreamingChunks clk' m chunks) = ms @ [m']"
  using assms
  by (auto simp: updateAssistantMessageWithError_def updateLastAssistantMessage_snoc
      applyStreamingChunks_error getMessageContent_def getCurrentVersion_def updateCurrentVersionContent_def)

theorem error_is_absorbing_witness:
  "\<exists>m'. updateAssistantMessageWithError (\<lambda>k. 0) [createLoadingAssistantMessage ''k'' ''v'' 0]
      ''e'' None ''t'' = [m'] \<and> m_status m' = Some ERROR \<and> getMessageContent m' = ''t: e''"
  using error_is_absorbing [of "createLoadingAssistantMessage ''k'' ''v'' 0" "\<lambda>k. 0" "[]" "''e''" None
      "''t''" "\<lambda>k. 0" "[]"] by auto

text \<open>
  On load, exactly the last pending assistant message is changed, and it becomes final;
  nothing is changed when no assistant message is pending.
\<close>

theorem sanitizeMessagesOnLoad_spec:
  "(\<exists>i m'. i < length ms \<and> isPendingAssistantMessage (Some (ms ! i)) \<and>
      \<not> list_ex (\<lambda>m. isPendingAssistantMessage (Some m)) (drop (Suc i) ms) \<and>
      sanitizeMessagesOnLoad t clk ms = ms[i := m'] \<and> isAssistantMessageFinal m' \<and>
      m_key m' = m_key (ms ! i) \<and> m_from m' = ASSISTANT \<and>
      (hasMessageContent m' \<or> 0 < length (reasoning_text m') \<or> m_status m' = Some ERROR)) \<or>
   list_all (\<lambda>m. isPendingAssistantMessage (Some m) = False) ms \<and>
   sanitizeMessagesOnLoad t clk ms = ms"
proof (cases "scan_down (\<lambda>m. isPendingAssistantMessage (Some m)) ms (length ms)")
  case None
  then have "sanitizeMessagesOnLoad t clk ms = ms" by (simp add: sanitizeMessagesOnLoad_def)
  then show ?thesis using None by (simp add: scan_down_None list_all_length)
next
  case (Some i)
  note sd = scan_down_Some [OF Some]
  have "\<not> list_ex (\<lambda>m. isPendingAssistantMessage (Some m)) (drop (Suc i) ms)"
    using sd by (auto simp: list_ex_length)
  moreover have "hasMessageContent (sanitizePending t clk m) \<or> 0 < length (reasoning_text (sanitizePending t clk m))
      \<or> m_status (sanitizePending t clk m) = Some ERROR" for m
    by (auto simp: sanitizePending_def Let_def hasMessageContent_def reasoning_text_def
        getMessageContent_def getCurrentVersion_def)
  ultimately show ?thesis
    using sd by (intro disjI1 exI [of _ i] exI [of _ "sanitizePending t clk (ms ! i)"])
      (simp add: sanitizeMessagesOnLoad_def Some, simp add: isPendingAssistantMessage_def)
qed

text \<open>Of two pending assistant messages the earlier one stays pending.\<close>

lemma sanitize_leaves_pending:
  "list_ex (\<lambda>m. isPendingAssistantMessage (Some m)) (sanitizeMessagesOnLoad t clk
     [createLoadingAssistantMessage ''a'' ''v'' 0, createLoadingAssistantMessage ''b'' ''w'' 0])"
  by (simp add: sanitizeMessagesOnLoad_def isPendingAssistantMessage_def isAssistantMessagePending_def
      numeral_2_eq_2)

end
