(* ===== verification/Conversation.thy ===== *)
theory Conversation
  imports Streaming
begin

text \<open>
  Editing the list of messages (\<open>lib/message/conversation-message-utils.ts\<close>) and building the
  request that is sent (\<open>lib/streaming/payload-builder.ts\<close>), with the option and input helpers
  (\<open>lib/options/playground-option-utils.ts\<close>, \<open>lib/input/input-control-utils.ts\<close>) and the
  defaults of \<open>constants.ts\<close>. \<open>ids k\<close> is the \<open>k\<close>-th identifier \<open>nanoid()\<close> returns in a call.
\<close>

type_synonym id_source = "nat \<Rightarrow> string"

section \<open>\<open>conversation-message-utils.ts\<close>\<close>

definition appendUserMessagePair ::
  "id_source \<Rightarrow> number \<Rightarrow> Message list \<Rightarrow> string \<Rightarrow> Message list" where
  "appendUserMessagePair ids submittedAt messages content =
     messages @
     [createUserMessage (ids 0) (ids 1) content submittedAt,
      createLoadingAssistantMessage (ids 2) (ids 3) submittedAt]"

definition createRegeneratedMessages ::
  "id_source \<Rightarrow> number \<Rightarrow> Message list \<Rightarrow> string \<Rightarrow> Message list option" where
  "createRegeneratedMessages ids now messages messageKey =
     (case findIndex (\<lambda>message. m_key message = messageKey) messages of
        None \<Rightarrow> None
      | Some messageIndex \<Rightarrow>
          if m_from (messages ! messageIndex) = USER
          then Some (take (messageIndex + 1) messages @
                 [createLoadingAssistantMessage (ids 0) (ids 1) now])
          else Some (take messageIndex messages @
                 [createLoadingAssistantMessage (ids 0) (ids 1) now]))"

definition removeMessageByKey :: "Message list \<Rightarrow> string \<Rightarrow> Message list" where
  "removeMessageByKey messages messageKey = filter (\<lambda>message. m_key message \<noteq> messageKey) messages"

text \<open>Reading past the end yields \<open>undefined\<close>, whose field access throws.\<close>

fun getPreviousUserMessage :: "Message list \<Rightarrow> nat \<Rightarrow> js_error + Message option" where
  "getPreviousUserMessage messages 0 = Inr None"
| "getPreviousUserMessage messages (Suc index) =
     (if length messages \<le> index then Inl TypeError
      else if m_from (messages ! index) = USER then Inr (Some (messages ! index))
      else getPreviousUserMessage messages index)"

record ApplyMessageEditResult =
  er_messages :: "Message list"
  shouldSend :: bool

definition applyMessageEdit ::
  "id_source \<Rightarrow> number \<Rightarrow> Message list \<Rightarrow> string \<Rightarrow> string \<Rightarrow> bool \<Rightarrow>
   ApplyMessageEditResult option" where
  "applyMessageEdit ids submittedAt messages messageKey content shouldSubmit =
     (case findIndex (\<lambda>message. m_key message = messageKey) messages of
        None \<Rightarrow> None
      | Some messageIndex \<Rightarrow>
          (let updatedMessages = map (\<lambda>message.
                 if m_key message = messageKey
                 then (updateCurrentVersionContent message content)
                        \<lparr>m_createdAt := (if shouldSubmit then Some submittedAt
                                         else m_createdAt message)\<rparr>
                 else message) messages
           in if \<not> shouldSubmit \<or> m_from (updatedMessages ! messageIndex) \<noteq> USER
              then Some \<lparr>er_messages = updatedMessages, shouldSend = False\<rparr>
              else Some \<lparr>er_messages = take (messageIndex + 1) updatedMessages @
                           [createLoadingAssistantMessage (ids 0) (ids 1) submittedAt],
                         shouldSend = True\<rparr>))"

definition getEditingMessageContent :: "Message list \<Rightarrow> string option \<Rightarrow> string" where
  "getEditingMessageContent messages editingKey =
     (case editingKey of
        None \<Rightarrow> []
      | Some k \<Rightarrow>
          if k = [] then []
          else (case find (\<lambda>item. m_key item = k) messages of
                  None \<Rightarrow> [] | Some message \<Rightarrow> getMessageContent message))"

record ChatMessageRenderState =
  alwaysShowActions :: bool
  rs_content :: string
  isEditing :: bool

definition getChatMessageRenderState ::
  "Message list \<Rightarrow> Message \<Rightarrow> nat \<Rightarrow> string option \<Rightarrow> ChatMessageRenderState" where
  "getChatMessageRenderState messages message messageIndex editingKey =
     \<lparr>alwaysShowActions = (messageIndex + 1 = length messages \<and> m_from message = ASSISTANT),
      rs_content = getMessageContent message,
      isEditing = (editingKey = Some (m_key message))\<rparr>"

section \<open>Configuration and request payload\<close>

record PlaygroundConfig =
  cfg_model :: string
  cfg_group :: string
  cfg_temperature :: number
  cfg_top_p :: number
  cfg_max_tokens :: number
  cfg_frequency_penalty :: number
  cfg_presence_penalty :: number
  cfg_seed :: "number option"
  cfg_stream :: bool

record ParameterEnabled =
  en_temperature :: bool
  en_top_p :: bool
  en_max_tokens :: bool
  en_frequency_penalty :: bool
  en_presence_penalty :: bool
  en_seed :: bool

definition DEFAULT_CONFIG :: PlaygroundConfig where
  "DEFAULT_CONFIG =
     \<lparr>cfg_model = ''gpt-4o'', cfg_group = ''default'', cfg_temperature = 7 / 10, cfg_top_p = 1,
      cfg_max_tokens = 4096, cfg_frequency_penalty = 0, cfg_presence_penalty = 0,
      cfg_seed = None, cfg_stream = True\<rparr>"

definition DEFAULT_PARAMETER_ENABLED :: ParameterEnabled where
  "DEFAULT_PARAMETER_ENABLED =
     \<lparr>en_temperature = True, en_top_p = True, en_max_tokens = False,
      en_frequency_penalty = True, en_presence_penalty = True, en_seed = False\<rparr>"

record ChatCompletionRequest =
  req_model :: string
  req_group :: "string option"
  req_messages :: "ChatCompletionMessage list"
  req_stream :: bool
  req_temperature :: "number option"
  req_top_p :: "number option"
  req_max_tokens :: "number option"
  req_frequency_penalty :: "number option"
  req_presence_penalty :: "number option"
  req_seed :: "number option"

definition buildChatCompletionPayload ::
  "Message list \<Rightarrow> PlaygroundConfig \<Rightarrow> ParameterEnabled \<Rightarrow> ChatCompletionRequest" where
  "buildChatCompletionPayload messages config parameterEnabled =
     (let processedMessages = map formatMessageForAPI (filter isValidMessage messages)
      in \<lparr>req_model = cfg_model config, req_group = Some (cfg_group config),
          req_messages = processedMessages, req_stream = cfg_stream config,
          req_temperature =
            (if en_temperature parameterEnabled then Some (cfg_temperature config) else None),
          req_top_p = (if en_top_p parameterEnabled then Some (cfg_top_p config) else None),
          req_max_tokens =
            (if en_max_tokens parameterEnabled then Some (cfg_max_tokens config) else None),
          req_frequency_penalty =
            (if en_frequency_penalty parameterEnabled
             then Some (cfg_frequency_penalty config) else None),
          req_presence_penalty =
            (if en_presence_penalty parameterEnabled
             then Some (cfg_presence_penalty config) else None),
          req_seed =
            (if en_seed parameterEnabled \<and> cfg_seed config \<noteq> None then cfg_seed config else None)\<rparr>)"

section \<open>Options and input\<close>

record ModelOption =
  mo_label :: string
  mo_value :: string

record GroupOption =
  go_label :: string
  go_value :: string
  go_ratio :: number
  go_desc :: "string option"

definition getModelFallback :: "ModelOption list \<Rightarrow> string \<Rightarrow> string option" where
  "getModelFallback models currentModel =
     (if list_ex (\<lambda>model. mo_value model = currentModel) models then None
      else case models of [] \<Rightarrow> None | m # _ \<Rightarrow> Some (mo_value m))"

definition shouldClearModelForGroup :: "ModelOption list \<Rightarrow> string \<Rightarrow> bool" where
  "shouldClearModelForGroup models currentModel =
     (if currentModel = [] then False
      else \<not> list_ex (\<lambda>model. mo_value model = currentModel) models)"

definition getGroupFallback :: "GroupOption list \<Rightarrow> string \<Rightarrow> string option" where
  "getGroupFallback groups currentGroup =
     (if list_ex (\<lambda>group. go_value group = currentGroup) groups then None
      else case groups of
             [] \<Rightarrow> None
           | g # _ \<Rightarrow> Some (nullish
               (map_option go_value (find (\<lambda>group. go_value group = ''default'') groups))
               (go_value g)))"

definition getSubmittableInputText :: "string option \<Rightarrow> bool option \<Rightarrow> string option" where
  "getSubmittableInputText text disabled =
     (if disabled = Some True then None
      else case text of None \<Rightarrow> None | Some s \<Rightarrow> if trim s = [] then None else Some s)"

record InputControlState =
  canSubmit :: bool
  isSelectorDisabled :: bool
  shouldShowStop :: bool

definition getInputControlState ::
  "bool \<Rightarrow> GroupOption list \<Rightarrow> bool \<Rightarrow> bool \<Rightarrow> bool \<Rightarrow> ModelOption list \<Rightarrow> string \<Rightarrow>
   InputControlState" where
  "getInputControlState disabled groups hasStopHandler isGenerating isModelLoading models text =
     (let hasModels = (0 < length models)
      in \<lparr>canSubmit = (\<not> disabled \<and> hasModels \<and> 0 < length (trim text)),
          isSelectorDisabled = (disabled \<or> isModelLoading \<or> length groups = 0),
          shouldShowStop = (isGenerating \<and> hasStopHandler)\<rparr>)"

section \<open>Lemmas\<close>

subsection \<open>Keys\<close>

text \<open>Message keys identify messages: no two messages of a conversation share one.\<close>

definition distinct_keys :: "Message list \<Rightarrow> bool" where
  "distinct_keys messages = distinct (map m_key messages)"

lemma distinct_keys_append:
  "distinct_keys (xs @ ys) \<longleftrightarrow> distinct_keys xs \<and> distinct_keys ys \<and>
     m_key ` set xs \<inter> m_key ` set ys = {}"
  by (simp add: distinct_keys_def)

lemma distinct_keys_take: "distinct_keys xs \<Longrightarrow> distinct_keys (take n xs)"
  by (simp add: distinct_keys_def take_map [symmetric])

lemma distinct_keys_filter: "distinct_keys xs \<Longrightarrow> distinct_keys (filter P xs)"
  by (simp add: distinct_keys_def distinct_map_filter)

lemma distinct_keys_map:
  "(\<And>m. m_key (f m) = m_key m) \<Longrightarrow> distinct_keys (map f xs) = distinct_keys xs"
  by (simp add: distinct_keys_def comp_def)

lemma keys_take_subset: "m_key ` set (take n xs) \<subseteq> m_key ` set xs"
  by (auto dest: in_set_takeD)

lemma distinct_keys_findIndex:
  assumes "distinct_keys ms" "findIndex (\<lambda>m. m_key m = k) ms = Some i" "j < length ms" "j \<noteq> i"
  shows "m_key (ms ! j) \<noteq> k"
  using assms findIndex_Some [OF assms(2)]
  by (auto simp: distinct_keys_def distinct_conv_nth)

subsection \<open>Editing\<close>

definition edit_one :: "string \<Rightarrow> string \<Rightarrow> bool \<Rightarrow> number \<Rightarrow> Message \<Rightarrow> Message" where
  "edit_one messageKey content shouldSubmit submittedAt message =
     (if m_key message = messageKey
      then (updateCurrentVersionContent message content)
             \<lparr>m_createdAt := (if shouldSubmit then Some submittedAt else m_createdAt message)\<rparr>
      else message)"

lemma edit_one_key [simp]: "m_key (edit_one k c s t m) = m_key m"
  by (simp add: edit_one_def)

lemma edit_one_from [simp]: "m_from (edit_one k c s t m) = m_from m"
  by (simp add: edit_one_def)

lemma edit_one_content:
  "getMessageContent (edit_one k c s t m) = (if m_key m = k then c else getMessageContent m)"
  by (simp add: edit_one_def getMessageContent_def getCurrentVersion_def
      updateCurrentVersionContent_def)

lemma applyMessageEdit_eq:
  "applyMessageEdit ids now ms k c submit =
     (case findIndex (\<lambda>m. m_key m = k) ms of
        None \<Rightarrow> None
      | Some i \<Rightarrow>
          if submit \<and> m_from (ms ! i) = USER
          then Some \<lparr>er_messages = take (i + 1) (map (edit_one k c submit now) ms) @
                       [createLoadingAssistantMessage (ids 0) (ids 1) now], shouldSend = True\<rparr>
          else Some \<lparr>er_messages = map (edit_one k c submit now) ms, shouldSend = False\<rparr>)"
proof (cases "findIndex (\<lambda>m. m_key m = k) ms")
  case (Some i)
  have map_eq: "map (\<lambda>message. if m_key message = k
                 then (updateCurrentVersionContent message c)
                        \<lparr>m_createdAt := (if submit then Some now else m_createdAt message)\<rparr>
                 else message) ms = map (edit_one k c submit now) ms"
    by (simp add: edit_one_def cong: map_cong)
  have i: "i < length ms" using findIndex_Some [OF Some] by simp
  then have fr: "m_from (map (edit_one k c submit now) ms ! i) = m_from (ms ! i)" by simp
  show ?thesis
    unfolding applyMessageEdit_def Some option.case Let_def map_eq fr by auto
qed (simp add: applyMessageEdit_def)

subsection \<open>Payload\<close>

lemma payload_drops_placeholder:
  "m_from m = ASSISTANT \<Longrightarrow> \<not> hasMessageContent m \<Longrightarrow>
   req_messages (buildChatCompletionPayload (ms @ [m]) cfg en) =
   req_messages (buildChatCompletionPayload ms cfg en)"
  by (simp add: buildChatCompletionPayload_def Let_def isValidMessage_iff)

section \<open>Properties\<close>

text \<open>The identifiers a call draws are new and differ from each other.\<close>

definition fresh_ids :: "id_source \<Rightarrow> Message list \<Rightarrow> bool" where
  "fresh_ids ids ms \<longleftrightarrow> ids 0 \<noteq> ids 2 \<and> ids 0 \<notin> m_key ` set ms \<and> ids 2 \<notin> m_key ` set ms"

lemma createRegeneratedMessages_Some:
  assumes "findIndex (\<lambda>m. m_key m = k) ms = Some i"
  shows "createRegeneratedMessages ids now ms k =
    Some (take (if m_from (ms ! i) = USER then i + 1 else i) ms @
      [createLoadingAssistantMessage (ids 0) (ids 1) now])"
  using assms by (simp add: createRegeneratedMessages_def)

lemma distinct_keys_snoc_fresh:
  assumes "distinct_keys xs" "m_key m \<notin> m_key ` set xs"
  shows "distinct_keys (xs @ [m])"
  using assms by (simp add: distinct_keys_append) (simp add: distinct_keys_def)

lemma distinct_keys_take_fresh:
  assumes "distinct_keys ms" "m_key m \<notin> m_key ` set ms"
  shows "distinct_keys (take n ms @ [m])"
  using assms keys_take_subset [of n ms] by (intro distinct_keys_snoc_fresh distinct_keys_take) auto

lemma keys_map_edit: "m_key ` set (map (edit_one k c s t) ms) = m_key ` set ms"
  by (simp add: image_image)

lemma distinct_append_pair:
  "distinct_keys ms \<Longrightarrow> fresh_ids ids ms \<Longrightarrow> distinct_keys (appendUserMessagePair ids now ms content)"
  by (simp add: appendUserMessagePair_def distinct_keys_def fresh_ids_def)

lemma distinct_regenerated:
  "distinct_keys ms \<Longrightarrow> fresh_ids ids ms \<Longrightarrow> createRegeneratedMessages ids now ms k = Some ms' \<Longrightarrow>
   distinct_keys ms'"
  by (auto simp: createRegeneratedMessages_def fresh_ids_def split: option.splits if_splits
      intro!: distinct_keys_take_fresh simp del: take_Suc)

lemma distinct_edited:
  assumes "distinct_keys ms" "fresh_ids ids ms"
    "applyMessageEdit ids now ms k content submit = Some res"
  shows "distinct_keys (er_messages res)"
proof -
  have d: "distinct_keys (map (edit_one k content submit now) ms)"
    using assms(1) by (simp add: distinct_keys_map)
  have "ids 0 \<notin> m_key ` set (map (edit_one k content submit now) ms)"
    using assms(2) unfolding keys_map_edit by (simp add: fresh_ids_def)
  then have "distinct_keys (take n (map (edit_one k content submit now) ms) @
      [createLoadingAssistantMessage (ids 0) (ids 1) now])" for n
    using d by (intro distinct_keys_take_fresh) simp_all
  then show ?thesis
    using assms(3) d by (auto simp: applyMessageEdit_eq simp del: take_Suc split: option.splits if_splits)
qed

lemma distinct_removed: "distinct_keys ms \<Longrightarrow> distinct_keys (removeMessageByKey ms k)"
  by (simp add: removeMessageByKey_def distinct_keys_filter)

text \<open>
  Regenerating from a message keeps the conversation up to the question it belongs to,
  drops everything after it, ends with one pending placeholder, and the request built from the
  result sends exactly what was kept.
\<close>

theorem regenerate_request:
  assumes "findIndex (\<lambda>m. m_key m = k) ms = Some i"
  shows "\<exists>n ms'. n = (if m_from (ms ! i) = USER then i + 1 else i) \<and>
     createRegeneratedMessages ids now ms k = Some ms' \<and> length ms' = n + 1 \<and>
     take n ms' = take n ms \<and> isPendingAssistantMessage (Some (last ms')) \<and>
     buildChatCompletionPayload ms' cfg en = buildChatCompletionPayload (take n ms) cfg en"
proof -
  have i: "i < length ms" using findIndex_Some [OF assms] by simp
  define n where "n = (if m_from (ms ! i) = USER then i + 1 else i)"
  have n: "n \<le> length ms" using i by (simp add: n_def)
  let ?p = "createLoadingAssistantMessage (ids 0) (ids 1) now"
  have p: "\<not> isValidMessage ?p" by (simp add: isValidMessage_def)
  have "createRegeneratedMessages ids now ms k = Some (take n ms @ [?p])"
    unfolding n_def by (rule createRegeneratedMessages_Some [OF assms])
  then show ?thesis
    using n p by (intro exI [of _ n] exI [of _ "take n ms @ [?p]"])
      (simp add: isPendingAssistantMessage_def isAssistantMessagePending_def
        buildChatCompletionPayload_def n_def [symmetric])
qed

theorem regenerate_request_witness:
  "\<exists>ms'. createRegeneratedMessages (\<lambda>k. ''n'') 5 [createUserMessage ''k'' ''v'' ''hello'' 0] ''k'' = Some ms' \<and>
     length ms' = 2"
  using regenerate_request [of "''k''" "[createUserMessage ''k'' ''v'' ''hello'' 0]" 0 "\<lambda>k. ''n''" 5
      DEFAULT_CONFIG DEFAULT_PARAMETER_ENABLED]
  by auto

text \<open>
  An edit changes the content of the edited message and of no other. Submitting an edited
  user message drops what followed it, adds one pending placeholder and asks to send; any other
  edit keeps the length and sends nothing.
\<close>

theorem applyMessageEdit_spec:
  assumes "distinct_keys ms" "findIndex (\<lambda>m. m_key m = k) ms = Some i"
  shows "\<exists>res. applyMessageEdit ids now ms k content submit = Some res \<and>
     shouldSend res = (submit \<and> m_from (ms ! i) = USER) \<and>
     length (er_messages res) = (if shouldSend res then i + 2 else length ms) \<and>
     getMessageContent (er_messages res ! i) = content \<and>
     (\<forall>j < length (er_messages res). j \<noteq> i \<longrightarrow>
        (shouldSend res \<and> j = i + 1 \<longrightarrow> isPendingAssistantMessage (Some (er_messages res ! j))) \<and>
        (\<not> (shouldSend res \<and> j = i + 1) \<longrightarrow> er_messages res ! j = ms ! j))"
proof -
  note fi = findIndex_Some [OF assms(2)]
  let ?es = "map (edit_one k content submit now) ms"
  have other: "?es ! j = ms ! j" if "j < length ms" "j \<noteq> i" for j
    using distinct_keys_findIndex [OF assms that] that by (simp add: edit_one_def)
  have at: "getMessageContent (?es ! i) = content" using fi by (simp add: edit_one_content)
  let ?p = "createLoadingAssistantMessage (ids 0) (ids 1) now"
  have pend: "isPendingAssistantMessage (Some ?p)"
    by (simp add: isPendingAssistantMessage_def isAssistantMessagePending_def)
  show ?thesis
  proof (cases "submit \<and> m_from (ms ! i) = USER")
    case True
    have "(take (i + 1) ?es @ [?p]) ! j = (if j = i + 1 then ?p else ?es ! j)" if "j < i + 2" for j
      using that fi by (auto simp: nth_append simp del: take_Suc nth_map take_map)
    then show ?thesis
      using True fi other at pend
      by (intro exI [of _ "\<lparr>er_messages = take (i + 1) ?es @ [?p], shouldSend = True\<rparr>"])
        (auto simp: applyMessageEdit_eq assms(2) simp del: take_Suc nth_map take_map)
  next
    case False
    then show ?thesis
      using fi other at
      by (intro exI [of _ "\<lparr>er_messages = ?es, shouldSend = False\<rparr>"])
        (auto simp: applyMessageEdit_eq assms(2) simp del: nth_map)
  qed
qed

theorem applyMessageEdit_spec_witness:
  "\<exists>res. applyMessageEdit (\<lambda>k. ''n'') 5 [createUserMessage ''k'' ''v'' ''hello'' 0] ''k'' ''bye'' True = Some res \<and>
     shouldSend res \<and> length (er_messages res) = 2 \<and> getMessageContent (er_messages res ! 0) = ''bye''"
  using applyMessageEdit_spec [of "[createUserMessage ''k'' ''v'' ''hello'' 0]" "''k''" 0 "\<lambda>k. ''n''" 5
      "''bye''" True]
  by (auto simp: distinct_keys_def)

text \<open>
  The request carries the contents of the sendable messages in conversation order, never an
  empty assistant turn, and each sampling parameter exactly when it is enabled (the seed also has
  to be set).
\<close>

theorem payload_spec:
  "map c_content (req_messages (buildChatCompletionPayload ms cfg en)) =
     map (StringContent \<circ> getMessageContent) (filter isValidMessage ms) \<and>
   map c_role (req_messages (buildChatCompletionPayload ms cfg en)) = map m_from (filter isValidMessage ms) \<and>
   list_all (\<lambda>c. \<not> (c_role c = ASSISTANT \<and> trim (getTextContent (c_content c)) = []))
     (req_messages (buildChatCompletionPayload ms cfg en)) \<and>
   (req_temperature (buildChatCompletionPayload ms cfg en) \<noteq> None) = en_temperature en \<and>
   (req_top_p (buildChatCompletionPayload ms cfg en) \<noteq> None) = en_top_p en \<and>
   (req_max_tokens (buildChatCompletionPayload ms cfg en) \<noteq> None) = en_max_tokens en \<and>
   (req_frequency_penalty (buildChatCompletionPayload ms cfg en) \<noteq> None) = en_frequency_penalty en \<and>
   (req_presence_penalty (buildChatCompletionPayload ms cfg en) \<noteq> None) = en_presence_penalty en \<and>
   (req_seed (buildChatCompletionPayload ms cfg en) \<noteq> None) = (en_seed en \<and> cfg_seed cfg \<noteq> None)"
  by (auto simp: buildChatCompletionPayload_def Let_def formatMessageForAPI_def getMessageContent_def
      list_all_iff isValidMessage_def hasMessageContent_def getTextContent_def)

text \<open>
  A message that is still streaming, and a user message without text, are sent too.
\<close>

lemma streaming_and_blank_are_sent:
  "isValidMessage ((createLoadingAssistantMessage k v now)
     \<lparr>m_versions := [createMessageVersion v ''part''], m_status := Some STREAMING\<rparr>) \<and>
   isValidMessage (createUserMessage k v [] now)"
  by (simp add: isValidMessage_def hasMessageContent_def getMessageContent_def getCurrentVersion_def
      createMessageVersion_def trim_by_def is_space_def is_space_unit_def)

text \<open>
  The model and group fallbacks pick something that exists exactly when the current choice
  does not: with the fallback applied the current value is always one of the options.
\<close>

theorem fallback_valid:
  "(models = [] \<or> nullish (getModelFallback models cur) cur \<in> mo_value ` set models) \<and>
   (groups = [] \<or> nullish (getGroupFallback groups grp) grp \<in> go_value ` set groups) \<and>
   (getModelFallback models cur = None) = (models = [] \<or> cur \<in> mo_value ` set models) \<and>
   (getGroupFallback groups grp = None) = (groups = [] \<or> grp \<in> go_value ` set groups)"
proof -
  have d: "go_value g' \<in> go_value ` set gs" if "find P gs = Some g'" for P g' gs
    using that by (auto simp: find_Some_iff)
  have "groups = [] \<or> nullish (getGroupFallback groups grp) grp \<in> go_value ` set groups"
    by (auto simp: getGroupFallback_def list_ex_iff nullish_def split: list.splits option.splits
        dest: d)
  moreover have "models = [] \<or> nullish (getModelFallback models cur) cur \<in> mo_value ` set models"
    by (auto simp: getModelFallback_def list_ex_iff nullish_def split: list.splits option.splits)
  moreover have "(getModelFallback models cur = None) = (models = [] \<or> cur \<in> mo_value ` set models)"
    by (auto simp: getModelFallback_def list_ex_iff split: list.splits)
  moreover have "(getGroupFallback groups grp = None) = (groups = [] \<or> grp \<in> go_value ` set groups)"
    by (auto simp: getGroupFallback_def list_ex_iff split: list.splits)
  ultimately show ?thesis by blast
qed

end
