(* ===== verification/Json.thy ===== *)
theory Json
  imports Js_Prelude "HOL-Library.Multiset"
begin

text \<open>
  \<open>JSON.parse\<close> and \<open>JSON.stringify\<close> of the ECMAScript standard library, which the storage, the
  streaming protocol and every configuration parser rely on. \<open>JSON_parse\<close> returns \<open>None\<close> where
  \<open>JSON.parse\<close> throws a \<open>SyntaxError\<close>; the recursion is bounded by the length of the text,
  and \<open>p_fuel_enough\<close> shows that the bound never matters. \<open>JSON_stringify\<close> is the form without
  indentation. An object is its list of own properties in insertion order; a repeated key
  keeps its place and takes the last value. The locale \<open>json_codec\<close> is the contract the
  clients use: on printable values, parsing is the inverse of printing.
\<close>

datatype json =
    JNull
  | JBool bool
  | JNum number
  | JStr string
  | JArr "json list"
  | JObj "(string \<times> json) list"

section \<open>Objects\<close>

fun obj_set :: "'k \<Rightarrow> 'v \<Rightarrow> ('k \<times> 'v) list \<Rightarrow> ('k \<times> 'v) list" where
  "obj_set k v [] = [(k, v)]"
| "obj_set k v ((k', v') # kvs) =
     (if k = k' then (k, v) # kvs else (k', v') # obj_set k v kvs)"

text \<open>Spreading the properties \<open>kvs\<close> over an object.\<close>

definition obj_spread :: "('k \<times> 'v) list \<Rightarrow> ('k \<times> 'v) list \<Rightarrow> ('k \<times> 'v) list" where
  "obj_spread acc kvs = foldl (\<lambda>acc (k, v). obj_set k v acc) acc kvs"

definition obj_of :: "('k \<times> 'v) list \<Rightarrow> ('k \<times> 'v) list" where
  "obj_of kvs = obj_spread [] kvs"

text \<open>Property access: \<open>None\<close> is \<open>undefined\<close>.\<close>

definition get_prop :: "string \<Rightarrow> json \<Rightarrow> json option" where
  "get_prop k j = (case j of JObj kvs \<Rightarrow> map_of kvs k | _ \<Rightarrow> None)"

definition falsy :: "json \<Rightarrow> bool" where
  "falsy j \<longleftrightarrow> j = JNull \<or> j = JBool False \<or> j = JNum 0 \<or> j = JStr []"

text \<open>An \<open>undefined\<close> field is not written.\<close>

definition opt_field :: "string \<Rightarrow> ('a \<Rightarrow> json) \<Rightarrow> 'a option \<Rightarrow> (string \<times> json) list" where
  "opt_field k enc x = (case x of None \<Rightarrow> [] | Some y \<Rightarrow> [(k, enc y)])"

lemma obj_set_new: "k \<notin> fst ` set kvs \<Longrightarrow> obj_set k v kvs = kvs @ [(k, v)]"
  by (induction kvs) auto

lemma map_of_obj_set [simp]: "map_of (obj_set k v kvs) = (map_of kvs)(k \<mapsto> v)"
  by (induction kvs) (auto simp: fun_eq_iff)

lemma keys_obj_set [simp]: "fst ` set (obj_set k v kvs) = insert k (fst ` set kvs)"
  by (simp add: dom_map_of_conv_image_fst [symmetric])

lemma distinct_obj_set [simp]: "distinct (map fst (obj_set k v kvs)) = distinct (map fst kvs)"
proof (induction kvs)
  case (Cons kv kvs)
  have "fst kv \<in> fst ` set (obj_set k v kvs) \<longleftrightarrow> fst kv = k \<or> fst kv \<in> fst ` set kvs" by simp
  then show ?case using Cons by (cases kv) (auto simp del: keys_obj_set)
qed simp

lemma map_of_obj_spread: "map_of (obj_spread acc kvs) = map_of acc ++ map_of (rev kvs)"
  unfolding obj_spread_def by (induction kvs arbitrary: acc) (auto simp: map_add_assoc [symmetric])

lemma map_of_rev: "distinct (map fst kvs) \<Longrightarrow> map_of (rev kvs) = map_of kvs"
  by (rule ext) (metis distinct_rev map_of_eq_Some_iff not_None_eq rev_map set_rev)

lemma fold_obj_set_distinct:
  "distinct (map fst (acc @ kvs)) \<Longrightarrow> obj_spread acc kvs = acc @ kvs"
  unfolding obj_spread_def
proof (induction kvs arbitrary: acc)
  case (Cons kv kvs)
  obtain k v where kv: "kv = (k, v)" by (cases kv)
  have "k \<notin> fst ` set acc" using Cons.prems by (simp add: kv)
  then show ?case using Cons.prems Cons.IH [of "acc @ [kv]"] by (simp add: kv obj_set_new)
qed simp

lemma obj_of_distinct: "distinct (map fst kvs) \<Longrightarrow> obj_of kvs = kvs"
  using fold_obj_set_distinct [of "[]" kvs] by (simp add: obj_of_def)

section \<open>Digits\<close>

definition digit_char :: "nat \<Rightarrow> char" where
  "digit_char d = char_of (48 + d)"

definition is_digit :: "char \<Rightarrow> bool" where
  "is_digit c \<longleftrightarrow> 48 \<le> (of_char c :: nat) \<and> (of_char c :: nat) \<le> 57"

definition digit_val :: "char \<Rightarrow> nat" where
  "digit_val c = of_char c - 48"

fun nat_digits :: "nat \<Rightarrow> string" where
  "nat_digits n =
     (if n < 10 then [digit_char n] else nat_digits (n div 10) @ [digit_char (n mod 10)])"

declare nat_digits.simps [simp del]

fun pad_digits :: "nat \<Rightarrow> nat \<Rightarrow> string" where
  "pad_digits 0 n = []"
| "pad_digits (Suc k) n = pad_digits k (n div 10) @ [digit_char (n mod 10)]"

definition digits_val :: "string \<Rightarrow> nat" where
  "digits_val s = foldl (\<lambda>a c. a * 10 + digit_val c) 0 s"

lemma of_char_digit_char: "d < 10 \<Longrightarrow> (of_char (digit_char d) :: nat) = 48 + d"
  by (simp add: digit_char_def)

lemma digit_val_digit_char [simp]: "d < 10 \<Longrightarrow> digit_val (digit_char d) = d"
  by (simp add: digit_val_def of_char_digit_char)

lemma is_digit_digit_char [simp]: "d < 10 \<Longrightarrow> is_digit (digit_char d)"
  by (simp add: is_digit_def of_char_digit_char)

lemma digits_val_snoc [simp]: "digits_val (s @ [c]) = digits_val s * 10 + digit_val c"
  by (simp add: digits_val_def)

lemma digits_val_Nil [simp]: "digits_val [] = 0"
  by (simp add: digits_val_def)

lemma digits_val_single [simp]: "digits_val [c] = digit_val c"
  by (simp add: digits_val_def)

lemma digits_val_nat_digits [simp]: "digits_val (nat_digits n) = n"
proof (induction n rule: nat_digits.induct)
  case (1 n)
  then show ?case by (subst nat_digits.simps) auto
qed

lemma nat_digits_digits: "c \<in> set (nat_digits n) \<Longrightarrow> is_digit c"
proof (induction n rule: nat_digits.induct)
  case (1 n)
  then show ?case by (subst (asm) (2) nat_digits.simps) (auto split: if_splits)
qed

lemma nat_digits_not_Nil [simp]: "nat_digits n \<noteq> []"
  by (subst nat_digits.simps) simp

lemma hd_nat_digits: "0 < n \<Longrightarrow> hd (nat_digits n) \<noteq> digit_char 0"
proof (induction n rule: nat_digits.induct)
  case (1 n)
  show ?case
  proof (cases "n < 10")
    case True
    then have "(of_char (digit_char n) :: nat) \<noteq> of_char (digit_char 0)"
      using 1 by (simp add: of_char_digit_char)
    then show ?thesis using True by (subst nat_digits.simps) auto
  next
    case False
    then show ?thesis using 1 by (subst nat_digits.simps) simp
  qed
qed

lemma nat_digits_0: "nat_digits 0 = [digit_char 0]"
  by (subst nat_digits.simps) simp

lemma length_pad_digits [simp]: "length (pad_digits k n) = k"
  by (induction k arbitrary: n) auto

lemma pad_digits_digits: "c \<in> set (pad_digits k n) \<Longrightarrow> is_digit c"
  by (induction k arbitrary: n) auto

lemma digits_val_pad_digits: "n < 10 ^ k \<Longrightarrow> digits_val (pad_digits k n) = n"
proof (induction k arbitrary: n)
  case (Suc k)
  then have "n div 10 < 10 ^ k" by (simp add: less_mult_imp_div_less mult.commute)
  then show ?case using Suc.IH by simp
qed simp

subsection \<open>Property order\<close>

text \<open>
  \<open>Object.keys\<close> lists array indices first, in ascending order, then the other keys in insertion
  order.
\<close>

definition is_index_key :: "string \<Rightarrow> bool" where
  "is_index_key k \<longleftrightarrow> k \<noteq> [] \<and> list_all is_digit k \<and> (k = ''0'' \<or> hd k \<noteq> CHR ''0'') \<and>
     digits_val k < 4294967295"

definition Object_entries :: "(string \<times> 'v) list \<Rightarrow> (string \<times> 'v) list" where
  "Object_entries kvs =
     sort_key (\<lambda>(k, _). digits_val k) (filter (\<lambda>(k, _). is_index_key k) kvs) @
     filter (\<lambda>(k, _). \<not> is_index_key k) kvs"

lemma set_Object_entries [simp]: "set (Object_entries kvs) = set kvs"
  by (auto simp: Object_entries_def)

lemma mset_Object_entries: "mset (Object_entries kvs) = mset kvs"
proof -
  have "(\<lambda>(k, _). \<not> is_index_key k) = (\<lambda>kv. \<not> (case kv of (k, _) \<Rightarrow> is_index_key k))" by auto
  then show ?thesis
    unfolding Object_entries_def by (simp add: mset_filter multiset_partition [symmetric] del: case_prod_conv)
qed

lemma distinct_Object_entries [simp]: "distinct (map fst (Object_entries kvs)) = distinct (map fst kvs)"
  using mset_Object_entries [of kvs] by (metis mset_eq_imp_distinct_iff mset_map)

lemma map_of_Object_entries: "distinct (map fst kvs) \<Longrightarrow> map_of (Object_entries kvs) = map_of kvs"
  by (rule ext) (metis distinct_Object_entries map_of_eq_Some_iff not_None_eq set_Object_entries)

section \<open>Numbers\<close>

definition is_integer :: "number \<Rightarrow> bool" where
  "is_integer x \<longleftrightarrow> of_int \<lfloor>x\<rfloor> = x"

text \<open>The number of decimals of a decimal fraction (a binary64 value has at most 1074).\<close>

definition decimals :: "number \<Rightarrow> nat option" where
  "decimals x = find (\<lambda>k. is_integer (x * 10 ^ k)) [0..<1100]"

definition plain_range :: "number \<Rightarrow> bool" where
  "plain_range x \<longleftrightarrow> x = 0 \<or> 1 / 10 ^ 6 \<le> \<bar>x\<bar> \<and> \<bar>x\<bar> < 10 ^ 21"

definition strip_zeros :: "string \<Rightarrow> string" where
  "strip_zeros s = rev (dropWhile (\<lambda>c. c = CHR ''0'') (rev s))"

definition plain_digits :: "nat \<Rightarrow> nat \<Rightarrow> string" where
  "plain_digits m k =
     (if k = 0 then nat_digits m
      else nat_digits (m div 10 ^ k) @ ''.'' @ pad_digits k (m mod 10 ^ k))"

definition exponent_digits :: "nat \<Rightarrow> nat \<Rightarrow> string" where
  "exponent_digits m k =
     (let ds = nat_digits m; sig = strip_zeros ds; e = int (length ds) - int k - 1
      in (case sig of [] \<Rightarrow> [] | [d] \<Rightarrow> [d] | d # r \<Rightarrow> d # ''.'' @ r) @ ''e'' @
         (if e < 0 then ''-'' else ''+'') @ nat_digits (nat \<bar>e\<bar>))"

text \<open>\<open>Number::toString\<close>; a rational that is not a decimal fraction is no number value.\<close>

definition number_to_string :: "number \<Rightarrow> string" where
  "number_to_string x =
     (case decimals x of
        None \<Rightarrow> ''null''
      | Some k \<Rightarrow>
          (let m = nat \<lfloor>\<bar>x\<bar> * 10 ^ k\<rfloor>
           in (if x < 0 then ''-'' else []) @
              (if plain_range x then plain_digits m k else exponent_digits m k)))"

text \<open>\<open>String(value)\<close>\<close>

fun js_String :: "json \<Rightarrow> string" where
  "js_String JNull = ''null''"
| "js_String (JBool b) = (if b then ''true'' else ''false'')"
| "js_String (JNum x) = number_to_string x"
| "js_String (JStr s) = s"
| "js_String (JArr vs) = join '','' (map (\<lambda>v. if v = JNull then [] else js_String v) vs)"
| "js_String (JObj kvs) = ''[object Object]''"

definition printable_number :: "number \<Rightarrow> bool" where
  "printable_number x \<longleftrightarrow> decimals x \<noteq> None \<and> plain_range x"

definition is_e :: "char \<Rightarrow> bool" where
  "is_e c \<longleftrightarrow> c = CHR ''e'' \<or> c = CHR ''E''"

definition p_fraction :: "string \<Rightarrow> (number \<times> string) option" where
  "p_fraction s =
     (case s of
        [] \<Rightarrow> Some (0, s)
      | c # r \<Rightarrow>
          if c \<noteq> CHR ''.'' then Some (0, s)
          else (let fs = takeWhile is_digit r
                in if fs = [] then None
                   else Some (of_nat (digits_val fs) / 10 ^ length fs, dropWhile is_digit r)))"

definition p_exponent :: "string \<Rightarrow> (int \<times> string) option" where
  "p_exponent s =
     (case s of
        [] \<Rightarrow> Some (0, s)
      | c # r \<Rightarrow>
          if \<not> is_e c then Some (0, s)
          else (let (neg, r') = (case r of
                      [] \<Rightarrow> (False, r)
                    | d # q \<Rightarrow> if d = CHR ''-'' then (True, q)
                               else if d = CHR ''+'' then (False, q) else (False, r));
                    es = takeWhile is_digit r'
                in if es = [] then None
                   else Some ((if neg then - int (digits_val es) else int (digits_val es)),
                              dropWhile is_digit r')))"

definition scale10 :: "number \<Rightarrow> int \<Rightarrow> number" where
  "scale10 x e = (if 0 \<le> e then x * 10 ^ nat e else x / 10 ^ nat (- e))"

definition p_unsigned :: "string \<Rightarrow> (number \<times> string) option" where
  "p_unsigned s =
     (let ds = takeWhile is_digit s
      in if ds = [] \<or> hd ds = CHR ''0'' \<and> 1 < length ds then None
         else Option.bind (p_fraction (dropWhile is_digit s)) (\<lambda>(f, s').
              Option.bind (p_exponent s') (\<lambda>(e, s'').
              Some (scale10 (of_nat (digits_val ds) + f) e, s''))))"

definition p_number :: "string \<Rightarrow> (number \<times> string) option" where
  "p_number s =
     (case s of
        [] \<Rightarrow> None
      | c # r \<Rightarrow>
          if c = CHR ''-'' then map_option (\<lambda>(x, r'). (- x, r')) (p_unsigned r)
          else p_unsigned s)"

text \<open>What may follow a printed number without being read as part of it.\<close>

definition number_stop :: "string \<Rightarrow> bool" where
  "number_stop s = (case s of [] \<Rightarrow> True | c # _ \<Rightarrow> \<not> is_digit c \<and> c \<noteq> CHR ''.'' \<and> \<not> is_e c)"

lemma takeWhile_digits:
  "(\<And>c. c \<in> set ds \<Longrightarrow> is_digit c) \<Longrightarrow> (case r of [] \<Rightarrow> True | c # _ \<Rightarrow> \<not> is_digit c) \<Longrightarrow>
   takeWhile is_digit (ds @ r) = ds \<and> dropWhile is_digit (ds @ r) = r"
  by (induction ds) (auto split: list.splits)

lemma number_stop_takeWhile: "number_stop r \<Longrightarrow> (case r of [] \<Rightarrow> True | c # _ \<Rightarrow> \<not> is_digit c)"
  by (auto simp: number_stop_def split: list.splits)

lemma p_exponent_stop: "number_stop r \<Longrightarrow> p_exponent r = Some (0, r)"
  by (auto simp: p_exponent_def number_stop_def split: list.splits)

lemma p_fraction_stop: "number_stop r \<Longrightarrow> p_fraction r = Some (0, r)"
  by (auto simp: p_fraction_def number_stop_def split: list.splits)

lemma is_digit_dot [simp]: "\<not> is_digit CHR ''.''" "\<not> is_digit CHR ''-''"
  by (simp_all add: is_digit_def)

lemma digit_char_0 [simp]: "digit_char 0 = CHR ''0''"
proof -
  have "(of_char (digit_char 0) :: nat) = of_char CHR ''0''" by (simp add: of_char_digit_char)
  then show ?thesis by (simp only: of_char_eq_iff)
qed

lemma nat_digits_lead: "\<not> (hd (nat_digits n) = CHR ''0'' \<and> 1 < length (nat_digits n))"
proof (cases "n = 0")
  case True
  then show ?thesis by (simp add: nat_digits_0)
next
  case False
  then show ?thesis using hd_nat_digits [of n] by simp
qed

lemma p_unsigned_plain_digits:
  assumes "number_stop r"
  shows "p_unsigned (plain_digits m k @ r) = Some (of_nat m / 10 ^ k, r)"
proof (cases "k = 0")
  case True
  have "takeWhile is_digit (nat_digits m @ r) = nat_digits m \<and>
        dropWhile is_digit (nat_digits m @ r) = r"
    by (rule takeWhile_digits [OF nat_digits_digits number_stop_takeWhile [OF assms]])
  then show ?thesis
    using True assms nat_digits_lead [of m]
    by (simp add: p_unsigned_def plain_digits_def p_fraction_stop p_exponent_stop scale10_def Let_def)
next
  case False
  let ?i = "m div 10 ^ k" and ?f = "m mod 10 ^ k"
  have 1: "takeWhile is_digit (nat_digits ?i @ ''.'' @ pad_digits k ?f @ r) = nat_digits ?i \<and>
        dropWhile is_digit (nat_digits ?i @ ''.'' @ pad_digits k ?f @ r) = ''.'' @ pad_digits k ?f @ r"
    by (rule takeWhile_digits) (use nat_digits_digits in auto)
  have 2: "takeWhile is_digit (pad_digits k ?f @ r) = pad_digits k ?f \<and>
        dropWhile is_digit (pad_digits k ?f @ r) = r"
    by (rule takeWhile_digits [OF pad_digits_digits number_stop_takeWhile [OF assms]])
  have ne: "pad_digits k ?f \<noteq> []"
    using False by (metis length_0_conv length_pad_digits)
  have "m = ?i * 10 ^ k + ?f" by (rule div_mult_mod_eq [symmetric])
  then have "(of_nat m :: number) = of_nat ?i * 10 ^ k + of_nat ?f"
    by (metis of_nat_add of_nat_mult of_nat_numeral of_nat_power)
  then have "(of_nat ?i :: number) + of_nat ?f / 10 ^ k = of_nat m / 10 ^ k"
    by (simp add: field_simps)
  then show ?thesis
    using 1 2 ne False assms nat_digits_lead [of ?i]
    by (simp add: p_unsigned_def plain_digits_def p_fraction_def p_exponent_stop scale10_def Let_def
        digits_val_pad_digits)
qed

lemma decimals_Some: "decimals x = Some k \<Longrightarrow> is_integer (x * 10 ^ k)"
  by (auto simp: decimals_def find_Some_iff)

lemma abs_scaled_nat:
  assumes "is_integer (x * 10 ^ k)"
  shows "(of_nat (nat \<lfloor>\<bar>x\<bar> * 10 ^ k\<rfloor>) :: number) = \<bar>x\<bar> * 10 ^ k"
proof -
  from assms obtain i where i: "x * 10 ^ k = of_int i" unfolding is_integer_def by metis
  have "\<bar>x\<bar> * 10 ^ k = \<bar>x * 10 ^ k\<bar>" by (simp add: abs_mult)
  also have "\<dots> = of_int \<bar>i\<bar>" by (simp add: i)
  finally show ?thesis by simp
qed

lemma plain_digits_head: "plain_digits m k \<noteq> [] \<and> hd (plain_digits m k) \<noteq> CHR ''-''"
proof -
  have "is_digit (hd (nat_digits n))" for n
    using nat_digits_digits [of "hd (nat_digits n)" n] by simp
  then have "hd (nat_digits n) \<noteq> CHR ''-''" for n using is_digit_dot(2) by metis
  then show ?thesis by (simp add: plain_digits_def hd_append)
qed

lemma p_number_to_string:
  assumes "printable_number x" "number_stop r"
  shows "p_number (number_to_string x @ r) = Some (x, r)"
proof -
  from assms(1) obtain k where k: "decimals x = Some k" "plain_range x"
    by (auto simp: printable_number_def)
  let ?m = "nat \<lfloor>\<bar>x\<bar> * 10 ^ k\<rfloor>"
  have m: "(of_nat ?m :: number) / 10 ^ k = \<bar>x\<bar>"
    by (simp only: abs_scaled_nat [OF decimals_Some [OF k(1)]]) simp
  have p: "p_unsigned (plain_digits ?m k @ r) = Some (\<bar>x\<bar>, r)"
    using p_unsigned_plain_digits [OF assms(2), of ?m k] by (simp only: m)
  show ?thesis
  proof (cases "x < 0")
    case True
    then show ?thesis using k p by (simp add: number_to_string_def p_number_def Let_def)
  next
    case False
    moreover obtain c cs where "plain_digits ?m k = c # cs" "c \<noteq> CHR ''-''"
      using plain_digits_head [of ?m k] by (metis list.collapse)
    ultimately show ?thesis using k p by (simp add: number_to_string_def p_number_def Let_def)
  qed
qed


section \<open>Strings\<close>

definition hex_char :: "nat \<Rightarrow> char" where
  "hex_char d = (if d < 10 then char_of (48 + d) else char_of (87 + d))"

definition hex_val :: "char \<Rightarrow> nat option" where
  "hex_val c =
     (let n = of_char c
      in if 48 \<le> n \<and> n \<le> 57 then Some (n - 48)
         else if 97 \<le> n \<and> n \<le> 102 then Some (n - 87)
         else if 65 \<le> n \<and> n \<le> 70 then Some (n - 55) else None)"

text \<open>A \<open>\u\<close> escape beyond Latin-1 has no character in the model and is rejected.\<close>

definition hex4 :: "char \<Rightarrow> char \<Rightarrow> char \<Rightarrow> char \<Rightarrow> char option" where
  "hex4 a b c d =
     Option.bind (hex_val a) (\<lambda>a. Option.bind (hex_val b) (\<lambda>b.
     Option.bind (hex_val c) (\<lambda>c. Option.bind (hex_val d) (\<lambda>d.
       if a = 0 \<and> b = 0 then Some (char_of (16 * c + d)) else None))))"

abbreviation quote_c :: char where "quote_c \<equiv> CHR 0x22"
abbreviation backslash_c :: char where "backslash_c \<equiv> CHR 0x5C"

definition escapes :: "(char \<times> char) list" where
  "escapes =
     [(quote_c, quote_c), (backslash_c, backslash_c), (CHR 0x08, CHR ''b''),
      (CHR 0x0C, CHR ''f''), (CHR 0x0A, CHR ''n''), (CHR 0x0D, CHR ''r''), (CHR 0x09, CHR ''t'')]"

definition escape_char :: "char \<Rightarrow> string" where
  "escape_char c =
     (case map_of escapes c of
        Some e \<Rightarrow> [backslash_c, e]
      | None \<Rightarrow>
          if (of_char c :: nat) < 32
          then [backslash_c, CHR ''u'', CHR ''0'', CHR ''0'',
                hex_char (of_char c div 16), hex_char (of_char c mod 16)]
          else [c])"

definition unescape_char :: "char \<Rightarrow> char option" where
  "unescape_char e =
     (if e = CHR ''/'' then Some e else map_of (map (\<lambda>(a, b). (b, a)) escapes) e)"

definition quote_string :: "string \<Rightarrow> string" where
  "quote_string s = quote_c # concat (map escape_char s) @ [quote_c]"

text \<open>The characters of a string literal, after its opening quote.\<close>

fun p_chars :: "string \<Rightarrow> (string \<times> string) option" where
  "p_chars [] = None"
| "p_chars (c # r) =
     (if c = quote_c then Some ([], r)
      else if c = backslash_c then
        (case r of
           [] \<Rightarrow> None
         | e # r' \<Rightarrow>
             if e = CHR ''u'' then
               (case r' of
                  h1 # h2 # h3 # h4 # r'' \<Rightarrow>
                    (case hex4 h1 h2 h3 h4 of
                       None \<Rightarrow> None
                     | Some x \<Rightarrow> map_option (\<lambda>(s, q). (x # s, q)) (p_chars r''))
                | _ \<Rightarrow> None)
             else (case unescape_char e of
                     None \<Rightarrow> None
                   | Some x \<Rightarrow> map_option (\<lambda>(s, q). (x # s, q)) (p_chars r')))
      else if (of_char c :: nat) < 32 then None
      else map_option (\<lambda>(s, q). (c # s, q)) (p_chars r))"

lemma hex_val_hex_char: "d < 16 \<Longrightarrow> hex_val (hex_char d) = Some d"
  by (auto simp: hex_val_def hex_char_def Let_def)

lemma hex4_control:
  assumes "(of_char c :: nat) < 32"
  shows "hex4 CHR ''0'' CHR ''0'' (hex_char (of_char c div 16)) (hex_char (of_char c mod 16)) = Some c"
proof -
  have z: "hex_val CHR ''0'' = Some 0" by (simp add: hex_val_def)
  have "(of_char c :: nat) div 16 < 16" "(of_char c :: nat) mod 16 < 16" using assms by simp_all
  then show ?thesis by (simp add: hex4_def z hex_val_hex_char)
qed

lemma escapes_plain: "map_of escapes c = None \<Longrightarrow> c \<noteq> quote_c \<and> c \<noteq> backslash_c"
  by (auto simp: escapes_def)

lemma escapes_roundtrip:
  "map_of escapes c = Some e \<Longrightarrow> unescape_char e = Some c \<and> e \<noteq> CHR ''u''"
  by (auto simp: escapes_def unescape_char_def split: if_splits)

lemma p_chars_escape:
  "p_chars (escape_char c @ r) = map_option (\<lambda>(s, q). (c # s, q)) (p_chars r)"
proof (cases "map_of escapes c")
  case (Some e)
  then show ?thesis using escapes_roundtrip [OF Some] by (simp add: escape_char_def)
next
  case None
  then show ?thesis
    using escapes_plain [OF None] hex4_control [of c] by (simp add: escape_char_def)
qed

lemma p_chars_quote: "p_chars (concat (map escape_char s) @ quote_c # r) = Some (s, r)"
  by (induction s) (simp_all add: p_chars_escape)

lemma p_chars_shorter: "p_chars s = Some (x, r) \<Longrightarrow> length r < length s"
  by (induction s arbitrary: x r rule: p_chars.induct)
     (fastforce split: if_splits list.splits option.splits)+


section \<open>Values\<close>

definition skip_ws :: "string \<Rightarrow> string" where
  "skip_ws s = dropWhile (\<lambda>c. c = CHR 0x20 \<or> c = CHR 0x09 \<or> c = CHR 0x0A \<or> c = CHR 0x0D) s"

text \<open>Reading a fixed token.\<close>

definition p_token :: "string \<Rightarrow> 'a \<Rightarrow> string \<Rightarrow> ('a \<times> string) option" where
  "p_token tok v s = (if prefix tok s then Some (v, drop (length tok) s) else None)"

fun p_value :: "nat \<Rightarrow> string \<Rightarrow> (json \<times> string) option"
  and p_elems :: "nat \<Rightarrow> string \<Rightarrow> (json list \<times> string) option"
  and p_member :: "nat \<Rightarrow> string \<Rightarrow> ((string \<times> json) \<times> string) option"
  and p_members :: "nat \<Rightarrow> string \<Rightarrow> ((string \<times> json) list \<times> string) option" where
  "p_value 0 s = None"
| "p_value (Suc n) s =
     (case skip_ws s of
        [] \<Rightarrow> None
      | c # r \<Rightarrow>
          if c = CHR ''n'' then p_token ''null'' JNull (c # r)
          else if c = CHR ''t'' then p_token ''true'' (JBool True) (c # r)
          else if c = CHR ''f'' then p_token ''false'' (JBool False) (c # r)
          else if c = quote_c then map_option (\<lambda>(x, q). (JStr x, q)) (p_chars r)
          else if c = CHR ''['' then
            (case p_token '']'' (JArr []) (skip_ws r) of
               Some res \<Rightarrow> Some res
             | None \<Rightarrow>
                 (case p_value n r of
                    None \<Rightarrow> None
                  | Some (v, q) \<Rightarrow> map_option (\<lambda>(vs, q'). (JArr (v # vs), q')) (p_elems n q)))
          else if c = CHR ''{'' then
            (case p_token ''}'' (JObj []) (skip_ws r) of
               Some res \<Rightarrow> Some res
             | None \<Rightarrow>
                 (case p_member n r of
                    None \<Rightarrow> None
                  | Some (m, q) \<Rightarrow>
                      map_option (\<lambda>(ms, q'). (JObj (obj_of (m # ms)), q')) (p_members n q)))
          else map_option (\<lambda>(x, q). (JNum x, q)) (p_number (c # r)))"
| "p_elems 0 s = None"
| "p_elems (Suc n) s =
     (case skip_ws s of
        [] \<Rightarrow> None
      | c # r \<Rightarrow>
          if c = CHR '']'' then Some ([], r)
          else if c = CHR '','' then
            (case p_value n r of
               None \<Rightarrow> None
             | Some (v, q) \<Rightarrow> map_option (\<lambda>(vs, q'). (v # vs, q')) (p_elems n q))
          else None)"
| "p_member 0 s = None"
| "p_member (Suc n) s =
     (case skip_ws s of
        [] \<Rightarrow> None
      | c # r \<Rightarrow>
          if c = quote_c then
            (case p_chars r of
               None \<Rightarrow> None
             | Some (k, q) \<Rightarrow>
                 (case p_token '':'' () (skip_ws q) of
                    None \<Rightarrow> None
                  | Some (u, q') \<Rightarrow> map_option (\<lambda>(v, q''). ((k, v), q'')) (p_value n q')))
          else None)"
| "p_members 0 s = None"
| "p_members (Suc n) s =
     (case skip_ws s of
        [] \<Rightarrow> None
      | c # r \<Rightarrow>
          if c = CHR ''}'' then Some ([], r)
          else if c = CHR '','' then
            (case p_member n r of
               None \<Rightarrow> None
             | Some (m, q) \<Rightarrow> map_option (\<lambda>(ms, q'). (m # ms, q')) (p_members n q))
          else None)"

definition JSON_parse :: "string \<Rightarrow> json option" where
  "JSON_parse s =
     (case p_value (Suc (length s)) s of
        None \<Rightarrow> None
      | Some (v, r) \<Rightarrow> if skip_ws r = [] then Some v else None)"

fun s_value :: "json \<Rightarrow> string"
  and s_elems :: "json list \<Rightarrow> string"
  and s_members :: "(string \<times> json) list \<Rightarrow> string" where
  "s_value JNull = ''null''"
| "s_value (JBool b) = (if b then ''true'' else ''false'')"
| "s_value (JNum x) = number_to_string x"
| "s_value (JStr s) = quote_string s"
| "s_value (JArr []) = ''[]''"
| "s_value (JArr (v # vs)) = ''['' @ s_value v @ s_elems vs"
| "s_value (JObj []) = ''{}''"
| "s_value (JObj ((k, v) # ms)) = ''{'' @ quote_string k @ '':'' @ s_value v @ s_members ms"
| "s_elems [] = '']''"
| "s_elems (v # vs) = '','' @ s_value v @ s_elems vs"
| "s_members [] = ''}''"
| "s_members ((k, v) # ms) = '','' @ quote_string k @ '':'' @ s_value v @ s_members ms"

definition JSON_stringify :: "json \<Rightarrow> string" where
  "JSON_stringify j = s_value j"

text \<open>Values the printer writes in plain notation: the numbers are, and keys are distinct.\<close>

fun printable :: "json \<Rightarrow> bool" where
  "printable (JNum x) = printable_number x"
| "printable (JArr vs) = list_all printable vs"
| "printable (JObj ms) = (distinct (map fst ms) \<and> list_all (\<lambda>m. printable (snd m)) ms)"
| "printable j = True"

subsection \<open>Round trip\<close>

text \<open>What can follow a value in a text: a closing bracket, a comma, or the end.\<close>

definition value_stop :: "string \<Rightarrow> bool" where
  "value_stop s = (case s of [] \<Rightarrow> True | c # _ \<Rightarrow> c \<in> {CHR '','', CHR '']'', CHR ''}''})"

lemma value_stop_number: "value_stop s \<Longrightarrow> number_stop s"
  by (auto simp: value_stop_def number_stop_def is_digit_def is_e_def split: list.splits)

lemma value_stop_s_elems [simp]: "value_stop (s_elems vs @ r)"
  by (cases vs) (auto simp: value_stop_def)

lemma value_stop_s_members [simp]: "value_stop (s_members ms @ r)"
  by (cases ms) (auto simp: value_stop_def)

lemma skip_ws_id:
  "c \<notin> {CHR 0x20, CHR 0x09, CHR 0x0A, CHR 0x0D} \<Longrightarrow> skip_ws (c # s) = c # s"
  by (auto simp: skip_ws_def)

text \<open>A printed number starts with a minus sign or a digit.\<close>

lemma number_to_string_head:
  assumes "printable_number x"
  obtains c cs where "number_to_string x = c # cs" "c = CHR ''-'' \<or> is_digit c"
proof -
  from assms obtain k where k: "decimals x = Some k" "plain_range x"
    by (auto simp: printable_number_def)
  have "is_digit (hd (nat_digits n))" for n using nat_digits_digits [of "hd (nat_digits n)" n] by simp
  then have "is_digit (hd (plain_digits m k))" for m by (simp add: plain_digits_def)
  moreover have "plain_digits m k \<noteq> []" for m using plain_digits_head by simp
  ultimately show thesis
    using that k by (cases "x < 0") (auto simp: number_to_string_def Let_def, metis list.collapse)
qed

lemma p_value_number:
  assumes "printable_number x" "number_stop r"
  shows "p_value (Suc n) (number_to_string x @ r) = Some (JNum x, r)"
proof -
  obtain c cs where c: "number_to_string x = c # cs" "c = CHR ''-'' \<or> is_digit c"
    using number_to_string_head [OF assms(1)] .
  then have ne: "c \<notin> {CHR 0x20, CHR 0x09, CHR 0x0A, CHR 0x0D, CHR ''n'', CHR ''t'', CHR ''f'',
      quote_c, CHR ''['', CHR ''{''}"
    by (auto simp: is_digit_def)
  then show ?thesis
    using p_number_to_string [OF assms] by (simp add: c(1) skip_ws_id)
qed

lemma s_value_not_Nil: "printable j \<Longrightarrow> s_value j \<noteq> []"
  by (cases j rule: s_value.cases) (auto simp: quote_string_def elim: number_to_string_head)

lemma s_value_head:
  assumes "printable j"
  shows "p_token '']'' x (skip_ws (s_value j @ r)) = None"
proof (cases j)
  case (JNum y)
  obtain c cs where c: "number_to_string y = c # cs" "c = CHR ''-'' \<or> is_digit c"
    using number_to_string_head assms JNum by auto
  then have "c \<notin> {CHR 0x20, CHR 0x09, CHR 0x0A, CHR 0x0D, CHR '']''}" by (auto simp: is_digit_def)
  then show ?thesis using c JNum by (auto simp: skip_ws_id p_token_def)
next
  case (JArr vs)
  then show ?thesis by (cases vs) (simp_all add: p_token_def skip_ws_id)
next
  case (JObj ms)
  then show ?thesis
    by (cases ms rule: s_members.cases) (simp_all add: p_token_def skip_ws_id)
qed (simp_all add: p_token_def skip_ws_id quote_string_def)

lemma length_s_elems: "1 \<le> length (s_elems vs)"
  by (cases vs) auto

lemma length_s_members: "1 \<le> length (s_members ms)"
  by (cases ms) auto

lemma p_member_print:
  assumes "p_value n (s_value v @ r) = Some (v, r)"
  shows "p_member (Suc n) (quote_string k @ '':'' @ s_value v @ r) = Some ((k, v), r)"
  using assms by (simp add: quote_string_def skip_ws_id p_chars_quote p_token_def)

lemma print_parse:
  "printable j \<Longrightarrow> value_stop r \<Longrightarrow> length (s_value j) \<le> n \<Longrightarrow>
     p_value n (s_value j @ r) = Some (j, r)"
  "list_all printable vs \<Longrightarrow> length (s_elems vs) \<le> n \<Longrightarrow>
     p_elems n (s_elems vs @ r) = Some (vs, r)"
  "list_all (\<lambda>m. printable (snd m)) ms \<Longrightarrow> length (s_members ms) \<le> n \<Longrightarrow>
     p_members n (s_members ms @ r) = Some (ms, r)"
proof (induction j and vs and ms arbitrary: n r and n r and n r
    rule: s_value_s_elems_s_members.induct)
  case 1
  then obtain n' where "n = Suc n'" by (cases n) auto
  then show ?case by (simp add: skip_ws_id p_token_def)
next
  case (2 b)
  then obtain n' where "n = Suc n'" by (cases n) (auto split: if_splits)
  then show ?case by (simp add: skip_ws_id p_token_def)
next
  case (3 x)
  then have "n \<noteq> 0" using s_value_not_Nil [of "JNum x"] by (cases n) auto
  then obtain n' where "n = Suc n'" by (cases n) auto
  then show ?case using 3 p_value_number value_stop_number by (simp del: p_value.simps)
next
  case (4 s)
  then obtain n' where "n = Suc n'" by (cases n) (auto simp: quote_string_def)
  then show ?case by (simp add: quote_string_def skip_ws_id p_chars_quote)
next
  case 5
  then obtain n' where "n = Suc n'" by (cases n) auto
  then show ?case by (simp add: skip_ws_id p_token_def)
next
  case (6 v vs)
  then obtain n' where n: "n = Suc n'" by (cases n) auto
  have v: "p_value n' (s_value v @ s_elems vs @ r) = Some (v, s_elems vs @ r)"
    using 6 n by simp
  have vs: "p_elems n' (s_elems vs @ r) = Some (vs, r)" using 6 n by simp
  have h: "p_token '']'' (JArr []) (skip_ws (s_value v @ s_elems vs @ r)) = None"
    using 6 by (intro s_value_head) simp
  show ?case using v vs h by (simp add: n skip_ws_id)
next
  case 7
  then obtain n' where "n = Suc n'" by (cases n) auto
  then show ?case by (simp add: skip_ws_id p_token_def)
next
  case (8 k v ms)
  obtain n' where n: "n = Suc (Suc n')"
    using 8 by (cases n; cases "n - 1") (auto simp: quote_string_def)
  have v: "p_value n' (s_value v @ s_members ms @ r) = Some (v, s_members ms @ r)"
    using 8 n by (simp add: quote_string_def)
  have ms: "p_members (Suc n') (s_members ms @ r) = Some (ms, r)"
    using 8 n by (simp add: quote_string_def del: p_members.simps)
  have h: "p_token ''}'' (JObj []) (skip_ws (quote_string k @ '':'' @ s_value v @ s_members ms @ r)) = None"
    by (simp add: p_token_def skip_ws_id quote_string_def)
  have o: "obj_of ((k, v) # ms) = (k, v) # ms" using 8 by (intro obj_of_distinct) simp
  show ?case using p_member_print [OF v, of k] ms h o by (simp add: n skip_ws_id del: p_member.simps p_members.simps)
next
  case 9
  then obtain n' where "n = Suc n'" by (cases n) auto
  then show ?case by (simp add: skip_ws_id)
next
  case (10 v vs)
  then obtain n' where n: "n = Suc n'" by (cases n) auto
  have v: "p_value n' (s_value v @ s_elems vs @ r) = Some (v, s_elems vs @ r)"
    using 10 n by simp
  have vs: "p_elems n' (s_elems vs @ r) = Some (vs, r)" using 10 n by simp
  show ?case using v vs by (simp add: n skip_ws_id)
next
  case 11
  then obtain n' where "n = Suc n'" by (cases n) auto
  then show ?case by (simp add: skip_ws_id)
next
  case (12 k v ms)
  obtain n' where n: "n = Suc (Suc n')"
    using 12 by (cases n; cases "n - 1") (auto simp: quote_string_def)
  have v: "p_value n' (s_value v @ s_members ms @ r) = Some (v, s_members ms @ r)"
    using 12 n by (simp add: quote_string_def)
  have ms: "p_members (Suc n') (s_members ms @ r) = Some (ms, r)"
    using 12 n by (simp add: quote_string_def del: p_members.simps)
  show ?case using p_member_print [OF v, of k] ms
    by (simp add: n skip_ws_id p_members.simps(2) [of "Suc n'"] del: p_member.simps p_members.simps)
qed


subsection \<open>The bound on the recursion\<close>

text \<open>Every successful parse consumes input, so a text longer than it needs no more fuel.\<close>

lemma skip_ws_length: "length (skip_ws s) \<le> length s"
  by (simp add: skip_ws_def length_dropWhile_le)

lemma p_token_length: "p_token tok v s = Some (x, r) \<Longrightarrow> length r \<le> length s"
  by (auto simp: p_token_def split: if_splits)

lemma p_fraction_length: "p_fraction s = Some (x, r) \<Longrightarrow> length r \<le> length s"
  using length_dropWhile_le [of is_digit]
  by (auto simp: p_fraction_def Let_def le_SucI split: list.splits if_splits)

lemma p_exponent_length: "p_exponent s = Some (x, r) \<Longrightarrow> length r \<le> length s"
  using length_dropWhile_le [of is_digit]
  by (auto simp: p_exponent_def Let_def le_SucI split: list.splits if_splits prod.splits)

lemma p_unsigned_length:
  assumes "p_unsigned s = Some (x, r)"
  shows "length r < length s"
proof -
  from assms obtain f s' e where fe: "takeWhile is_digit s \<noteq> []"
    "p_fraction (dropWhile is_digit s) = Some (f, s')" "p_exponent s' = Some (e, r)"
    by (auto simp: p_unsigned_def Let_def bind_eq_Some_conv split: if_splits)
  have "length (takeWhile is_digit s) + length (dropWhile is_digit s) = length s"
    by (metis length_append takeWhile_dropWhile_id)
  moreover have "0 < length (takeWhile is_digit s)" using fe(1) by blast
  ultimately have "length (dropWhile is_digit s) < length s" by linarith
  then show ?thesis using p_fraction_length [OF fe(2)] p_exponent_length [OF fe(3)] by simp
qed

lemma p_number_length: "p_number s = Some (x, r) \<Longrightarrow> length r < length s"
  by (auto simp: p_number_def split: list.splits if_splits dest!: p_unsigned_length)


lemma p_token_shorter: "p_token tok v s = Some (x, r) \<Longrightarrow> tok \<noteq> [] \<Longrightarrow> length r < length s"
  using prefix_length_le [of tok s]
  by (cases tok) (auto simp: p_token_def split: if_splits)

lemma skip_ws_Cons: "skip_ws s = c # r \<Longrightarrow> length r < length s"
  using skip_ws_length [of s] by simp

lemma p_value_cases:
  assumes "p_value (Suc n) s = Some (v, r)"
  obtains (tok) "length r < length s"
  | (arr) c q w q' vs where "skip_ws s = c # q" "p_value n q = Some (w, q')" "p_elems n q' = Some (vs, r)"
  | (obj) c q m q' ms where "skip_ws s = c # q" "p_member n q = Some (m, q')" "p_members n q' = Some (ms, r)"
proof -
  from assms obtain c q where q: "skip_ws s = c # q" by (auto split: list.splits)
  have tok1: "length r' < length s" if "p_token t x (c # q) = Some (y, r')" "t \<noteq> []"
    for t and x y :: json and r'
    using p_token_shorter [OF that] skip_ws_length [of s] q by simp
  have tok2: "length r' < length s" if "p_token t x (skip_ws q) = Some (y, r')"
    for t and x y :: json and r'
    using p_token_length [OF that] skip_ws_length [of q] skip_ws_Cons [OF q] by simp
  have str: "length r' < length s" if "p_chars q = Some (x, r')" for x r'
    using p_chars_shorter [OF that] skip_ws_Cons [OF q] by simp
  have num: "length r' < length s" if "p_number (c # q) = Some (x, r')" for x r'
    using p_number_length [OF that] skip_ws_length [of s] q by simp
  show thesis
  proof (cases "c = CHR ''['' \<or> c = CHR ''{''")
    case False
    then show thesis
      using assms q tok1 str num by (intro tok) (auto split: if_splits)
  next
    case True
    then show thesis
      using assms q tok2 arr [OF q] obj [OF q] by (auto split: option.splits intro: tok)
  qed
qed

lemma p_shorter:
  "p_value n s = Some (v, r) \<Longrightarrow> length r < length s"
  "p_elems n s = Some (vs, r) \<Longrightarrow> length r < length s"
  "p_member n s = Some (m, r) \<Longrightarrow> length r < length s"
  "p_members n s = Some (ms, r) \<Longrightarrow> length r < length s"
proof (induction n arbitrary: s v r vs m ms)
  case (Suc n)
  { case 1
    then show ?case
    proof (cases rule: p_value_cases)
      case (arr c q w q' vs)
      then show ?thesis using Suc.IH(1) [OF arr(2)] Suc.IH(2) [OF arr(3)] skip_ws_Cons [OF arr(1)] by simp
    next
      case (obj c q m q' ms)
      then show ?thesis using Suc.IH(3) [OF obj(2)] Suc.IH(4) [OF obj(3)] skip_ws_Cons [OF obj(1)] by simp
    qed
  next
    case 2
    then obtain c q where q: "skip_ws s = c # q" by (auto split: list.splits)
    show ?case
      using 2 q skip_ws_Cons [OF q] by (fastforce split: if_splits option.splits dest: Suc.IH(1,2))
  next
    case 3
    then obtain c q k q1 u q2 v' where q: "skip_ws s = c # q" "p_chars q = Some (k, q1)"
      "p_token '':'' () (skip_ws q1) = Some (u, q2)" "p_value n q2 = Some (v', r)"
      by (auto split: list.splits if_splits option.splits)
    then show ?case
      using skip_ws_Cons [OF q(1)] p_chars_shorter [OF q(2)] p_token_length [OF q(3)]
        skip_ws_length [of q1] Suc.IH(1) [OF q(4)] by simp
  next
    case 4
    then obtain c q where q: "skip_ws s = c # q" by (auto split: list.splits)
    show ?case
      using 4 q skip_ws_Cons [OF q] by (fastforce split: if_splits option.splits dest: Suc.IH(3,4))
  }
qed simp_all

lemma p_fuel_step:
  "length s < n \<Longrightarrow> p_value (Suc n) s = p_value n s"
  "length s < n \<Longrightarrow> p_elems (Suc n) s = p_elems n s"
  "length s < n \<Longrightarrow> p_member (Suc n) s = p_member n s"
  "length s < n \<Longrightarrow> p_members (Suc n) s = p_members n s"
proof (induction n arbitrary: s)
  case (Suc n)
  have short: "length q < n" if "skip_ws s = c # q" "length s < Suc n" for s c q
    using skip_ws_Cons [OF that(1)] that(2) by simp
  have val: "p_value (Suc n) q = p_value n q" "p_member (Suc n) q = p_member n q"
    if "skip_ws s = c # q" "length s < Suc n" for s c q
    using Suc.IH(1,3) short [OF that] by auto
  have els: "p_elems (Suc n) q' = p_elems n q'"
    if "skip_ws s = c # q" "length s < Suc n" "p_value n q = Some (v, q')" for s c q v q'
    using Suc.IH(2) [of q'] short [OF that(1,2)] p_shorter(1) [OF that(3)] by simp
  have mems: "p_members (Suc n) q' = p_members n q'"
    if "skip_ws s = c # q" "length s < Suc n" "p_member n q = Some (v, q')" for s c q v q'
    using Suc.IH(4) [of q'] short [OF that(1,2)] p_shorter(3) [OF that(3)] by simp
  { case 1
    show ?case
      unfolding p_value.simps(2) [of "Suc n" s] p_value.simps(2) [of n s]
      using 1 val els mems by (auto split: list.split option.split)
  next
    case 2
    show ?case
      unfolding p_elems.simps(2) [of "Suc n" s] p_elems.simps(2) [of n s]
      using 2 val els by (auto split: list.split option.split)
  next
    case 3
    have v: "p_value (Suc n) q2 = p_value n q2"
      if "skip_ws s = c # q" "p_chars q = Some (k, q1)"
        "p_token '':'' () (skip_ws q1) = Some (u, q2)" for c q k q1 u q2
      using Suc.IH(1) [of q2] short [OF that(1) 3] p_chars_shorter [OF that(2)]
        p_token_length [OF that(3)] skip_ws_length [of q1] by simp
    show ?case
      unfolding p_member.simps(2) [of "Suc n" s] p_member.simps(2) [of n s]
      using 3 v by (auto split: list.split option.split)
  next
    case 4
    show ?case
      unfolding p_members.simps(2) [of "Suc n" s] p_members.simps(2) [of n s]
      using 4 val mems by (auto split: list.split option.split)
  }
qed simp_all

lemma p_fuel_enough: "length s < n \<Longrightarrow> p_value n s = p_value (Suc (length s)) s"
proof (induction n)
  case (Suc n)
  then show ?case
    using p_fuel_step(1) [of s n] by (cases "length s = n") (simp_all del: p_value.simps)
qed simp

section \<open>The contract\<close>

locale json_codec =
  fixes parse :: "string \<Rightarrow> json option"
    and stringify :: "json \<Rightarrow> string"
    and printable :: "json \<Rightarrow> bool"
  assumes parse_stringify: "printable j \<Longrightarrow> parse (stringify j) = Some j"
begin

lemma stringify_inj: "printable j \<Longrightarrow> printable j' \<Longrightarrow> stringify j = stringify j' \<Longrightarrow> j = j'"
  by (metis option.inject parse_stringify)

end

lemma JSON_parse_stringify: "printable j \<Longrightarrow> JSON_parse (JSON_stringify j) = Some j"
  using print_parse(1) [of j "[]" "Suc (length (s_value j))"]
  by (simp add: JSON_parse_def JSON_stringify_def value_stop_def skip_ws_def)

interpretation js_json: json_codec JSON_parse JSON_stringify printable
  by unfold_locales (rule JSON_parse_stringify)

end
