(* ===== verification/Storage.thy ===== *)
theory Storage
  imports Conversation Json "HOL-Library.Monad_Syntax"
begin

text \<open>
  Persistence of the playground (\<open>lib/storage/storage.ts\<close>, \<open>lib/storage/storage-schema.ts\<close>,
  \<open>lib/state/playground-state-utils.ts\<close>).

  \<open>localStorage\<close> is a map from keys to texts; \<open>fits\<close> is the browser's quota, and a write that
  does not fit throws. The \<open>parse\<close> method of a zod schema is an argument of the operations
  (\<open>None\<close>: it throws), with the laws the code relies on in the locale \<open>message_schema\<close>;
  the schemas of \<open>storage-schema.ts\<close> interpret it. Objects are compared by reference in
  \<open>loadMessages\<close>; the predicates \<open>..._fresh\<close> say when an operation returns a new object.
\<close>

section \<open>Browser storage\<close>

type_synonym store = "string \<rightharpoonup> string"

definition getItem :: "store \<Rightarrow> string \<Rightarrow> string option" where
  "getItem st k = st k"

definition setItem :: "(store \<Rightarrow> bool) \<Rightarrow> store \<Rightarrow> string \<Rightarrow> string \<Rightarrow> js_error + store" where
  "setItem fits st k v = (if fits (st(k \<mapsto> v)) then Inr (st(k \<mapsto> v)) else Inl QuotaExceededError)"

definition removeItem :: "store \<Rightarrow> string \<Rightarrow> store" where
  "removeItem st k = st(k := None)"

section \<open>Constants\<close>

definition STORAGE_VERSION :: number where "STORAGE_VERSION = 1"
definition MAX_STORED_MESSAGES :: nat where "MAX_STORED_MESSAGES = 100"
definition MAX_STORED_MESSAGES_BYTES :: nat where "MAX_STORED_MESSAGES_BYTES = 1024 * 1024"
definition MAX_LOADED_MESSAGES_CHARS :: nat where "MAX_LOADED_MESSAGES_CHARS = 120000"
definition MAX_LOADED_MESSAGE_CHARS :: nat where "MAX_LOADED_MESSAGE_CHARS = 40000"
definition MIN_PREFIX_COLLAPSE_LENGTH :: nat where "MIN_PREFIX_COLLAPSE_LENGTH = 2000"
definition MIN_REPEATED_SECTION_COUNT :: nat where "MIN_REPEATED_SECTION_COUNT = 3"

definition TRUNCATED_CONTENT_SUFFIX :: string where
  "TRUNCATED_CONTENT_SUFFIX = ''\<newline>\<newline>[...]''"

definition KEY_CONFIG :: string where "KEY_CONFIG = ''playground_config''"
definition KEY_MESSAGES :: string where "KEY_MESSAGES = ''playground_messages''"
definition KEY_PARAMETER_ENABLED :: string where
  "KEY_PARAMETER_ENABLED = ''playground_parameter_enabled''"

section \<open>Messages as JSON objects\<close>

definition enc_role :: "MessageRole \<Rightarrow> json" where
  "enc_role r = JStr (case r of USER \<Rightarrow> ''user'' | ASSISTANT \<Rightarrow> ''assistant'' | SYSTEM \<Rightarrow> ''system'')"

definition enc_status :: "MessageStatus \<Rightarrow> json" where
  "enc_status s = JStr (case s of LOADING \<Rightarrow> ''loading'' | STREAMING \<Rightarrow> ''streaming''
     | COMPLETE \<Rightarrow> ''complete'' | ERROR \<Rightarrow> ''error'')"

definition enc_version :: "MessageVersion \<Rightarrow> json" where
  "enc_version v = JObj [(''id'', JStr (v_id v)), (''content'', JStr (v_content v))]"

definition enc_source :: "MessageSource \<Rightarrow> json" where
  "enc_source s = JObj [(''href'', JStr (s_href s)), (''title'', JStr (s_title s))]"

definition enc_reasoning :: "Reasoning \<Rightarrow> json" where
  "enc_reasoning r = JObj
     ([(''content'', JStr (r_content r)), (''duration'', JNum (r_duration r))] @
      opt_field ''startedAt'' JNum (r_startedAt r) @
      opt_field ''completedAt'' JNum (r_completedAt r) @
      opt_field ''durationMs'' JNum (r_durationMs r))"

definition enc_nullable :: "string option \<Rightarrow> json" where
  "enc_nullable c = (case c of None \<Rightarrow> JNull | Some s \<Rightarrow> JStr s)"

definition enc_message :: "Message \<Rightarrow> json" where
  "enc_message m = JObj
     ([(''key'', JStr (m_key m)), (''from'', enc_role (m_from m)),
       (''versions'', JArr (map enc_version (m_versions m)))] @
      opt_field ''createdAt'' JNum (m_createdAt m) @
      opt_field ''startedAt'' JNum (m_startedAt m) @
      opt_field ''completedAt'' JNum (m_completedAt m) @
      opt_field ''durationMs'' JNum (m_durationMs m) @
      opt_field ''sources'' (\<lambda>ss. JArr (map enc_source ss)) (m_sources m) @
      opt_field ''reasoning'' enc_reasoning (m_reasoning m) @
      opt_field ''isReasoningStreaming'' JBool (m_isReasoningStreaming m) @
      opt_field ''isReasoningComplete'' JBool (m_isReasoningComplete m) @
      opt_field ''isContentComplete'' JBool (m_isContentComplete m) @
      opt_field ''status'' enc_status (m_status m) @
      opt_field ''errorCode'' enc_nullable (m_errorCode m))"

definition enc_messages :: "Message list \<Rightarrow> json" where
  "enc_messages ms = JArr (map enc_message ms)"

section \<open>Reading and writing values\<close>

definition readStoredValue :: "store \<Rightarrow> string \<Rightarrow> js_error + json" where
  "readStoredValue st key =
     (case getItem st key of
        None \<Rightarrow> Inr JNull
      | Some saved \<Rightarrow>
          if saved = [] then Inr JNull
          else (case JSON_parse saved of None \<Rightarrow> Inl SyntaxError | Some j \<Rightarrow> Inr j))"

definition readStoredMessagesValue :: "store \<Rightarrow> store \<times> (js_error + json)" where
  "readStoredMessagesValue st =
     (case getItem st KEY_MESSAGES of
        None \<Rightarrow> (st, Inr JNull)
      | Some saved \<Rightarrow>
          if saved = [] then (st, Inr JNull)
          else if length saved > MAX_STORED_MESSAGES_BYTES
          then (removeItem st KEY_MESSAGES, Inr JNull)
          else (st, case JSON_parse saved of None \<Rightarrow> Inl SyntaxError | Some j \<Rightarrow> Inr j))"

definition unwrapStoredValue :: "json \<Rightarrow> json" where
  "unwrapStoredValue value =
     (case value of
        JObj kvs \<Rightarrow>
          (case (map_of kvs ''version'', map_of kvs ''data'') of
             (Some _, Some d) \<Rightarrow> d
           | _ \<Rightarrow> value)
      | _ \<Rightarrow> value)"

definition writeStoredValue ::
  "(store \<Rightarrow> bool) \<Rightarrow> store \<Rightarrow> string \<Rightarrow> json \<Rightarrow> js_error + store" where
  "writeStoredValue fits st key data =
     setItem fits st key
       (JSON_stringify (JObj [(''version'', JNum STORAGE_VERSION), (''data'', data)]))"

section \<open>Trimming\<close>

definition trimMessages :: "Message list \<Rightarrow> Message list" where
  "trimMessages messages =
     (if length messages \<le> MAX_STORED_MESSAGES then messages
      else sliceLast messages MAX_STORED_MESSAGES)"

definition trimMessages_fresh :: "Message list \<Rightarrow> bool" where
  "trimMessages_fresh messages \<longleftrightarrow> \<not> length messages \<le> MAX_STORED_MESSAGES"

definition getMessageSize :: "Message \<Rightarrow> nat" where
  "getMessageSize message =
     (let versionsSize = foldl (\<lambda>total version. total + length (v_content version)) 0
            (m_versions message);
          reasoningSize = nullish (map_option (\<lambda>r. length (r_content r)) (m_reasoning message)) 0
      in versionsSize + reasoningSize)"

definition truncateText :: "string \<Rightarrow> nat \<Rightarrow> string" where
  "truncateText text maxLength =
     (if length text \<le> maxLength then text
      else if maxLength \<le> length TRUNCATED_CONTENT_SUFFIX then slice text 0 maxLength
      else slice text 0 (maxLength - length TRUNCATED_CONTENT_SUFFIX) @ TRUNCATED_CONTENT_SUFFIX)"

text \<open>
  The loop over the messages from the last one; \<open>result\<close> holds the messages kept so far,
  latest first, as \<open>result.push\<close> leaves them.
\<close>

fun trimLoop :: "Message list \<Rightarrow> nat \<Rightarrow> nat \<Rightarrow> Message list \<Rightarrow> Message list" where
  "trimLoop messages 0 totalSize result = result"
| "trimLoop messages (Suc index) totalSize result =
     (let message = messages ! index; messageSize = getMessageSize message
      in if 0 < length result \<and> totalSize + messageSize > MAX_LOADED_MESSAGES_CHARS then result
         else trimLoop messages index (totalSize + messageSize) (result @ [message]))"

definition trimMessagesByContentSize :: "Message list \<Rightarrow> Message list" where
  "trimMessagesByContentSize messages = rev (trimLoop messages (length messages) 0 [])"

section \<open>Collapsing repeated sections\<close>

text \<open>
  The matches of \<open>/^#{2,6}\s+\d+\.\s+.+$/gm\<close>. A line starts at the beginning of the text and
  after a line terminator; \<open>\s\<close> also matches line terminators, \<open>.\<close> does not.
\<close>

definition is_line_end :: "char \<Rightarrow> bool" where
  "is_line_end c \<longleftrightarrow> c = CHR 0x0A \<or> c = CHR 0x0D"

text \<open>
  The length matched by \<open>\s+.+$\<close>: the white space is taken greedily and given back one by one
  when nothing but white space follows it.
\<close>

fun give_back :: "string \<Rightarrow> nat \<Rightarrow> nat option" where
  "give_back ws 0 = None"
| "give_back ws (Suc j) =
     (if 0 < j \<and> \<not> is_line_end (ws ! j)
      then Some (j + length (takeWhile (\<lambda>c. \<not> is_line_end c) (drop j ws)))
      else if 0 < j then give_back ws j else None)"

definition match_tail :: "string \<Rightarrow> nat option" where
  "match_tail s =
     (let ws = takeWhile is_space s; rest = dropWhile is_space s
      in if ws = [] then None
         else if rest \<noteq> []
         then Some (length ws + length (takeWhile (\<lambda>c. \<not> is_line_end c) rest))
         else give_back ws (length ws))"

definition match_heading :: "string \<Rightarrow> nat option" where
  "match_heading s =
     (let hashes = takeWhile (\<lambda>c. c = CHR ''#'') s; s1 = drop (length hashes) s;
          ws = takeWhile is_space s1; s2 = drop (length ws) s1;
          digits = takeWhile is_digit s2; s3 = drop (length digits) s2
      in if length hashes < 2 \<or> 6 < length hashes \<or> ws = [] \<or> digits = [] then None
         else (case s3 of
                 [] \<Rightarrow> None
               | d # s4 \<Rightarrow>
                   if d \<noteq> CHR ''.'' then None
                   else map_option
                     (\<lambda>n. length hashes + length ws + length digits + 1 + n) (match_tail s4)))"

record SectionOccurrence =
  so_heading :: string
  so_index :: nat

text \<open>\<open>matchAll\<close> from a position of the text, with whether that position starts a line.\<close>

function section_scan :: "nat \<Rightarrow> bool \<Rightarrow> string \<Rightarrow> SectionOccurrence list" where
  "section_scan index atStart [] = []"
| "section_scan index atStart (c # s) =
     (case (if atStart then match_heading (c # s) else None) of
        Some (Suc n) \<Rightarrow>
          \<lparr>so_heading = take (Suc n) (c # s), so_index = index\<rparr> #
          section_scan (index + Suc n) False (drop n s)
      | _ \<Rightarrow> section_scan (Suc index) (is_line_end c) s)"
  by pat_completeness auto
termination
  by (relation "measure (\<lambda>(_, _, s). length s)") auto

definition getSectionOccurrences :: "string \<Rightarrow> SectionOccurrence list" where
  "getSectionOccurrences text = section_scan 0 True text"

definition getHeadingCounts :: "SectionOccurrence list \<Rightarrow> string \<Rightarrow> nat option" where
  "getHeadingCounts occurrences =
     foldl (\<lambda>counts occurrence.
       counts(so_heading occurrence \<mapsto> nullish (counts (so_heading occurrence)) 0 + 1))
       Map.empty occurrences"

fun lastRepeatedLoop ::
  "SectionOccurrence list \<Rightarrow> (string \<Rightarrow> nat option) \<Rightarrow> nat \<Rightarrow> string list \<Rightarrow> nat list \<Rightarrow> nat list" where
  "lastRepeatedLoop occurrences counts 0 seen indexes = indexes"
| "lastRepeatedLoop occurrences counts (Suc i) seen indexes =
     (let occurrence = occurrences ! i; count = nullish (counts (so_heading occurrence)) 0
      in if count < MIN_REPEATED_SECTION_COUNT \<or> List.member seen (so_heading occurrence)
         then lastRepeatedLoop occurrences counts i seen indexes
         else lastRepeatedLoop occurrences counts i (so_heading occurrence # seen)
                (indexes @ [so_index occurrence]))"

definition findLastRepeatedSectionRunStart :: "string \<Rightarrow> nat option" where
  "findLastRepeatedSectionRunStart text =
     (let occurrences = getSectionOccurrences text;
          headingCounts = getHeadingCounts occurrences;
          indexes = lastRepeatedLoop occurrences headingCounts (length occurrences) [] []
      in if indexes = [] then None else Some (Min (set indexes)))"

definition collapseRepeatedSectionSnapshots :: "string \<Rightarrow> string" where
  "collapseRepeatedSectionSnapshots text =
     (if length text < MIN_PREFIX_COLLAPSE_LENGTH then text
      else case findLastRepeatedSectionRunStart text of
             None \<Rightarrow> text | Some start \<Rightarrow> sliceFrom text start)"

section \<open>Normalising loaded messages\<close>

definition normalizeVersion :: "MessageVersion \<Rightarrow> MessageVersion" where
  "normalizeVersion version =
     version\<lparr>v_content := truncateText (collapseRepeatedSectionSnapshots (v_content version))
                            MAX_LOADED_MESSAGE_CHARS\<rparr>"

definition normalizeReasoning :: "Reasoning \<Rightarrow> Reasoning" where
  "normalizeReasoning r = r\<lparr>r_content := truncateText (r_content r) MAX_LOADED_MESSAGE_CHARS\<rparr>"

text \<open>The flag \<open>changed\<close> of the code.\<close>

definition contentChanged :: "Message \<Rightarrow> bool" where
  "contentChanged message \<longleftrightarrow>
     list_ex (\<lambda>version.
       (let collapsedContent = collapseRepeatedSectionSnapshots (v_content version);
            content = truncateText collapsedContent MAX_LOADED_MESSAGE_CHARS
        in \<not> (content = v_content version \<and> collapsedContent = v_content version)))
       (m_versions message) \<or>
     map_option r_content (map_option normalizeReasoning (m_reasoning message)) \<noteq>
     map_option r_content (m_reasoning message)"

definition normalizedContent :: "Message \<Rightarrow> Message" where
  "normalizedContent message =
     (if contentChanged message
      then message\<lparr>m_versions := map normalizeVersion (m_versions message),
                    m_reasoning := map_option normalizeReasoning (m_reasoning message)\<rparr>
      else message)"

definition hasReasoningText :: "Message \<Rightarrow> bool" where
  "hasReasoningText m \<longleftrightarrow> trim (nullish (map_option r_content (m_reasoning m)) []) \<noteq> []"

definition normalizeStoredMessageForLoad :: "clock \<Rightarrow> Message \<Rightarrow> Message" where
  "normalizeStoredMessageForLoad clk message =
     (let normalized = normalizedContent message
      in if \<not> isAssistantMessagePending normalized then normalized
         else if \<not> hasMessageContent normalized \<and> \<not> hasReasoningText normalized then normalized
         else let completedAt =
                nullish (orelse (m_completedAt normalized)
                  (orelse (Option.bind (m_reasoning normalized) r_completedAt)
                  (orelse (m_startedAt normalized) (m_createdAt normalized)))) (clk 0)
              in completeAssistantTiming
                   ((finalizeMessage (\<lambda>k. clk (Suc k)) normalized None)
                    \<lparr>m_status := Some COMPLETE, m_isReasoningStreaming := Some False\<rparr>) completedAt)"

definition normalizeStoredMessageForLoad_fresh :: "Message \<Rightarrow> bool" where
  "normalizeStoredMessageForLoad_fresh message \<longleftrightarrow>
     contentChanged message \<or>
     isAssistantMessagePending message \<and> (hasMessageContent message \<or> hasReasoningText message)"

section \<open>Loading and saving messages\<close>

definition saveMessages ::
  "(json \<Rightarrow> Message list option) \<Rightarrow> (store \<Rightarrow> bool) \<Rightarrow> Message list \<Rightarrow> store \<Rightarrow> store" where
  "saveMessages messagesSchema fits messages st =
     (let trimmed = trimMessages messages
      in case messagesSchema (enc_messages trimmed) of
           None \<Rightarrow> st
         | Some parsed \<Rightarrow>
             (case writeStoredValue fits st KEY_MESSAGES (enc_messages parsed) of
                Inl _ \<Rightarrow> st
              | Inr st' \<Rightarrow> st'))"

definition sanitizeMessagesOnLoad_fresh :: "Message list \<Rightarrow> bool" where
  "sanitizeMessagesOnLoad_fresh messages \<longleftrightarrow>
     scan_down (\<lambda>m. isPendingAssistantMessage (Some m)) messages (length messages) \<noteq> None"

text \<open>
  \<open>clks i\<close> are the clock readings while message \<open>i\<close> is normalised, \<open>clk\<close> those of the
  sanitising step. \<open>trimMessagesByContentSize\<close> always builds a new array.
\<close>

definition loadMessages ::
  "(json \<Rightarrow> Message list option) \<Rightarrow> (store \<Rightarrow> bool) \<Rightarrow> translation \<Rightarrow> (nat \<Rightarrow> clock) \<Rightarrow> clock \<Rightarrow>
   store \<Rightarrow> store \<times> Message list option" where
  "loadMessages messagesSchema fits t clks clk st =
     (case readStoredMessagesValue st of
        (st1, Inl _) \<Rightarrow> (st1, None)
      | (st1, Inr saved) \<Rightarrow>
          if falsy saved then (st1, None)
          else (case messagesSchema (unwrapStoredValue saved) of
                  None \<Rightarrow> (st1, None)
                | Some parsed \<Rightarrow>
                    (let normalized = map (\<lambda>(i, m). normalizeStoredMessageForLoad (clks i) m)
                           (enumerate 0 parsed);
                         normalizedChanged = list_ex normalizeStoredMessageForLoad_fresh parsed;
                         trimmed = trimMessages normalized;
                         sizeTrimmed = trimMessagesByContentSize trimmed;
                         sizeTrimmed_fresh = True;
                         sanitized = sanitizeMessagesOnLoad t clk sizeTrimmed
                     in (if normalizedChanged \<or> trimMessages_fresh normalized \<or>
                            sizeTrimmed_fresh \<or> sanitizeMessagesOnLoad_fresh sizeTrimmed
                         then saveMessages messagesSchema fits sanitized st1 else st1,
                         Some sanitized))))"

section \<open>Configuration\<close>

record PartialConfig =
  pc_model :: "string option"
  pc_group :: "string option"
  pc_temperature :: "number option"
  pc_top_p :: "number option"
  pc_max_tokens :: "number option"
  pc_frequency_penalty :: "number option"
  pc_presence_penalty :: "number option"
  pc_seed :: "number option option"
  pc_stream :: "bool option"

record PartialEnabled =
  pe_temperature :: "bool option"
  pe_top_p :: "bool option"
  pe_max_tokens :: "bool option"
  pe_frequency_penalty :: "bool option"
  pe_presence_penalty :: "bool option"
  pe_seed :: "bool option"

definition empty_config :: PartialConfig where
  "empty_config = \<lparr>pc_model = None, pc_group = None, pc_temperature = None, pc_top_p = None,
     pc_max_tokens = None, pc_frequency_penalty = None, pc_presence_penalty = None,
     pc_seed = None, pc_stream = None\<rparr>"

definition empty_enabled :: PartialEnabled where
  "empty_enabled = \<lparr>pe_temperature = None, pe_top_p = None, pe_max_tokens = None,
     pe_frequency_penalty = None, pe_presence_penalty = None, pe_seed = None\<rparr>"

definition enc_seed :: "number option \<Rightarrow> json" where
  "enc_seed s = (case s of None \<Rightarrow> JNull | Some n \<Rightarrow> JNum n)"

definition enc_config :: "PartialConfig \<Rightarrow> json" where
  "enc_config c = JObj
     (opt_field ''model'' JStr (pc_model c) @ opt_field ''group'' JStr (pc_group c) @
      opt_field ''temperature'' JNum (pc_temperature c) @ opt_field ''top_p'' JNum (pc_top_p c) @
      opt_field ''max_tokens'' JNum (pc_max_tokens c) @
      opt_field ''frequency_penalty'' JNum (pc_frequency_penalty c) @
      opt_field ''presence_penalty'' JNum (pc_presence_penalty c) @
      opt_field ''seed'' enc_seed (pc_seed c) @ opt_field ''stream'' JBool (pc_stream c))"

definition enc_enabled :: "PartialEnabled \<Rightarrow> json" where
  "enc_enabled e = JObj
     (opt_field ''temperature'' JBool (pe_temperature e) @ opt_field ''top_p'' JBool (pe_top_p e) @
      opt_field ''max_tokens'' JBool (pe_max_tokens e) @
      opt_field ''frequency_penalty'' JBool (pe_frequency_penalty e) @
      opt_field ''presence_penalty'' JBool (pe_presence_penalty e) @
      opt_field ''seed'' JBool (pe_seed e))"

definition loadConfig :: "(json \<Rightarrow> PartialConfig option) \<Rightarrow> store \<Rightarrow> PartialConfig" where
  "loadConfig playgroundConfigSchema st =
     (case readStoredValue st KEY_CONFIG of
        Inl _ \<Rightarrow> empty_config
      | Inr saved \<Rightarrow>
          if falsy saved then empty_config
          else nullish (playgroundConfigSchema (unwrapStoredValue saved)) empty_config)"

definition saveConfig ::
  "(json \<Rightarrow> PartialConfig option) \<Rightarrow> (store \<Rightarrow> bool) \<Rightarrow> PartialConfig \<Rightarrow> store \<Rightarrow> store" where
  "saveConfig playgroundConfigSchema fits config st =
     (case playgroundConfigSchema (enc_config config) of
        None \<Rightarrow> st
      | Some parsed \<Rightarrow>
          (case writeStoredValue fits st KEY_CONFIG (enc_config parsed) of
             Inl _ \<Rightarrow> st | Inr st' \<Rightarrow> st'))"

definition loadParameterEnabled :: "(json \<Rightarrow> PartialEnabled option) \<Rightarrow> store \<Rightarrow> PartialEnabled" where
  "loadParameterEnabled parameterEnabledSchema st =
     (case readStoredValue st KEY_PARAMETER_ENABLED of
        Inl _ \<Rightarrow> empty_enabled
      | Inr saved \<Rightarrow>
          if falsy saved then empty_enabled
          else nullish (parameterEnabledSchema (unwrapStoredValue saved)) empty_enabled)"

definition saveParameterEnabled ::
  "(json \<Rightarrow> PartialEnabled option) \<Rightarrow> (store \<Rightarrow> bool) \<Rightarrow> PartialEnabled \<Rightarrow> store \<Rightarrow> store" where
  "saveParameterEnabled parameterEnabledSchema fits parameterEnabled st =
     (case parameterEnabledSchema (enc_enabled parameterEnabled) of
        None \<Rightarrow> st
      | Some parsed \<Rightarrow>
          (case writeStoredValue fits st KEY_PARAMETER_ENABLED (enc_enabled parsed) of
             Inl _ \<Rightarrow> st | Inr st' \<Rightarrow> st'))"

definition clearPlaygroundData :: "store \<Rightarrow> store" where
  "clearPlaygroundData st =
     removeItem (removeItem (removeItem st KEY_CONFIG) KEY_PARAMETER_ENABLED) KEY_MESSAGES"

text \<open>\<open>playground-state-utils.ts\<close>: stored values override the defaults field by field.\<close>

definition getInitialPlaygroundConfig ::
  "(json \<Rightarrow> PartialConfig option) \<Rightarrow> store \<Rightarrow> PlaygroundConfig" where
  "getInitialPlaygroundConfig playgroundConfigSchema st =
     (let c = loadConfig playgroundConfigSchema st; d = DEFAULT_CONFIG
      in \<lparr>cfg_model = nullish (pc_model c) (cfg_model d), cfg_group = nullish (pc_group c) (cfg_group d),
          cfg_temperature = nullish (pc_temperature c) (cfg_temperature d),
          cfg_top_p = nullish (pc_top_p c) (cfg_top_p d),
          cfg_max_tokens = nullish (pc_max_tokens c) (cfg_max_tokens d),
          cfg_frequency_penalty = nullish (pc_frequency_penalty c) (cfg_frequency_penalty d),
          cfg_presence_penalty = nullish (pc_presence_penalty c) (cfg_presence_penalty d),
          cfg_seed = nullish (pc_seed c) (cfg_seed d), cfg_stream = nullish (pc_stream c) (cfg_stream d)\<rparr>)"

definition getInitialParameterEnabled ::
  "(json \<Rightarrow> PartialEnabled option) \<Rightarrow> store \<Rightarrow> ParameterEnabled" where
  "getInitialParameterEnabled parameterEnabledSchema st =
     (let e = loadParameterEnabled parameterEnabledSchema st; d = DEFAULT_PARAMETER_ENABLED
      in \<lparr>en_temperature = nullish (pe_temperature e) (en_temperature d),
          en_top_p = nullish (pe_top_p e) (en_top_p d),
          en_max_tokens = nullish (pe_max_tokens e) (en_max_tokens d),
          en_frequency_penalty = nullish (pe_frequency_penalty e) (en_frequency_penalty d),
          en_presence_penalty = nullish (pe_presence_penalty e) (en_presence_penalty d),
          en_seed = nullish (pe_seed e) (en_seed d)\<rparr>)"

definition getInitialMessages ::
  "(json \<Rightarrow> Message list option) \<Rightarrow> (store \<Rightarrow> bool) \<Rightarrow> translation \<Rightarrow> (nat \<Rightarrow> clock) \<Rightarrow> clock \<Rightarrow>
   store \<Rightarrow> store \<times> Message list" where
  "getInitialMessages messagesSchema fits t clks clk st =
     (case loadMessages messagesSchema fits t clks clk st of
        (st', loaded) \<Rightarrow> (st', nullish loaded []))"

datatype MessageStateUpdater = SetMessages "Message list" | UpdateMessages "Message list \<Rightarrow> Message list"

definition applyMessageStateUpdate :: "Message list \<Rightarrow> MessageStateUpdater \<Rightarrow> Message list" where
  "applyMessageStateUpdate previousMessages updater =
     (case updater of UpdateMessages f \<Rightarrow> f previousMessages | SetMessages ms \<Rightarrow> ms)"

end
