(* ===== verification/Storage_Laws.thy ===== *)
theory Storage_Laws
  imports Storage
begin

text \<open>
  Correctness of the playground's persistence: the contract of the message schema as a locale,
  its interpretation by the schemas of \<open>storage-schema.ts\<close>, what trimming keeps, and the round
  trip through \<open>localStorage\<close>.
\<close>

section \<open>Object fields\<close>

lemma map_of_opt_field [simp]:
  "map_of (opt_field k f x) k' = (if k = k' then map_option f x else None)"
  by (auto simp: opt_field_def split: option.split)

lemma orelse_None [simp]: "orelse x None = x"
  by (cases x) simp_all

lemma map_of_opt_append:
  "map_of (opt_field k f x @ rest) k' =
     (if k = k' then orelse (map_option f x) (map_of rest k') else map_of rest k')"
  by (auto simp: opt_field_def split: option.split)

lemma notin_opt_field:
  "k \<noteq> k' \<Longrightarrow> k \<notin> fst ` set (opt_field k' f x)"
  "k \<noteq> k' \<Longrightarrow> k \<notin> fst ` set rest \<Longrightarrow> k \<notin> fst ` set (opt_field k' f x @ rest)"
  by (auto simp: opt_field_def split: option.splits)

lemma distinct_opt_field:
  "distinct (map fst (opt_field k f x))"
  "k \<notin> fst ` set rest \<Longrightarrow> distinct (map fst rest) \<Longrightarrow>
   distinct (map fst (opt_field k f x @ rest))"
  by (auto simp: opt_field_def split: option.splits)

lemma distinct_Cons_field:
  "k \<notin> fst ` set rest \<Longrightarrow> distinct (map fst rest) \<Longrightarrow> distinct (map fst ((k, v) # rest))"
  by simp

lemma notin_Cons_field:
  "k \<noteq> k' \<Longrightarrow> k \<notin> fst ` set rest \<Longrightarrow> k \<notin> fst ` set ((k', v) # rest)"
  by simp

lemmas fields_intros = distinct_opt_field distinct_Cons_field notin_opt_field notin_Cons_field

lemma list_all_opt_field [simp]:
  "list_all (\<lambda>kv. P (snd kv)) (opt_field k f x) \<longleftrightarrow> (\<forall>y. x = Some y \<longrightarrow> P (f y))"
  by (auto simp: opt_field_def split: option.split)

section \<open>The schemas of \<open>storage-schema.ts\<close>\<close>

text \<open>
  The documented behaviour of the zod combinators the schemas use: a scalar schema accepts
  values of its type, \<open>z.object\<close> reads the declared keys and drops the others, \<open>optional\<close>
  accepts a missing key and \<open>nullable\<close> accepts \<open>null\<close>.
\<close>

definition zString :: "json \<Rightarrow> string option" where
  "zString j = (case j of JStr s \<Rightarrow> Some s | _ \<Rightarrow> None)"

definition zNumber :: "json \<Rightarrow> number option" where
  "zNumber j = (case j of JNum x \<Rightarrow> Some x | _ \<Rightarrow> None)"

definition zBoolean :: "json \<Rightarrow> bool option" where
  "zBoolean j = (case j of JBool b \<Rightarrow> Some b | _ \<Rightarrow> None)"

definition zArray :: "(json \<Rightarrow> 'a option) \<Rightarrow> json \<Rightarrow> 'a list option" where
  "zArray f j = (case j of JArr vs \<Rightarrow> those (map f vs) | _ \<Rightarrow> None)"

definition zNullable :: "(json \<Rightarrow> 'a option) \<Rightarrow> json \<Rightarrow> 'a option option" where
  "zNullable f j = (if j = JNull then Some None else map_option Some (f j))"

definition zObject :: "((string \<Rightarrow> json option) \<Rightarrow> 'a option) \<Rightarrow> json \<Rightarrow> 'a option" where
  "zObject f j = (case j of JObj kvs \<Rightarrow> f (map_of kvs) | _ \<Rightarrow> None)"

definition zOptional :: "(json \<Rightarrow> 'a option) \<Rightarrow> json option \<Rightarrow> 'a option option" where
  "zOptional f x = (case x of None \<Rightarrow> Some None | Some j \<Rightarrow> map_option Some (f j))"

definition messageRoleSchema :: "json \<Rightarrow> MessageRole option" where
  "messageRoleSchema j = map_of [(JStr ''user'', USER), (JStr ''assistant'', ASSISTANT),
     (JStr ''system'', SYSTEM)] j"

definition messageStatusSchema :: "json \<Rightarrow> MessageStatus option" where
  "messageStatusSchema j = map_of [(JStr ''loading'', LOADING), (JStr ''streaming'', STREAMING),
     (JStr ''complete'', COMPLETE), (JStr ''error'', ERROR)] j"

definition messageVersionSchema :: "json \<Rightarrow> MessageVersion option" where
  "messageVersionSchema = zObject (\<lambda>fld. do {
     i \<leftarrow> Option.bind (fld ''id'') zString;
     c \<leftarrow> Option.bind (fld ''content'') zString;
     Some \<lparr>v_id = i, v_content = c\<rparr> })"

definition sourceSchema :: "json \<Rightarrow> MessageSource option" where
  "sourceSchema = zObject (\<lambda>fld. do {
     h \<leftarrow> Option.bind (fld ''href'') zString;
     t \<leftarrow> Option.bind (fld ''title'') zString;
     Some \<lparr>s_href = h, s_title = t\<rparr> })"

definition reasoningSchema :: "json \<Rightarrow> Reasoning option" where
  "reasoningSchema = zObject (\<lambda>fld. do {
     c \<leftarrow> Option.bind (fld ''content'') zString;
     d \<leftarrow> Option.bind (fld ''duration'') zNumber;
     s \<leftarrow> zOptional zNumber (fld ''startedAt'');
     e \<leftarrow> zOptional zNumber (fld ''completedAt'');
     ms \<leftarrow> zOptional zNumber (fld ''durationMs'');
     Some \<lparr>r_content = c, r_duration = d, r_startedAt = s, r_completedAt = e, r_durationMs = ms\<rparr> })"

definition messageSchema :: "json \<Rightarrow> Message option" where
  "messageSchema = zObject (\<lambda>fld. do {
     key \<leftarrow> Option.bind (fld ''key'') zString;
     from \<leftarrow> Option.bind (fld ''from'') messageRoleSchema;
     vs \<leftarrow> Option.bind (fld ''versions'') (zArray messageVersionSchema);
     createdAt \<leftarrow> zOptional zNumber (fld ''createdAt'');
     startedAt \<leftarrow> zOptional zNumber (fld ''startedAt'');
     completedAt \<leftarrow> zOptional zNumber (fld ''completedAt'');
     durationMs \<leftarrow> zOptional zNumber (fld ''durationMs'');
     sources \<leftarrow> zOptional (zArray sourceSchema) (fld ''sources'');
     reasoning \<leftarrow> zOptional reasoningSchema (fld ''reasoning'');
     rs \<leftarrow> zOptional zBoolean (fld ''isReasoningStreaming'');
     rc \<leftarrow> zOptional zBoolean (fld ''isReasoningComplete'');
     cc \<leftarrow> zOptional zBoolean (fld ''isContentComplete'');
     status \<leftarrow> zOptional messageStatusSchema (fld ''status'');
     errorCode \<leftarrow> zOptional (zNullable zString) (fld ''errorCode'');
     if vs = [] then None else
     Some \<lparr>m_key = key, m_from = from, m_versions = vs, m_createdAt = createdAt,
       m_startedAt = startedAt, m_completedAt = completedAt, m_durationMs = durationMs,
       m_sources = sources, m_reasoning = reasoning, m_isReasoningStreaming = rs,
       m_isReasoningComplete = rc, m_isContentComplete = cc, m_status = status,
       m_errorCode = errorCode\<rparr> })"

definition messagesSchema :: "json \<Rightarrow> Message list option" where
  "messagesSchema = zArray messageSchema"

definition playgroundConfigSchema :: "json \<Rightarrow> PartialConfig option" where
  "playgroundConfigSchema = zObject (\<lambda>fld. do {
     model \<leftarrow> zOptional zString (fld ''model'');
     group \<leftarrow> zOptional zString (fld ''group'');
     temperature \<leftarrow> zOptional zNumber (fld ''temperature'');
     top_p \<leftarrow> zOptional zNumber (fld ''top_p'');
     max_tokens \<leftarrow> zOptional zNumber (fld ''max_tokens'');
     frequency_penalty \<leftarrow> zOptional zNumber (fld ''frequency_penalty'');
     presence_penalty \<leftarrow> zOptional zNumber (fld ''presence_penalty'');
     seed \<leftarrow> zOptional (zNullable zNumber) (fld ''seed'');
     stream \<leftarrow> zOptional zBoolean (fld ''stream'');
     Some \<lparr>pc_model = model, pc_group = group, pc_temperature = temperature, pc_top_p = top_p,
       pc_max_tokens = max_tokens, pc_frequency_penalty = frequency_penalty,
       pc_presence_penalty = presence_penalty, pc_seed = seed, pc_stream = stream\<rparr> })"

definition parameterEnabledSchema :: "json \<Rightarrow> PartialEnabled option" where
  "parameterEnabledSchema = zObject (\<lambda>fld. do {
     temperature \<leftarrow> zOptional zBoolean (fld ''temperature'');
     top_p \<leftarrow> zOptional zBoolean (fld ''top_p'');
     max_tokens \<leftarrow> zOptional zBoolean (fld ''max_tokens'');
     frequency_penalty \<leftarrow> zOptional zBoolean (fld ''frequency_penalty'');
     presence_penalty \<leftarrow> zOptional zBoolean (fld ''presence_penalty'');
     seed \<leftarrow> zOptional zBoolean (fld ''seed'');
     Some \<lparr>pe_temperature = temperature, pe_top_p = top_p, pe_max_tokens = max_tokens,
       pe_frequency_penalty = frequency_penalty, pe_presence_penalty = presence_penalty,
       pe_seed = seed\<rparr> })"

named_theorems schema_simps \<open>each schema accepts what the corresponding encoder writes\<close>

lemma zScalar_enc [schema_simps]:
  "zString (JStr s) = Some s" "zNumber (JNum x) = Some x" "zBoolean (JBool b) = Some b"
  by (simp_all add: zString_def zNumber_def zBoolean_def)

lemma zOptional_enc: "(\<And>y. f (enc y) = Some y) \<Longrightarrow> zOptional f (map_option enc x) = Some x"
  by (cases x) (simp_all add: zOptional_def)

lemma zArray_enc: "(\<And>y. y \<in> set ys \<Longrightarrow> f (enc y) = Some y) \<Longrightarrow> zArray f (JArr (map enc ys)) = Some ys"
  by (induction ys) (auto simp: zArray_def)

lemma role_enc [schema_simps]: "messageRoleSchema (enc_role r) = Some r"
  by (cases r) (simp_all add: messageRoleSchema_def enc_role_def)

lemma status_enc [schema_simps]: "messageStatusSchema (enc_status s) = Some s"
  by (cases s) (simp_all add: messageStatusSchema_def enc_status_def)

lemma nullable_enc [schema_simps]: "zNullable zString (enc_nullable c) = Some c"
  by (cases c) (simp_all add: zNullable_def enc_nullable_def zString_def)

lemma seed_enc [schema_simps]: "zNullable zNumber (enc_seed c) = Some c"
  by (cases c) (simp_all add: zNullable_def enc_seed_def zNumber_def)

lemma version_enc [schema_simps]: "messageVersionSchema (enc_version v) = Some v"
  by (simp add: messageVersionSchema_def enc_version_def zObject_def schema_simps)

lemma source_enc [schema_simps]: "sourceSchema (enc_source s) = Some s"
  by (simp add: sourceSchema_def enc_source_def zObject_def schema_simps)

lemma reasoning_enc [schema_simps]: "reasoningSchema (enc_reasoning r) = Some r"
  by (simp add: reasoningSchema_def enc_reasoning_def zObject_def map_of_opt_append
      zOptional_enc schema_simps del: map_of_append)

lemma message_enc [schema_simps]: "m_versions m \<noteq> [] \<Longrightarrow> messageSchema (enc_message m) = Some m"
  by (simp add: messageSchema_def enc_message_def zObject_def map_of_opt_append
      zOptional_enc zArray_enc schema_simps del: map_of_append)

lemma config_enc: "playgroundConfigSchema (enc_config c) = Some c"
  by (simp add: playgroundConfigSchema_def enc_config_def zObject_def map_of_opt_append
      zOptional_enc schema_simps del: map_of_append)

lemma enabled_enc: "parameterEnabledSchema (enc_enabled e) = Some e"
  by (simp add: parameterEnabledSchema_def enc_enabled_def zObject_def map_of_opt_append
      zOptional_enc schema_simps del: map_of_append)


section \<open>Printable messages\<close>

text \<open>Every number of the message is written in plain decimal notation.\<close>

definition opt_printable :: "number option \<Rightarrow> bool" where
  "opt_printable x = (case x of None \<Rightarrow> True | Some y \<Rightarrow> printable_number y)"

definition printable_message :: "Message \<Rightarrow> bool" where
  "printable_message m \<longleftrightarrow>
     opt_printable (m_createdAt m) \<and> opt_printable (m_startedAt m) \<and>
     opt_printable (m_completedAt m) \<and> opt_printable (m_durationMs m) \<and>
     (case m_reasoning m of None \<Rightarrow> True
      | Some r \<Rightarrow> printable_number (r_duration r) \<and> opt_printable (r_startedAt r) \<and>
          opt_printable (r_completedAt r) \<and> opt_printable (r_durationMs r))"

lemma opt_printable_iff: "opt_printable x \<longleftrightarrow> (\<forall>y. x = Some y \<longrightarrow> printable_number y)"
  by (cases x) (simp_all add: opt_printable_def)

lemma distinct_enc_reasoning: "enc_reasoning r = JObj kvs \<Longrightarrow> distinct (map fst kvs)"
  unfolding enc_reasoning_def append_Cons append_Nil
  by (drule json.inject(5) [THEN iffD1], erule subst, intro fields_intros) simp_all

lemma printable_enc_reasoning:
  assumes "printable_number (r_duration r)" "opt_printable (r_startedAt r)"
    "opt_printable (r_completedAt r)" "opt_printable (r_durationMs r)"
  shows "printable (enc_reasoning r)"
  using assms distinct_enc_reasoning [of r]
  by (simp add: enc_reasoning_def opt_printable_iff del: map_append)

lemma printable_enc_scalar [simp]:
  "printable (enc_role r)" "printable (enc_status s)" "printable (enc_version v)"
  "printable (enc_source src)" "printable (enc_nullable c)"
  by (simp_all add: enc_role_def enc_status_def enc_version_def enc_source_def enc_nullable_def
      split: option.split)

lemma distinct_enc_message: "enc_message m = JObj kvs \<Longrightarrow> distinct (map fst kvs)"
  unfolding enc_message_def append_Cons append_Nil
  by (drule json.inject(5) [THEN iffD1], erule subst, intro fields_intros) simp_all

lemma printable_enc_message:
  assumes "printable_message m"
  shows "printable (enc_message m)"
proof -
  have r: "\<forall>r. m_reasoning m = Some r \<longrightarrow> printable (enc_reasoning r)"
    using assms by (auto simp: printable_message_def intro: printable_enc_reasoning)
  show ?thesis
    using assms r distinct_enc_message [of m]
    by (simp add: enc_message_def printable_message_def opt_printable_iff list_all_iff [of printable]
        del: map_append)
qed

lemma printable_enc_messages: "list_all printable_message ms \<Longrightarrow> printable (enc_messages ms)"
  by (simp add: enc_messages_def list_all_iff printable_enc_message)

lemma decimals_integer: "is_integer x \<Longrightarrow> decimals x = Some 0"
  by (subst decimals_def, subst upt_conv_Cons) simp_all

lemma printable_of_int: "\<bar>i\<bar> < 10 ^ 21 \<Longrightarrow> printable_number (of_int i)"
proof -
  assume i: "\<bar>i\<bar> < 10 ^ 21"
  have "\<bar>of_int i :: number\<bar> < 10 ^ 21"
    using i by (metis of_int_abs of_int_less_iff of_int_numeral of_int_power)
  moreover have "i = 0 \<or> 1 \<le> \<bar>i\<bar>" by linarith
  then have "i = 0 \<or> (1 :: number) \<le> \<bar>of_int i\<bar>" by (metis of_int_1 of_int_abs of_int_le_iff)
  then have "i = 0 \<or> (1 :: number) / 10 ^ 6 \<le> \<bar>of_int i\<bar>" by auto
  ultimately show ?thesis
    by (auto simp: printable_number_def decimals_integer is_integer_def plain_range_def)
qed

section \<open>Trimming\<close>

definition total_size :: "Message list \<Rightarrow> nat" where
  "total_size ms = sum_list (map getMessageSize ms)"

lemma total_size_simps [simp]:
  "total_size [] = 0" "total_size (m # ms) = getMessageSize m + total_size ms"
  "total_size (xs @ ys) = total_size xs + total_size ys"
  by (simp_all add: total_size_def)

lemma trimLoop_spec:
  assumes "n \<le> length ms" "result \<noteq> []" "result = rev suf"
    "tot = total_size suf"
  shows "\<exists>k\<le>n. trimLoop ms n tot result = rev (drop k (take n ms) @ suf) \<and>
     (k < n \<longrightarrow> total_size (drop k (take n ms) @ suf) \<le> MAX_LOADED_MESSAGES_CHARS) \<and>
     (k = 0 \<or> MAX_LOADED_MESSAGES_CHARS < total_size (drop (k - 1) (take n ms) @ suf))"
  using assms
proof (induction n arbitrary: tot result suf)
  case (Suc n)
  let ?m = "ms ! n"
  have tk: "take (Suc n) ms = take n ms @ [?m]"
    using Suc.prems(1) by (simp add: take_Suc_conv_app_nth)
  show ?case
  proof (cases "tot + getMessageSize ?m > MAX_LOADED_MESSAGES_CHARS")
    case True
    then show ?thesis using Suc.prems tk
      by (intro exI [of _ "Suc n"]) (simp add: add.commute)
  next
    case False
    have "\<exists>k\<le>n. trimLoop ms n (tot + getMessageSize ?m) (result @ [?m]) =
            rev (drop k (take n ms) @ ?m # suf) \<and>
          (k < n \<longrightarrow> total_size (drop k (take n ms) @ ?m # suf) \<le> MAX_LOADED_MESSAGES_CHARS) \<and>
          (k = 0 \<or> MAX_LOADED_MESSAGES_CHARS < total_size (drop (k - 1) (take n ms) @ ?m # suf))"
      using Suc.prems by (intro Suc.IH) simp_all
    then obtain k where k: "k \<le> n"
      "trimLoop ms n (tot + getMessageSize ?m) (result @ [?m]) = rev (drop k (take n ms) @ ?m # suf)"
      "k < n \<longrightarrow> total_size (drop k (take n ms) @ ?m # suf) \<le> MAX_LOADED_MESSAGES_CHARS"
      "k = 0 \<or> MAX_LOADED_MESSAGES_CHARS < total_size (drop (k - 1) (take n ms) @ ?m # suf)"
      by blast
    have d: "drop j (take (Suc n) ms) = drop j (take n ms) @ [?m]" if "j \<le> n" for j
      using that Suc.prems(1) by (simp add: tk)
    have "total_size (drop k (take n ms) @ ?m # suf) \<le> MAX_LOADED_MESSAGES_CHARS"
      using k(1,3) False Suc.prems(4) by (cases "k < n") (simp_all add: add.commute)
    then show ?thesis
      using k False Suc.prems(2) d [of k] d [of "k - 1"] by (intro exI [of _ k]) (simp add: Let_def)
  qed
qed simp

lemma trimMessagesByContentSize_Nil [simp]: "trimMessagesByContentSize [] = []"
  by (simp add: trimMessagesByContentSize_def)

lemma trimMessagesByContentSize_suffix:
  assumes "ms \<noteq> []"
  obtains k where "k < length ms" "trimMessagesByContentSize ms = drop k ms"
    "k = length ms - 1 \<or> total_size (drop k ms) \<le> MAX_LOADED_MESSAGES_CHARS"
    "k = 0 \<or> MAX_LOADED_MESSAGES_CHARS < total_size (drop (k - 1) ms)"
proof -
  from assms obtain xs m where ms: "ms = xs @ [m]" by (cases ms rule: rev_cases) auto
  have "\<exists>k\<le>length xs. trimLoop ms (length xs) (getMessageSize m) [m] =
      rev (drop k (take (length xs) ms) @ [m]) \<and>
     (k < length xs \<longrightarrow> total_size (drop k (take (length xs) ms) @ [m]) \<le> MAX_LOADED_MESSAGES_CHARS) \<and>
     (k = 0 \<or> MAX_LOADED_MESSAGES_CHARS < total_size (drop (k - 1) (take (length xs) ms) @ [m]))"
    by (rule trimLoop_spec) (simp_all add: ms)
  then obtain k where k: "k \<le> length xs"
    "trimLoop ms (length xs) (getMessageSize m) [m] = rev (drop k xs @ [m])"
    "k < length xs \<longrightarrow> total_size (drop k xs @ [m]) \<le> MAX_LOADED_MESSAGES_CHARS"
    "k = 0 \<or> MAX_LOADED_MESSAGES_CHARS < total_size (drop (k - 1) xs @ [m])"
    by (auto simp: ms)
  have "trimMessagesByContentSize ms = drop k ms"
    using k(1,2) by (simp add: trimMessagesByContentSize_def ms)
  then show thesis
    using k by (intro that [of k]) (auto simp: ms)
qed

lemma trimMessagesByContentSize_id:
  assumes "total_size ms \<le> MAX_LOADED_MESSAGES_CHARS"
  shows "trimMessagesByContentSize ms = ms"
proof (cases "ms = []")
  case False
  then obtain k where k: "trimMessagesByContentSize ms = drop k ms"
    "k = 0 \<or> MAX_LOADED_MESSAGES_CHARS < total_size (drop (k - 1) ms)"
    using trimMessagesByContentSize_suffix by metis
  have "total_size (drop j ms) \<le> total_size ms" for j
    using total_size_simps(3) [of "take j ms" "drop j ms"] by simp
  from this [of "k - 1"] have "k = 0" using k(2) assms by linarith
  then show ?thesis using k(1) by simp
qed simp

lemma length_trimMessages: "length (trimMessages ms) \<le> MAX_STORED_MESSAGES"
  by (simp add: trimMessages_def sliceLast_def MAX_STORED_MESSAGES_def)

lemma trimMessages_suffix: "\<exists>k. trimMessages ms = drop k ms"
proof (cases "length ms \<le> MAX_STORED_MESSAGES")
  case True
  then show ?thesis by (auto simp: trimMessages_def intro: exI [of _ 0])
next
  case False
  then show ?thesis by (auto simp: trimMessages_def sliceLast_def MAX_STORED_MESSAGES_def)
qed

lemma length_trimMessagesByContentSize: "length (trimMessagesByContentSize ms) \<le> length ms"
proof (cases "ms = []")
  case False
  then obtain k where "trimMessagesByContentSize ms = drop k ms"
    using trimMessagesByContentSize_suffix by metis
  then show ?thesis by simp
qed simp

lemma length_sanitizeMessagesOnLoad [simp]: "length (sanitizeMessagesOnLoad t clk ms) = length ms"
  by (simp add: sanitizeMessagesOnLoad_def split: option.split)

lemma sanitize_no_pending:
  assumes "list_all (\<lambda>m. \<not> isAssistantMessagePending m) ms"
  shows "sanitizeMessagesOnLoad t clk ms = ms"
proof -
  have "scan_down (\<lambda>m. isPendingAssistantMessage (Some m)) ms (length ms) = None"
    using assms by (simp add: scan_down_None isPendingAssistantMessage_def list_all_length)
  then show ?thesis by (simp add: sanitizeMessagesOnLoad_def)
qed

section \<open>Normalisation\<close>

lemma normalize_id:
  "\<not> contentChanged m \<Longrightarrow> \<not> isAssistantMessagePending m \<Longrightarrow> normalizeStoredMessageForLoad clk m = m"
  by (simp add: normalizeStoredMessageForLoad_def normalizedContent_def Let_def)

lemma map_enumerate_id: "(\<And>i x. x \<in> set xs \<Longrightarrow> f i x = x) \<Longrightarrow> map (\<lambda>(i, x). f i x) (enumerate n xs) = xs"
  by (induction xs arbitrary: n) auto

section \<open>The contract of the message schema\<close>

definition versioned :: "Message list \<Rightarrow> bool" where
  "versioned ms = list_all (\<lambda>m. m_versions m \<noteq> []) ms"

text \<open>Messages that a save and a load leave as they are.\<close>

definition stable_messages :: "Message list \<Rightarrow> bool" where
  "stable_messages ms \<longleftrightarrow>
     versioned ms \<and> length ms \<le> MAX_STORED_MESSAGES \<and>
     total_size ms \<le> MAX_LOADED_MESSAGES_CHARS \<and>
     list_all (\<lambda>m. \<not> contentChanged m \<and> \<not> isAssistantMessagePending m \<and> printable_message m) ms"

definition envelope :: "json \<Rightarrow> string" where
  "envelope data = JSON_stringify (JObj [(''version'', JNum STORAGE_VERSION), (''data'', data)])"

lemma printable_envelope: "printable data \<Longrightarrow>
    printable (JObj [(''version'', JNum STORAGE_VERSION), (''data'', data)])"
  using printable_of_int [of 1] by (simp add: STORAGE_VERSION_def)

lemma parse_envelope: "printable data \<Longrightarrow>
    JSON_parse (envelope data) = Some (JObj [(''version'', JNum STORAGE_VERSION), (''data'', data)])"
  unfolding envelope_def by (rule js_json.parse_stringify [OF printable_envelope])

lemma envelope_not_Nil: "envelope data \<noteq> []"
  by (simp add: envelope_def JSON_stringify_def)

lemma unwrap_envelope:
  "unwrapStoredValue (JObj [(''version'', JNum STORAGE_VERSION), (''data'', data)]) = data"
  by (simp add: unwrapStoredValue_def)

locale message_schema =
  fixes schema :: "json \<Rightarrow> Message list option"
  assumes accepts: "versioned ms \<Longrightarrow> schema (enc_messages ms) = Some ms"
    and sound: "schema j = Some ms \<Longrightarrow> versioned ms"
begin

lemma save_store:
  assumes "versioned (trimMessages ms)" "fits (st(KEY_MESSAGES \<mapsto> envelope (enc_messages (trimMessages ms))))"
  shows "saveMessages schema fits ms st = st(KEY_MESSAGES \<mapsto> envelope (enc_messages (trimMessages ms)))"
  using assms accepts
  by (simp add: saveMessages_def Let_def writeStoredValue_def setItem_def envelope_def)

lemma save_frame: "k \<noteq> KEY_MESSAGES \<Longrightarrow> saveMessages schema fits ms st k = st k"
  by (simp add: saveMessages_def Let_def writeStoredValue_def setItem_def split: option.split)

lemma load_read:
  assumes "st KEY_MESSAGES = Some (envelope (enc_messages ms))" "versioned ms"
    "list_all printable_message ms" "length (envelope (enc_messages ms)) \<le> MAX_STORED_MESSAGES_BYTES"
  shows "readStoredMessagesValue st =
      (st, Inr (JObj [(''version'', JNum STORAGE_VERSION), (''data'', enc_messages ms)]))"
  using assms parse_envelope [OF printable_enc_messages [OF assms(3)]]
  by (simp add: readStoredMessagesValue_def getItem_def envelope_not_Nil)

lemma load_stored:
  assumes stable: "stable_messages ms" and stored: "st KEY_MESSAGES = Some (envelope (enc_messages ms))"
    and small: "length (envelope (enc_messages ms)) \<le> MAX_STORED_MESSAGES_BYTES"
  shows "loadMessages schema fits t clks clk st = (st, Some ms)"
proof -
  have v: "versioned ms" and p: "list_all printable_message ms"
    and nc: "\<forall>m\<in>set ms. \<not> contentChanged m \<and> \<not> isAssistantMessagePending m"
    using stable by (auto simp: stable_messages_def list_all_iff)
  have tm: "trimMessages ms = ms" using stable by (simp add: stable_messages_def trimMessages_def)
  have "st(KEY_MESSAGES \<mapsto> envelope (enc_messages ms)) = st" using stored by auto
  then have s: "saveMessages schema fits ms st = st"
    using accepts [OF v] tm
    by (simp add: saveMessages_def Let_def writeStoredValue_def setItem_def envelope_def)
  have n: "map (\<lambda>(i, m). normalizeStoredMessageForLoad (clks i) m) (enumerate 0 ms) = ms"
    by (rule map_enumerate_id) (simp add: normalize_id nc)
  have z: "trimMessagesByContentSize ms = ms"
    using stable by (intro trimMessagesByContentSize_id) (simp add: stable_messages_def)
  have q: "sanitizeMessagesOnLoad t clk ms = ms"
    using nc by (intro sanitize_no_pending) (simp add: list_all_iff)
  show ?thesis
    using load_read [of st ms, OF stored v p small] accepts [OF v]
    by (simp add: loadMessages_def falsy_def unwrap_envelope n tm z q s Let_def)
qed

lemma save_stores:
  assumes "stable_messages ms" "fits (st(KEY_MESSAGES \<mapsto> envelope (enc_messages ms)))"
  shows "saveMessages schema fits ms st = st(KEY_MESSAGES \<mapsto> envelope (enc_messages ms))"
proof -
  have "trimMessages ms = ms" "versioned ms" using assms(1) by (simp_all add: stable_messages_def trimMessages_def)
  then show ?thesis using save_store [of ms fits st] assms(2) by simp
qed

lemma save_load:
  assumes "stable_messages ms" "fits (st(KEY_MESSAGES \<mapsto> envelope (enc_messages ms)))"
    "length (envelope (enc_messages ms)) \<le> MAX_STORED_MESSAGES_BYTES"
  shows "loadMessages schema fits t clks clk (saveMessages schema fits ms st) =
         (saveMessages schema fits ms st, Some ms)"
  by (rule load_stored [OF assms(1) _ assms(3)]) (simp add: save_stores [of ms fits st, OF assms(1,2)])

lemma refused_save:
  assumes "\<forall>v. \<not> fits (st(KEY_MESSAGES \<mapsto> v))"
  shows "saveMessages schema fits ms st = st"
  using assms by (simp add: saveMessages_def Let_def writeStoredValue_def setItem_def split: option.split)

end

lemma those_Some_set: "those xs = Some ys \<Longrightarrow> y \<in> set ys \<Longrightarrow> Some y \<in> set xs"
  by (induction xs arbitrary: ys) (auto split: option.splits)

lemma bind_SomeE:
  "Option.bind x f = Some y \<Longrightarrow> (\<And>z. x = Some z \<Longrightarrow> f z = Some y \<Longrightarrow> P) \<Longrightarrow> P"
  by (cases x) auto

lemma messageSchema_versions: "messageSchema j = Some m \<Longrightarrow> m_versions m \<noteq> []"
  unfolding messageSchema_def zObject_def
  by (cases j) (auto elim!: bind_SomeE split: if_splits)

interpretation storage_schema: message_schema messagesSchema
proof
  fix ms
  assume "versioned ms"
  then show "messagesSchema (enc_messages ms) = Some ms"
    unfolding messagesSchema_def enc_messages_def
    by (intro zArray_enc) (simp add: versioned_def list_all_iff schema_simps)
next
  fix j ms
  assume "messagesSchema j = Some ms"
  then show "versioned ms"
    by (auto simp: messagesSchema_def zArray_def versioned_def list_all_iff split: json.splits
        dest!: those_Some_set dest: messageSchema_versions [OF sym])
qed

subsection \<open>Collapsing repeated sections\<close>

lemma counts_eq: "getHeadingCounts occs h =
    (let n = length (filter (\<lambda>x. so_heading x = h) occs) in if n = 0 then None else Some n)"
  unfolding getHeadingCounts_def
  by (induction occs rule: rev_induct) (auto simp: Let_def nullish_def)

lemma lastRepeatedLoop_set:
  assumes "n \<le> length occs"
  shows "set (lastRepeatedLoop occs counts n seen idx) = set idx \<union>
    {so_index (occs ! i) | i. i < n \<and> MIN_REPEATED_SECTION_COUNT \<le> nullish (counts (so_heading (occs ! i))) 0 \<and>
       so_heading (occs ! i) \<notin> set seen \<and>
       (\<forall>j. i < j \<and> j < n \<longrightarrow> so_heading (occs ! j) \<noteq> so_heading (occs ! i))}"
  using assms
proof (induction n arbitrary: seen idx)
  case (Suc n)
  let ?rep = "\<lambda>i. MIN_REPEATED_SECTION_COUNT \<le> nullish (counts (so_heading (occs ! i))) 0"
  show ?case
  proof (cases "?rep n \<and> so_heading (occs ! n) \<notin> set seen")
    case False
    then have "lastRepeatedLoop occs counts (Suc n) seen idx = lastRepeatedLoop occs counts n seen idx"
      by (auto simp: Let_def not_le)
    moreover have "i < Suc n \<and> ?rep i \<and> so_heading (occs ! i) \<notin> set seen \<and>
        (\<forall>j. i < j \<and> j < Suc n \<longrightarrow> so_heading (occs ! j) \<noteq> so_heading (occs ! i)) \<longleftrightarrow>
      i < n \<and> ?rep i \<and> so_heading (occs ! i) \<notin> set seen \<and>
        (\<forall>j. i < j \<and> j < n \<longrightarrow> so_heading (occs ! j) \<noteq> so_heading (occs ! i))" for i
      using False by (auto simp: less_Suc_eq)
    ultimately show ?thesis using Suc.IH [of seen idx] Suc.prems by simp
  next
    case True
    then have "lastRepeatedLoop occs counts (Suc n) seen idx =
        lastRepeatedLoop occs counts n (so_heading (occs ! n) # seen) (idx @ [so_index (occs ! n)])"
      by (auto simp: Let_def not_le)
    moreover have "i < Suc n \<and> ?rep i \<and> so_heading (occs ! i) \<notin> set seen \<and>
        (\<forall>j. i < j \<and> j < Suc n \<longrightarrow> so_heading (occs ! j) \<noteq> so_heading (occs ! i)) \<longleftrightarrow>
      i = n \<or> i < n \<and> ?rep i \<and> so_heading (occs ! i) \<notin> set (so_heading (occs ! n) # seen) \<and>
        (\<forall>j. i < j \<and> j < n \<longrightarrow> so_heading (occs ! j) \<noteq> so_heading (occs ! i))" for i
      using True by (auto simp: less_Suc_eq)
    ultimately show ?thesis using Suc.IH [of "so_heading (occs ! n) # seen" "idx @ [so_index (occs ! n)]"] Suc.prems
      by auto
  qed
qed simp

text \<open>The headings that occur often enough to be taken for repeated snapshots.\<close>

definition repeated :: "string \<Rightarrow> SectionOccurrence \<Rightarrow> bool" where
  "repeated text x \<longleftrightarrow> x \<in> set (getSectionOccurrences text) \<and>
     MIN_REPEATED_SECTION_COUNT \<le>
       length (filter (\<lambda>y. so_heading y = so_heading x) (getSectionOccurrences text))"

text \<open>The last occurrence of its heading in a text.\<close>

definition last_of_heading :: "string \<Rightarrow> SectionOccurrence \<Rightarrow> bool" where
  "last_of_heading text x \<longleftrightarrow> (let occs = getSectionOccurrences text in
     \<exists>i<length occs. occs ! i = x \<and>
       (\<forall>j. i < j \<and> j < length occs \<longrightarrow> so_heading (occs ! j) \<noteq> so_heading x))"

lemma counts_nullish:
  "nullish (getHeadingCounts occs h) 0 = length (filter (\<lambda>x. so_heading x = h) occs)"
  by (simp add: counts_eq Let_def nullish_def)

lemma run_starts:
  "set (lastRepeatedLoop (getSectionOccurrences text) (getHeadingCounts (getSectionOccurrences text))
      (length (getSectionOccurrences text)) [] []) =
   so_index ` {x. repeated text x \<and> last_of_heading text x}"
  by (simp add: lastRepeatedLoop_set counts_nullish)
     (fastforce simp: repeated_def last_of_heading_def Let_def)

section \<open>Properties\<close>

text \<open>
  C8: what is saved is what is loaded. For every schema that accepts the messages the program
  writes, messages that are complete, without text that a load collapses (at least two thousand
  characters with a heading three times), within the limits and written within the quota come back
  from storage unchanged, and the load leaves the storage as the save wrote it.
\<close>

theorem messages_save_load:
  assumes "message_schema schema" "stable_messages ms"
    "fits (st(KEY_MESSAGES \<mapsto> envelope (enc_messages ms)))"
    "length (envelope (enc_messages ms)) \<le> MAX_STORED_MESSAGES_BYTES"
  shows "loadMessages schema fits t clks clk (saveMessages schema fits ms st) =
         (saveMessages schema fits ms st, Some ms)"
  using assms by (intro message_schema.save_load)

definition stored_example :: "Message list" where
  "stored_example = [(createUserMessage ''k'' ''v'' ''hi'' 0)\<lparr>m_createdAt := None\<rparr>]"

lemma stored_example_stable: "stable_messages stored_example"
  by (simp add: stable_messages_def stored_example_def versioned_def MAX_STORED_MESSAGES_def
      MAX_LOADED_MESSAGES_CHARS_def contentChanged_def collapseRepeatedSectionSnapshots_def
      MIN_PREFIX_COLLAPSE_LENGTH_def truncateText_def MAX_LOADED_MESSAGE_CHARS_def
      createMessageVersion_def isAssistantMessagePending_def printable_message_def opt_printable_def
      getMessageSize_def createUserMessage_def)

lemma length_quote_string: "length (quote_string s) \<le> 6 * length s + 2"
proof -
  have "length (escape_char c) \<le> 6" for c by (simp add: escape_char_def split: option.split)
  then have "length (concat (map escape_char s)) \<le> 6 * length s"
    by (induction s) (auto simp: add_le_mono)
  then show ?thesis by (simp add: quote_string_def)
qed

lemma number_to_string_1: "length (number_to_string 1) = 1"
  by (simp add: number_to_string_def decimals_integer is_integer_def plain_range_def plain_digits_def
      nat_digits.simps)

lemma stored_example_text:
  "length (envelope (enc_messages stored_example)) \<le> MAX_STORED_MESSAGES_BYTES"
proof -
  let ?q = "\<lambda>s. length (quote_string s)"
  note q = length_quote_string [of "''version''"] length_quote_string [of "''data''"]
    length_quote_string [of "''key''"] length_quote_string [of "''k''"]
    length_quote_string [of "''from''"] length_quote_string [of "''user''"]
    length_quote_string [of "''versions''"] length_quote_string [of "''id''"]
    length_quote_string [of "''v''"] length_quote_string [of "''content''"]
    length_quote_string [of "''hi''"]
  show ?thesis
    using q
    by (simp add: envelope_def JSON_stringify_def STORAGE_VERSION_def number_to_string_1 enc_messages_def
      stored_example_def enc_message_def enc_role_def enc_version_def createUserMessage_def
      createMessageVersion_def opt_field_def MAX_STORED_MESSAGES_BYTES_def)
qed

theorem messages_save_load_witness:
  "loadMessages messagesSchema (\<lambda>_. True) (\<lambda>s. s) (\<lambda>i k. 0) (\<lambda>k. 0)
     (saveMessages messagesSchema (\<lambda>_. True) stored_example Map.empty) =
   (saveMessages messagesSchema (\<lambda>_. True) stored_example Map.empty, Some stored_example)"
  by (rule messages_save_load [OF storage_schema.message_schema_axioms stored_example_stable])
     (simp_all add: stored_example_text)







text \<open>
  C26: collapsing a text of at least two thousand characters cuts it at the earliest of the last
  occurrences of its repeated headings, those that occur three times or more, so that each of them
  is still in what is kept; any other text is left alone.
\<close>

theorem collapse_keeps_last_sections:
  "collapseRepeatedSectionSnapshots text =
     (let starts = so_index ` {x. repeated text x \<and> last_of_heading text x}
      in if length text < 2000 \<or> starts = {} then text else drop (Min starts) text)"
  unfolding collapseRepeatedSectionSnapshots_def findLastRepeatedSectionRunStart_def
    run_starts [symmetric] MIN_PREFIX_COLLAPSE_LENGTH_def sliceFrom_def
  by (simp add: Let_def)








section \<open>The contract of the configuration schemas\<close>

definition printable_config :: "PartialConfig \<Rightarrow> bool" where
  "printable_config c \<longleftrightarrow>
     opt_printable (pc_temperature c) \<and> opt_printable (pc_top_p c) \<and> opt_printable (pc_max_tokens c) \<and>
     opt_printable (pc_frequency_penalty c) \<and> opt_printable (pc_presence_penalty c) \<and>
     opt_printable (Option.bind (pc_seed c) id)"

lemma distinct_enc_config: "enc_config c = JObj kvs \<Longrightarrow> distinct (map fst kvs)"
  unfolding enc_config_def
  by (drule json.inject(5) [THEN iffD1], erule subst, intro fields_intros) simp_all

lemma printable_enc_config:
  assumes "printable_config c"
  shows "printable (enc_config c)"
proof -
  have "\<forall>y. pc_seed c = Some y \<longrightarrow> printable (enc_seed y)"
    using assms by (auto simp: printable_config_def enc_seed_def opt_printable_iff split: option.split)
  then show ?thesis
    using assms distinct_enc_config [of c]
    by (simp add: enc_config_def printable_config_def opt_printable_iff del: map_append)
qed

locale config_schema =
  fixes schema :: "json \<Rightarrow> PartialConfig option"
  assumes accepts_config: "schema (enc_config c) = Some c"
begin

lemma load_saved:
  assumes "printable_config c" "fits (st(KEY_CONFIG \<mapsto> envelope (enc_config c)))"
  shows "loadConfig schema (saveConfig schema fits c st) = c"
    "k \<noteq> KEY_CONFIG \<Longrightarrow> saveConfig schema fits c st k = st k"
proof -
  have s: "saveConfig schema fits c st = st(KEY_CONFIG \<mapsto> envelope (enc_config c))"
    using assms(2) accepts_config
    by (simp add: saveConfig_def writeStoredValue_def setItem_def envelope_def)
  show "loadConfig schema (saveConfig schema fits c st) = c"
    unfolding s using parse_envelope [OF printable_enc_config [OF assms(1)]]
    by (simp add: loadConfig_def readStoredValue_def getItem_def envelope_not_Nil falsy_def
        unwrap_envelope accepts_config)
  show "k \<noteq> KEY_CONFIG \<Longrightarrow> saveConfig schema fits c st k = st k"
    by (simp add: s)
qed

end

interpretation storage_config: config_schema playgroundConfigSchema
  by unfold_locales (rule config_enc)

text \<open>A complete configuration as the partial one that is stored.\<close>

definition full_config :: "PlaygroundConfig \<Rightarrow> PartialConfig" where
  "full_config c = \<lparr>pc_model = Some (cfg_model c), pc_group = Some (cfg_group c),
     pc_temperature = Some (cfg_temperature c), pc_top_p = Some (cfg_top_p c),
     pc_max_tokens = Some (cfg_max_tokens c), pc_frequency_penalty = Some (cfg_frequency_penalty c),
     pc_presence_penalty = Some (cfg_presence_penalty c), pc_seed = Some (cfg_seed c),
     pc_stream = Some (cfg_stream c)\<rparr>"

text \<open>
  C27: a complete configuration that was saved within the quota is the initial configuration of
  the next session, and saving it leaves messages and parameter switches untouched.
\<close>

theorem config_save_load:
  assumes "config_schema schema" "printable_config (full_config cfg)"
    "fits (st(KEY_CONFIG \<mapsto> envelope (enc_config (full_config cfg))))"
  shows "getInitialPlaygroundConfig schema (saveConfig schema fits (full_config cfg) st) = cfg \<and>
         saveConfig schema fits (full_config cfg) st KEY_MESSAGES = st KEY_MESSAGES \<and>
         saveConfig schema fits (full_config cfg) st KEY_PARAMETER_ENABLED = st KEY_PARAMETER_ENABLED"
  using config_schema.load_saved [OF assms(1,2), of fits st, OF assms(3)]
  by (simp add: getInitialPlaygroundConfig_def full_config_def KEY_CONFIG_def KEY_MESSAGES_def
      KEY_PARAMETER_ENABLED_def)

lemma printable_default: "printable_config (full_config (DEFAULT_CONFIG\<lparr>cfg_temperature := 1\<rparr>))"
  using printable_of_int [of 0] printable_of_int [of 1] printable_of_int [of 4096]
  by (simp add: printable_config_def full_config_def DEFAULT_CONFIG_def opt_printable_def)

theorem config_save_load_witness:
  "getInitialPlaygroundConfig playgroundConfigSchema
     (saveConfig playgroundConfigSchema (\<lambda>_. True) (full_config (DEFAULT_CONFIG\<lparr>cfg_temperature := 1\<rparr>))
        Map.empty) = DEFAULT_CONFIG\<lparr>cfg_temperature := 1\<rparr>"
  using config_save_load [OF storage_config.config_schema_axioms printable_default] by simp

end
