(* ===== verification/Stream_Protocol.thy ===== *)
theory Stream_Protocol
  imports Storage_Laws
begin

text \<open>
  What arrives from the server: \<open>lib/streaming/stream-utils.ts\<close>,
  \<open>lib/streaming/request-error-utils.ts\<close>, and the pure helpers of \<open>hooks/use-chat-handler.ts\<close>
  (\<open>mergePendingStreamChunk\<close>, \<open>getDisplayError\<close>).

  The payloads are parsed with \<open>JSON_parse\<close>. Their string fields have the types the interfaces
  \<open>ChatCompletionChunk\<close> and \<open>StreamErrorPayload\<close> declare; a field of another JSON type counts as
  missing.
\<close>

section \<open>\<open>stream-utils.ts\<close>\<close>

definition STREAM_DONE_MESSAGE :: string where "STREAM_DONE_MESSAGE = ''[DONE]''"
definition STREAM_CLOSED_READY_STATE :: number where "STREAM_CLOSED_READY_STATE = 2"

type_synonym StreamMessageUpdate = "StreamChunkType \<times> string"

record StreamErrorDetails =
  sd_errorCode :: "string option"
  sd_errorMessage :: string

text \<open>A truthy string field, \<open>None\<close> when it is missing or empty.\<close>

definition text_prop :: "string \<Rightarrow> json \<Rightarrow> string option" where
  "text_prop k j = (case get_prop k j of Some (JStr (c # cs)) \<Rightarrow> Some (c # cs) | _ \<Rightarrow> None)"

definition truthy_prop :: "string \<Rightarrow> json \<Rightarrow> json option" where
  "truthy_prop k j = (case get_prop k j of Some v \<Rightarrow> if falsy v then None else Some v | None \<Rightarrow> None)"

definition parseStreamErrorDetails :: "string option \<Rightarrow> StreamErrorDetails" where
  "parseStreamErrorDetails data =
     (let fallbackMessage = (case data of None \<Rightarrow> API_REQUEST_ERROR | Some d \<Rightarrow> or_string d API_REQUEST_ERROR);
          fallback = \<lparr>sd_errorCode = None, sd_errorMessage = fallbackMessage\<rparr>
      in case data of
           None \<Rightarrow> fallback
         | Some d \<Rightarrow>
             if d = [] then fallback
             else (case JSON_parse d of
                     None \<Rightarrow> fallback
                   | Some parsed \<Rightarrow>
                       (case truthy_prop ''error'' parsed of
                          None \<Rightarrow> fallback
                        | Some err \<Rightarrow>
                            \<lparr>sd_errorCode = text_prop ''code'' err,
                             sd_errorMessage = nullish (text_prop ''message'' err) fallbackMessage\<rparr>)))"

text \<open>\<open>x?.[0]\<close> on a parsed value.\<close>

definition index_0 :: "json option \<Rightarrow> json option" where
  "index_0 x = (case x of Some (JArr (v # _)) \<Rightarrow> Some v | Some (JObj kvs) \<Rightarrow> map_of kvs ''0'' | _ \<Rightarrow> None)"

definition parseStreamMessageUpdates :: "string \<Rightarrow> js_error + StreamMessageUpdate list" where
  "parseStreamMessageUpdates data =
     (case JSON_parse data of
        None \<Rightarrow> Inl SyntaxError
      | Some JNull \<Rightarrow> Inl TypeError
      | Some chunk \<Rightarrow>
          (case Option.bind (index_0 (get_prop ''choices'' chunk)) (truthy_prop ''delta'') of
             None \<Rightarrow> Inr []
           | Some delta \<Rightarrow>
               Inr ((case text_prop ''reasoning_content'' delta of
                       None \<Rightarrow> [] | Some c \<Rightarrow> [(ReasoningChunk, c)]) @
                    (case text_prop ''content'' delta of
                       None \<Rightarrow> [] | Some c \<Rightarrow> [(ContentChunk, c)]))))"

definition isStreamDoneMessage :: "string \<Rightarrow> bool" where
  "isStreamDoneMessage data \<longleftrightarrow> data = STREAM_DONE_MESSAGE"

definition isStreamClosedReadyState :: "number option \<Rightarrow> bool" where
  "isStreamClosedReadyState readyState \<longleftrightarrow> readyState = Some STREAM_CLOSED_READY_STATE"

definition getStreamReadyStateError :: "number option \<Rightarrow> number option \<Rightarrow> string option" where
  "getStreamReadyStateError eventReadyState status =
     (case (eventReadyState, status) of
        (Some rs, Some st) \<Rightarrow>
          if rs \<ge> STREAM_CLOSED_READY_STATE \<and> st \<noteq> 200
          then Some (''HTTP '' @ number_to_string st @ '': '' @ CONNECTION_CLOSED) else None
      | _ \<Rightarrow> None)"

section \<open>\<open>request-error-utils.ts\<close>\<close>

record RequestErrorData =
  red_error_code :: "string option option"
  red_message :: "string option"

record RequestErrorLike =
  rel_message :: "string option"
  rel_response_data :: "RequestErrorData option option"

definition parseRequestErrorDetails :: "RequestErrorLike option \<Rightarrow> StreamErrorDetails" where
  "parseRequestErrorDetails requestError =
     (let data = Option.bind requestError (\<lambda>e. Option.bind (rel_response_data e) id);
          code = Option.bind data (\<lambda>d. Option.bind (red_error_code d) id)
      in \<lparr>sd_errorCode = (if code = Some [] then None else code),
          sd_errorMessage =
            or_string (nullish (Option.bind data red_message) [])
              (or_string (nullish (Option.bind requestError rel_message) []) API_REQUEST_ERROR)\<rparr>)"

section \<open>Helpers of \<open>use-chat-handler.ts\<close>\<close>

definition KNOWN_ERROR_MESSAGES :: "string list" where
  "KNOWN_ERROR_MESSAGES =
     [API_REQUEST_ERROR, NETWORK_ERROR, PARSE_ERROR, STREAM_START_ERROR, CONNECTION_CLOSED, INTERRUPTED]"

definition mergePendingStreamChunk :: "string \<Rightarrow> string \<Rightarrow> string" where
  "mergePendingStreamChunk currentChunk nextChunk =
     (if currentChunk = [] \<or> \<not> startsWith nextChunk currentChunk then currentChunk @ nextChunk
      else nextChunk)"

definition getDisplayError :: "translation \<Rightarrow> string \<Rightarrow> string" where
  "getDisplayError t error =
     (if error \<in> set KNOWN_ERROR_MESSAGES then t error
      else let connectionClosedSuffix = '': '' @ CONNECTION_CLOSED
           in if endsWith error connectionClosedSuffix
              then slice error 0 (length error - length CONNECTION_CLOSED) @ t CONNECTION_CLOSED
              else error)"

section \<open>Lemmas\<close>

lemma mergePending_eq: "mergePendingStreamChunk = merge_chunk"
  by (intro ext) (simp add: mergePendingStreamChunk_def merge_chunk_def startsWith_def)

text \<open>The updates of a message come reasoning first, and no chunk is empty.\<close>

lemma text_prop_not_Nil: "text_prop k j = Some c \<Longrightarrow> c \<noteq> []"
  by (auto simp: text_prop_def split: option.splits json.splits list.splits)

lemma updates_not_Nil:
  "parseStreamMessageUpdates data = Inr us \<Longrightarrow> (ty, c) \<in> set us \<Longrightarrow> c \<noteq> []"
  by (auto simp: parseStreamMessageUpdates_def split: option.splits json.splits
      dest: text_prop_not_Nil)

text \<open>The message of a delta, as the server writes it.\<close>

definition delta_message :: "string \<Rightarrow> string" where
  "delta_message text = JSON_stringify (JObj [(''choices'', JArr [JObj [(''delta'',
     JObj [(''content'', JStr text)])]])])"

lemma parse_delta_message:
  "parseStreamMessageUpdates (delta_message text) = Inr (if text = [] then [] else [(ContentChunk, text)])"
proof -
  have "JSON_parse (delta_message text) = Some (JObj [(''choices'', JArr [JObj [(''delta'',
     JObj [(''content'', JStr text)])]])])"
    unfolding delta_message_def by (rule js_json.parse_stringify) simp
  then show ?thesis
    by (cases "text") (simp_all add: parseStreamMessageUpdates_def index_0_def get_prop_def truthy_prop_def falsy_def
        text_prop_def)
qed

lemma delta_message_not_done: "\<not> isStreamDoneMessage (delta_message text)"
  by (simp add: isStreamDoneMessage_def STREAM_DONE_MESSAGE_def delta_message_def JSON_stringify_def)

lemma display_status_error:
  "getStreamReadyStateError rs st = Some e \<Longrightarrow>
   \<exists>code. st = Some code \<and> code \<noteq> 200 \<and>
     getDisplayError t e = ''HTTP '' @ number_to_string code @ '': '' @ t CONNECTION_CLOSED"
proof -
  assume "getStreamReadyStateError rs st = Some e"
  then obtain code where c: "st = Some code" "code \<noteq> 200"
    and e: "e = ''HTTP '' @ number_to_string code @ '': '' @ CONNECTION_CLOSED"
    by (auto simp: getStreamReadyStateError_def split: option.splits if_splits)
  have "e \<notin> set KNOWN_ERROR_MESSAGES"
    unfolding e by (simp add: KNOWN_ERROR_MESSAGES_def API_REQUEST_ERROR_def NETWORK_ERROR_def
        PARSE_ERROR_def STREAM_START_ERROR_def CONNECTION_CLOSED_def INTERRUPTED_def)
  moreover have "endsWith e ('': '' @ CONNECTION_CLOSED)"
    unfolding e endsWith_def by (simp add: suffix_def)
  moreover have "slice (a @ b) 0 (length (a @ b) - length b) = a" for a b :: string
    by (simp add: slice_def)
  from this [of "''HTTP '' @ number_to_string code @ '': ''" CONNECTION_CLOSED]
  have "slice e 0 (length e - length CONNECTION_CLOSED) = ''HTTP '' @ number_to_string code @ '': ''"
    by (simp add: e)
  ultimately have "getDisplayError t e = ''HTTP '' @ number_to_string code @ '': '' @ t CONNECTION_CLOSED"
    by (simp add: getDisplayError_def Let_def)
  then show ?thesis using c by blast
qed

end
