(* ===== verification/Session.thy ===== *)
theory Session
  imports Stream_Protocol
begin

text \<open>
  The playground as a running session: the hooks \<open>use-stream-request.ts\<close>,
  \<open>use-chat-handler.ts\<close>, \<open>use-playground-state.ts\<close>, \<open>use-playground-conversation.ts\<close>,
  \<open>use-playground-options.ts\<close>, \<open>use-message-action-guard.ts\<close> and their wiring in
  \<open>index.tsx\<close>.

  The React state and the refs of all hooks are one record. A state updater is applied at once,
  in the order the code issues them. \<open>SSE\<close> objects and abort controllers are numbered in
  creation order; \<open>ss_closed\<close> and \<open>ss_aborted\<close> record the calls of \<open>close()\<close> and \<open>abort()\<close>.
  A timer is a flag; its callback is a step that is enabled while the flag is set.
\<close>

section \<open>State\<close>

text \<open>What the handlers use and do not implement: translation, schemas and the storage quota.\<close>

record services =
  sv_t :: translation
  sv_messages :: "json \<Rightarrow> Message list option"
  sv_config :: "json \<Rightarrow> PartialConfig option"
  sv_enabled :: "json \<Rightarrow> PartialEnabled option"
  sv_fits :: "store \<Rightarrow> bool"

text \<open>
  What one handler call reads: identifiers, the time of submission, the further clock readings,
  and whether \<open>source.stream()\<close> returns without throwing.
\<close>

record env =
  e_ids :: id_source
  e_now :: number
  e_clk :: clock
  e_starts :: bool

record session =
  ss_messages :: "Message list"
  ss_editingMessageKey :: "string option"
  ss_config :: PlaygroundConfig
  ss_parameterEnabled :: ParameterEnabled
  ss_models :: "ModelOption list"
  ss_groups :: "GroupOption list"
  ss_isLoadingMessages :: bool
  ss_hasLoadedMessages :: bool
  ss_latestMessages :: "Message list"
  ss_saveTimer :: bool
  ss_store :: store
  ss_saved :: "Message list"
  ss_isStreaming :: bool
  ss_source :: "nat option"
  ss_isStreamComplete :: bool
  ss_sources :: nat
  ss_closed :: "nat list"
  ss_isRequesting :: bool
  ss_abortController :: "nat option"
  ss_requestId :: nat
  ss_inflight :: "nat list"
  ss_aborted :: "nat list"
  ss_pendingContent :: string
  ss_pendingReasoning :: string
  ss_flushTimer :: bool
  ss_sent :: "ChatCompletionRequest list"
  ss_toasts :: "string list"

section \<open>\<open>use-playground-state.ts\<close>\<close>

definition initial_session :: "services \<Rightarrow> store \<Rightarrow> session" where
  "initial_session sv st =
     \<lparr>ss_messages = [], ss_editingMessageKey = None,
      ss_config = getInitialPlaygroundConfig (sv_config sv) st,
      ss_parameterEnabled = getInitialParameterEnabled (sv_enabled sv) st,
      ss_models = [], ss_groups = [],
      ss_isLoadingMessages = True, ss_hasLoadedMessages = False, ss_latestMessages = [],
      ss_saveTimer = False, ss_store = st, ss_saved = [], ss_isStreaming = False, ss_source = None,
      ss_isStreamComplete = False, ss_sources = 0, ss_closed = [], ss_isRequesting = False,
      ss_abortController = None, ss_requestId = 0, ss_inflight = [], ss_aborted = [],
      ss_pendingContent = [], ss_pendingReasoning = [], ss_flushTimer = False,
      ss_sent = [], ss_toasts = []\<rparr>"

definition persistMessages :: "Message list \<Rightarrow> session \<Rightarrow> session" where
  "persistMessages messagesToSave s =
     (let s1 = s\<lparr>ss_latestMessages := messagesToSave\<rparr>
      in if \<not> ss_hasLoadedMessages s1 then s1 else s1\<lparr>ss_saveTimer := True\<rparr>)"

text \<open>The callback of the save timer; \<open>ss_saved\<close> records what was last handed to storage.\<close>

definition fireSaveTimer :: "services \<Rightarrow> session \<Rightarrow> session" where
  "fireSaveTimer sv s =
     s\<lparr>ss_saveTimer := False, ss_saved := ss_latestMessages s,
       ss_store := saveMessages (sv_messages sv) (sv_fits sv) (ss_latestMessages s) (ss_store s)\<rparr>"

text \<open>The effect that loads the stored messages once, in a timeout of 0 ms.\<close>

definition loadStoredMessages :: "services \<Rightarrow> (nat \<Rightarrow> clock) \<Rightarrow> clock \<Rightarrow> session \<Rightarrow> session" where
  "loadStoredMessages sv clks clk s =
     (case loadMessages (sv_messages sv) (sv_fits sv) (sv_t sv) clks clk (ss_store s) of
        (st, loaded) \<Rightarrow>
          (let loadedMessages = nullish loaded []
           in s\<lparr>ss_store := st, ss_latestMessages := loadedMessages, ss_saved := loadedMessages,
                ss_hasLoadedMessages := True, ss_messages := loadedMessages,
                ss_isLoadingMessages := False\<rparr>))"

text \<open>The cleanup of the save timer when the playground is left.\<close>

definition leavePlayground :: "services \<Rightarrow> session \<Rightarrow> session" where
  "leavePlayground sv s = (if ss_saveTimer s then fireSaveTimer sv s else s)"

datatype config_field =
  CModel string | CGroup string | CTemperature number | CTopP number | CMaxTokens number
| CFrequencyPenalty number | CPresencePenalty number | CSeed "number option" | CStream bool

fun set_config :: "config_field \<Rightarrow> PlaygroundConfig \<Rightarrow> PlaygroundConfig" where
  "set_config (CModel v) c = c\<lparr>cfg_model := v\<rparr>"
| "set_config (CGroup v) c = c\<lparr>cfg_group := v\<rparr>"
| "set_config (CTemperature v) c = c\<lparr>cfg_temperature := v\<rparr>"
| "set_config (CTopP v) c = c\<lparr>cfg_top_p := v\<rparr>"
| "set_config (CMaxTokens v) c = c\<lparr>cfg_max_tokens := v\<rparr>"
| "set_config (CFrequencyPenalty v) c = c\<lparr>cfg_frequency_penalty := v\<rparr>"
| "set_config (CPresencePenalty v) c = c\<lparr>cfg_presence_penalty := v\<rparr>"
| "set_config (CSeed v) c = c\<lparr>cfg_seed := v\<rparr>"
| "set_config (CStream v) c = c\<lparr>cfg_stream := v\<rparr>"

definition updateConfig :: "services \<Rightarrow> config_field \<Rightarrow> session \<Rightarrow> session" where
  "updateConfig sv field s =
     (let updated = set_config field (ss_config s)
      in s\<lparr>ss_config := updated,
           ss_store := saveConfig (sv_config sv) (sv_fits sv) (full_config updated) (ss_store s)\<rparr>)"

datatype parameter_key =
  KTemperature | KTopP | KMaxTokens | KFrequencyPenalty | KPresencePenalty | KSeed

fun set_enabled :: "parameter_key \<Rightarrow> bool \<Rightarrow> ParameterEnabled \<Rightarrow> ParameterEnabled" where
  "set_enabled KTemperature v e = e\<lparr>en_temperature := v\<rparr>"
| "set_enabled KTopP v e = e\<lparr>en_top_p := v\<rparr>"
| "set_enabled KMaxTokens v e = e\<lparr>en_max_tokens := v\<rparr>"
| "set_enabled KFrequencyPenalty v e = e\<lparr>en_frequency_penalty := v\<rparr>"
| "set_enabled KPresencePenalty v e = e\<lparr>en_presence_penalty := v\<rparr>"
| "set_enabled KSeed v e = e\<lparr>en_seed := v\<rparr>"

definition full_enabled :: "ParameterEnabled \<Rightarrow> PartialEnabled" where
  "full_enabled e = \<lparr>pe_temperature = Some (en_temperature e), pe_top_p = Some (en_top_p e),
     pe_max_tokens = Some (en_max_tokens e), pe_frequency_penalty = Some (en_frequency_penalty e),
     pe_presence_penalty = Some (en_presence_penalty e), pe_seed = Some (en_seed e)\<rparr>"

definition updateParameterEnabled :: "services \<Rightarrow> parameter_key \<Rightarrow> bool \<Rightarrow> session \<Rightarrow> session" where
  "updateParameterEnabled sv key v s =
     (let updated = set_enabled key v (ss_parameterEnabled s)
      in s\<lparr>ss_parameterEnabled := updated,
           ss_store := saveParameterEnabled (sv_enabled sv) (sv_fits sv) (full_enabled updated) (ss_store s)\<rparr>)"

definition updateMessages :: "MessageStateUpdater \<Rightarrow> session \<Rightarrow> session" where
  "updateMessages updater s =
     (let newMessages = applyMessageStateUpdate (ss_messages s) updater
      in (persistMessages newMessages s)\<lparr>ss_messages := newMessages\<rparr>)"

definition clearMessages :: "session \<Rightarrow> session" where
  "clearMessages s = updateMessages (SetMessages []) s"

definition resetConfig :: "services \<Rightarrow> session \<Rightarrow> session" where
  "resetConfig sv s =
     s\<lparr>ss_config := DEFAULT_CONFIG, ss_parameterEnabled := DEFAULT_PARAMETER_ENABLED,
       ss_store := saveParameterEnabled (sv_enabled sv) (sv_fits sv) (full_enabled DEFAULT_PARAMETER_ENABLED)
         (saveConfig (sv_config sv) (sv_fits sv) (full_config DEFAULT_CONFIG) (ss_store s))\<rparr>"

section \<open>\<open>use-chat-handler.ts\<close>: updates, completion and errors\<close>

abbreviation onMessageUpdate :: "(Message list \<Rightarrow> Message list) \<Rightarrow> session \<Rightarrow> session" where
  "onMessageUpdate f \<equiv> updateMessages (UpdateMessages f)"

text \<open>The updater of a flush; the reasoning chunk reads the clock once.\<close>

definition applyPendingChunks :: "clock \<Rightarrow> string \<Rightarrow> string \<Rightarrow> Message \<Rightarrow> Message" where
  "applyPendingChunks clk reasoning content message =
     (let m1 = (if reasoning \<noteq> [] then applyStreamingChunk clk message ReasoningChunk reasoning
                else message)
      in if content \<noteq> [] then applyStreamingChunk (\<lambda>k. clk (1 + k)) m1 ContentChunk content else m1)"

definition flushStreamUpdates :: "clock \<Rightarrow> session \<Rightarrow> session" where
  "flushStreamUpdates clk s =
     (let s1 = s\<lparr>ss_flushTimer := False\<rparr>;
          reasoning = ss_pendingReasoning s; content = ss_pendingContent s
      in if reasoning = [] \<and> content = [] then s1
         else onMessageUpdate (\<lambda>prev. updateLastAssistantMessage prev
                (applyPendingChunks clk reasoning content))
                (s1\<lparr>ss_pendingContent := [], ss_pendingReasoning := []\<rparr>))"

definition scheduleStreamFlush :: "session \<Rightarrow> session" where
  "scheduleStreamFlush s = (if ss_flushTimer s then s else s\<lparr>ss_flushTimer := True\<rparr>)"

definition handleStreamUpdate :: "StreamMessageUpdate \<Rightarrow> session \<Rightarrow> session" where
  "handleStreamUpdate update s =
     (case update of (ty, chunk) \<Rightarrow>
        scheduleStreamFlush
          (case ty of
             ReasoningChunk \<Rightarrow>
               s\<lparr>ss_pendingReasoning := mergePendingStreamChunk (ss_pendingReasoning s) chunk\<rparr>
           | ContentChunk \<Rightarrow>
               s\<lparr>ss_pendingContent := mergePendingStreamChunk (ss_pendingContent s) chunk\<rparr>))"

definition handleStreamComplete :: "clock \<Rightarrow> session \<Rightarrow> session" where
  "handleStreamComplete clk s =
     onMessageUpdate (\<lambda>prev. updateLastAssistantMessage prev (\<lambda>message.
         if isAssistantMessageFinal message then message
         else completeAssistantMessage (\<lambda>k. clk (3 + k)) message))
       ((flushStreamUpdates clk s)\<lparr>ss_isRequesting := False\<rparr>)"

definition handleStreamError ::
  "services \<Rightarrow> clock \<Rightarrow> string \<Rightarrow> string option \<Rightarrow> session \<Rightarrow> session" where
  "handleStreamError sv clk error errorCode s =
     (let s1 = (flushStreamUpdates clk s)\<lparr>ss_isRequesting := False\<rparr>;
          displayError = getDisplayError (sv_t sv) error;
          s2 = s1\<lparr>ss_toasts := ss_toasts s1 @ [displayError]\<rparr>;
          errorTitle = sv_t sv API_REQUEST_ERROR
      in onMessageUpdate (\<lambda>prev. updateAssistantMessageWithError (\<lambda>k. clk (3 + k)) prev
           displayError errorCode errorTitle) s2)"

section \<open>\<open>use-stream-request.ts\<close>\<close>

definition closeActiveStream :: "nat option \<Rightarrow> session \<Rightarrow> session" where
  "closeActiveStream source s =
     (let s1 = (case orelse source (ss_source s) of
                  None \<Rightarrow> s | Some i \<Rightarrow> s\<lparr>ss_closed := i # ss_closed s\<rparr>)
      in if source = None \<or> ss_source s = source
         then s1\<lparr>ss_source := None, ss_isStreaming := False\<rparr> else s1)"

text \<open>\<open>handleError\<close>, the local error handler of a source.\<close>

definition sourceError ::
  "services \<Rightarrow> clock \<Rightarrow> nat \<Rightarrow> string \<Rightarrow> string option \<Rightarrow> session \<Rightarrow> session" where
  "sourceError sv clk i errorMessage errorCode s =
     (if \<not> ss_isStreamComplete s
      then closeActiveStream (Some i) (handleStreamError sv clk errorMessage errorCode s) else s)"

definition onSourceMessage :: "services \<Rightarrow> clock \<Rightarrow> nat \<Rightarrow> string \<Rightarrow> session \<Rightarrow> session" where
  "onSourceMessage sv clk i data s =
     (if isStreamDoneMessage data
      then handleStreamComplete clk (closeActiveStream (Some i) (s\<lparr>ss_isStreamComplete := True\<rparr>))
      else (case parseStreamMessageUpdates data of
              Inr updates \<Rightarrow> foldl (\<lambda>s update. handleStreamUpdate update s) s updates
            | Inl _ \<Rightarrow> sourceError sv clk i PARSE_ERROR None s))"

definition onSourceError ::
  "services \<Rightarrow> clock \<Rightarrow> nat \<Rightarrow> number option \<Rightarrow> string option \<Rightarrow> session \<Rightarrow> session" where
  "onSourceError sv clk i readyState data s =
     (if \<not> isStreamClosedReadyState readyState
      then let details = parseStreamErrorDetails data
           in sourceError sv clk i (sd_errorMessage details) (sd_errorCode details) s
      else s)"

definition onSourceReadyState ::
  "services \<Rightarrow> clock \<Rightarrow> nat \<Rightarrow> number option \<Rightarrow> number option \<Rightarrow> session \<Rightarrow> session" where
  "onSourceReadyState sv clk i readyState status s =
     (case getStreamReadyStateError readyState status of
        None \<Rightarrow> s
      | Some errorMessage \<Rightarrow>
          if errorMessage = [] then s else sourceError sv clk i errorMessage None s)"

definition sendStreamRequest :: "services \<Rightarrow> env \<Rightarrow> ChatCompletionRequest \<Rightarrow> session \<Rightarrow> session" where
  "sendStreamRequest sv ev payload s =
     (let s1 = (case ss_source s of None \<Rightarrow> s | Some i \<Rightarrow> s\<lparr>ss_closed := i # ss_closed s\<rparr>);
          source = ss_sources s1;
          s2 = s1\<lparr>ss_sources := source + 1, ss_source := Some source, ss_isStreamComplete := False,
                  ss_isStreaming := True\<rparr>
      in if e_starts ev then s2\<lparr>ss_sent := ss_sent s2 @ [payload]\<rparr>
         else closeActiveStream (Some source)
                (handleStreamError sv (e_clk ev) STREAM_START_ERROR None s2))"

section \<open>\<open>use-chat-handler.ts\<close>: requests\<close>

definition sendStreamingChat :: "services \<Rightarrow> env \<Rightarrow> Message list \<Rightarrow> session \<Rightarrow> session" where
  "sendStreamingChat sv ev messages s =
     (let s1 = s\<lparr>ss_isRequesting := True\<rparr>;
          payload = buildChatCompletionPayload messages (ss_config s) (ss_parameterEnabled s)
      in sendStreamRequest sv ev payload s1)"

text \<open>\<open>sendNonStreamingChat\<close> up to its \<open>await\<close>, and from the settled promise on.\<close>

definition sendNonStreamingChat :: "Message list \<Rightarrow> session \<Rightarrow> session" where
  "sendNonStreamingChat messages s =
     (let payload = buildChatCompletionPayload messages (ss_config s) (ss_parameterEnabled s);
          requestId = ss_requestId s + 1
      in s\<lparr>ss_requestId := requestId, ss_abortController := Some requestId, ss_isRequesting := True,
           ss_inflight := requestId # ss_inflight s, ss_sent := ss_sent s @ [payload]\<rparr>)"

definition settleNonStreamingChat ::
  "services \<Rightarrow> clock \<Rightarrow> nat \<Rightarrow> RequestErrorLike option + ChatCompletionResponse \<Rightarrow> session \<Rightarrow> session" where
  "settleNonStreamingChat sv clk requestId outcome s =
     (let s0 = s\<lparr>ss_inflight := removeAll requestId (ss_inflight s)\<rparr>;
          s1 = (if requestId \<in> set (ss_aborted s0) then s0
                else case outcome of
                       Inr response \<Rightarrow>
                         if \<not> hasChatCompletionChoice response
                         then handleStreamError sv clk API_REQUEST_ERROR None s0
                         else onMessageUpdate (\<lambda>prev. updateLastAssistantMessage prev (\<lambda>message.
                                nullish (applyChatCompletionResponse clk message response) message)) s0
                     | Inl error \<Rightarrow>
                         let details = parseRequestErrorDetails error
                         in handleStreamError sv clk (sd_errorMessage details) (sd_errorCode details) s0)
      in if ss_requestId s1 = requestId
         then s1\<lparr>ss_abortController := None, ss_isRequesting := False\<rparr> else s1)"

definition sendChat :: "services \<Rightarrow> env \<Rightarrow> Message list \<Rightarrow> session \<Rightarrow> session" where
  "sendChat sv ev messages s =
     (if cfg_stream (ss_config s) then sendStreamingChat sv ev messages s
      else sendNonStreamingChat messages s)"

definition stopGeneration :: "clock \<Rightarrow> session \<Rightarrow> session" where
  "stopGeneration clk s =
     (let s1 = flushStreamUpdates clk (closeActiveStream None s);
          s2 = (case ss_abortController s1 of
                  None \<Rightarrow> s1 | Some k \<Rightarrow> s1\<lparr>ss_aborted := k # ss_aborted s1\<rparr>);
          s3 = s2\<lparr>ss_abortController := None, ss_isRequesting := False\<rparr>
      in onMessageUpdate (\<lambda>prev. updateLastAssistantMessage prev (\<lambda>message.
           if isAssistantMessagePending message
           then completeAssistantMessage (\<lambda>k. clk (3 + k)) message else message)) s3)"

definition isGenerating :: "session \<Rightarrow> bool" where
  "isGenerating s \<longleftrightarrow> ss_isStreaming s \<or> ss_isRequesting s"

section \<open>\<open>use-playground-conversation.ts\<close> and the guards of the components\<close>

definition handleSendMessage :: "services \<Rightarrow> env \<Rightarrow> string \<Rightarrow> session \<Rightarrow> session" where
  "handleSendMessage sv ev text s =
     (let nextMessages = appendUserMessagePair (e_ids ev) (e_now ev) (ss_messages s) text
      in sendChat sv ev nextMessages (updateMessages (SetMessages nextMessages) s))"

definition handleRegenerateMessage :: "services \<Rightarrow> env \<Rightarrow> string \<Rightarrow> session \<Rightarrow> session" where
  "handleRegenerateMessage sv ev key s =
     (case createRegeneratedMessages (e_ids ev) (e_now ev) (ss_messages s) key of
        None \<Rightarrow> s
      | Some nextMessages \<Rightarrow> sendChat sv ev nextMessages (updateMessages (SetMessages nextMessages) s))"

definition handleEditMessage :: "string \<Rightarrow> session \<Rightarrow> session" where
  "handleEditMessage key s = s\<lparr>ss_editingMessageKey := Some key\<rparr>"

definition handleEditOpenChange :: "bool \<Rightarrow> session \<Rightarrow> session" where
  "handleEditOpenChange isOpen s = (if \<not> isOpen then s\<lparr>ss_editingMessageKey := None\<rparr> else s)"

definition applyEdit :: "services \<Rightarrow> env \<Rightarrow> string \<Rightarrow> bool \<Rightarrow> session \<Rightarrow> session" where
  "applyEdit sv ev newContent shouldSubmit s =
     (case ss_editingMessageKey s of
        None \<Rightarrow> s
      | Some key \<Rightarrow>
          if key = [] then s
          else (case applyMessageEdit (e_ids ev) (e_now ev) (ss_messages s) key newContent shouldSubmit of
                  None \<Rightarrow> s
                | Some editResult \<Rightarrow>
                    (let s1 = updateMessages (SetMessages (er_messages editResult))
                                (s\<lparr>ss_editingMessageKey := None\<rparr>)
                     in if shouldSend editResult then sendChat sv ev (er_messages editResult) s1 else s1)))"

definition handleDeleteMessage :: "string \<Rightarrow> session \<Rightarrow> session" where
  "handleDeleteMessage key s =
     updateMessages (UpdateMessages (\<lambda>previousMessages. removeMessageByKey previousMessages key)) s"

definition handleClearMessages :: "session \<Rightarrow> session" where
  "handleClearMessages s = clearMessages (handleEditOpenChange False s)"

definition WAIT_GENERATION :: string where
  "WAIT_GENERATION = ''Please wait for the current generation to complete''"

definition guardAction :: "services \<Rightarrow> (session \<Rightarrow> session) \<Rightarrow> session \<Rightarrow> session" where
  "guardAction sv action s =
     (if isGenerating s then s\<lparr>ss_toasts := ss_toasts s @ [sv_t sv WAIT_GENERATION]\<rparr> else action s)"

text \<open>The submit handler of the input box, which is disabled while a reply is generated.\<close>

definition handleSubmit :: "services \<Rightarrow> env \<Rightarrow> string option \<Rightarrow> session \<Rightarrow> session" where
  "handleSubmit sv ev text s =
     (case getSubmittableInputText text (Some (isGenerating s)) of
        None \<Rightarrow> s | Some submittableText \<Rightarrow> handleSendMessage sv ev submittableText s)"

section \<open>\<open>use-playground-options.ts\<close>\<close>

definition truthy :: "string option \<Rightarrow> bool" where
  "truthy x = (case x of None \<Rightarrow> False | Some v \<Rightarrow> v \<noteq> [])"

definition onModelsData :: "services \<Rightarrow> ModelOption list \<Rightarrow> session \<Rightarrow> session" where
  "onModelsData sv modelsData s =
     (let s1 = s\<lparr>ss_models := modelsData\<rparr>; currentModel = cfg_model (ss_config s);
          fallback = getModelFallback modelsData currentModel
      in if truthy fallback then updateConfig sv (CModel (the fallback)) s1
         else if shouldClearModelForGroup modelsData currentModel then updateConfig sv (CModel []) s1
         else s1)"

definition onGroupsData :: "services \<Rightarrow> GroupOption list \<Rightarrow> session \<Rightarrow> session" where
  "onGroupsData sv groupsData s =
     (let s1 = s\<lparr>ss_groups := groupsData\<rparr>;
          fallback = getGroupFallback groupsData (cfg_group (ss_config s))
      in if truthy fallback then updateConfig sv (CGroup (the fallback)) s1 else s1)"

section \<open>Steps\<close>

text \<open>
  What can happen in a loaded playground. An open source delivers messages; error and ready-state
  events may also come late, from a source that was closed. A promise settles once. The editor's
  save buttons stay enabled while a reply is generated.
\<close>

inductive step :: "services \<Rightarrow> session \<Rightarrow> session \<Rightarrow> bool" for sv :: services where
  submit: "fresh_ids (e_ids ev) (ss_messages s) \<Longrightarrow> step sv s (handleSubmit sv ev text s)"
| selectPrompt: "fresh_ids (e_ids ev) (ss_messages s) \<Longrightarrow> ss_messages s = [] \<Longrightarrow>
    step sv s (handleSendMessage sv ev text s)"
| regenerate: "fresh_ids (e_ids ev) (ss_messages s) \<Longrightarrow>
    step sv s (guardAction sv (handleRegenerateMessage sv ev key) s)"
| openEditor: "step sv s (guardAction sv (handleEditMessage key) s)"
| closeEditor: "step sv s (handleEditOpenChange False s)"
| saveEdit: "fresh_ids (e_ids ev) (ss_messages s) \<Longrightarrow> step sv s (applyEdit sv ev content shouldSubmit s)"
| delete: "step sv s (guardAction sv (handleDeleteMessage key) s)"
| clear: "\<not> isGenerating s \<Longrightarrow> step sv s (handleClearMessages s)"
| stop: "isGenerating s \<Longrightarrow> step sv s (stopGeneration clk s)"
| config: "step sv s (updateConfig sv field s)"
| parameter: "step sv s (updateParameterEnabled sv k v s)"
| models: "step sv s (onModelsData sv modelsData s)"
| groups: "step sv s (onGroupsData sv groupsData s)"
| sourceMessage: "i < ss_sources s \<Longrightarrow> i \<notin> set (ss_closed s) \<Longrightarrow> step sv s (onSourceMessage sv clk i data s)"
| sourceFails: "i < ss_sources s \<Longrightarrow> step sv s (onSourceError sv clk i readyState errorData s)"
| sourceReadyState: "i < ss_sources s \<Longrightarrow> step sv s (onSourceReadyState sv clk i readyState status s)"
| settle: "requestId \<in> set (ss_inflight s) \<Longrightarrow>
    step sv s (settleNonStreamingChat sv clk requestId outcome s)"
| flush: "ss_flushTimer s \<Longrightarrow> step sv s (flushStreamUpdates clk s)"
| save: "ss_saveTimer s \<Longrightarrow> step sv s (fireSaveTimer sv s)"

definition reachable :: "services \<Rightarrow> session \<Rightarrow> session \<Rightarrow> bool" where
  "reachable sv = (step sv)\<^sup>*\<^sup>*"

end
