(* ===== verification/Session_Laws.thy ===== *)
theory Session_Laws
  imports Session
begin

text \<open>
  Invariants of the running playground. The connection part relates the flags, the active source,
  the requests in flight and the pending chunks; the conversation part says which messages may be
  pending; the persistence part says what is still to be saved. Every step keeps all three.
\<close>

section \<open>Invariants\<close>

abbreviation pendingReply :: "Message \<Rightarrow> bool" where
  "pendingReply m \<equiv> isPendingAssistantMessage (Some m)"

definition settled :: "Message list \<Rightarrow> bool" where
  "settled ms \<longleftrightarrow> list_all (\<lambda>m. \<not> pendingReply m) ms"

definition conn_inv :: "session \<Rightarrow> bool" where
  "conn_inv s \<longleftrightarrow>
     ss_isStreaming s = (ss_source s \<noteq> None) \<and>
     (\<forall>i < ss_sources s. i \<in> set (ss_closed s) \<or> ss_source s = Some i) \<and>
     (\<forall>i. ss_source s = Some i \<longrightarrow> i < ss_sources s \<and> i \<notin> set (ss_closed s)) \<and>
     (\<forall>i \<in> set (ss_closed s). i < ss_sources s) \<and>
     (ss_isStreaming s \<or> ss_pendingContent s = [] \<and> ss_pendingReasoning s = [] \<and> \<not> ss_flushTimer s) \<and>
     (ss_flushTimer s \<or> ss_pendingContent s = [] \<and> ss_pendingReasoning s = [])"

definition request_inv :: "session \<Rightarrow> bool" where
  "request_inv s \<longleftrightarrow>
     (\<forall>k \<in> set (ss_inflight s) \<union> set (ss_aborted s). k \<le> ss_requestId s) \<and>
     (\<forall>k. ss_abortController s = Some k \<longrightarrow> k = ss_requestId s \<and> k \<notin> set (ss_aborted s)) \<and>
     (ss_isRequesting s \<longrightarrow> ss_isStreaming s \<or>
        ss_requestId s \<in> set (ss_inflight s) \<and> ss_requestId s \<notin> set (ss_aborted s))"

definition message_inv :: "session \<Rightarrow> bool" where
  "message_inv s \<longleftrightarrow> distinct_keys (ss_messages s) \<and> settled (butlast (ss_messages s)) \<and>
     (isGenerating s \<or> settled (ss_messages s))"

definition save_inv :: "session \<Rightarrow> bool" where
  "save_inv s \<longleftrightarrow> ss_hasLoadedMessages s \<and> ss_latestMessages s = ss_messages s \<and>
     (ss_saveTimer s \<or> ss_saved s = ss_messages s)"

definition session_inv :: "session \<Rightarrow> bool" where
  "session_inv s \<longleftrightarrow> conn_inv s \<and> request_inv s \<and> message_inv s \<and> save_inv s"

section \<open>Frames\<close>

named_theorems session_frame \<open>fields the session operations leave unchanged\<close>

lemma updateMessages_fields [simp, session_frame]:
  "ss_messages (updateMessages u s) = applyMessageStateUpdate (ss_messages s) u"
  "ss_latestMessages (updateMessages u s) = applyMessageStateUpdate (ss_messages s) u"
  "ss_saveTimer (updateMessages u s) = (ss_hasLoadedMessages s \<or> ss_saveTimer s)"
  "ss_editingMessageKey (updateMessages u s) = ss_editingMessageKey s"
  "ss_config (updateMessages u s) = ss_config s"
  "ss_parameterEnabled (updateMessages u s) = ss_parameterEnabled s"
  "ss_hasLoadedMessages (updateMessages u s) = ss_hasLoadedMessages s"
  "ss_saved (updateMessages u s) = ss_saved s"
  "ss_isStreaming (updateMessages u s) = ss_isStreaming s"
  "ss_source (updateMessages u s) = ss_source s"
  "ss_isStreamComplete (updateMessages u s) = ss_isStreamComplete s"
  "ss_sources (updateMessages u s) = ss_sources s"
  "ss_closed (updateMessages u s) = ss_closed s"
  "ss_isRequesting (updateMessages u s) = ss_isRequesting s"
  "ss_abortController (updateMessages u s) = ss_abortController s"
  "ss_requestId (updateMessages u s) = ss_requestId s"
  "ss_inflight (updateMessages u s) = ss_inflight s"
  "ss_aborted (updateMessages u s) = ss_aborted s"
  "ss_pendingContent (updateMessages u s) = ss_pendingContent s"
  "ss_pendingReasoning (updateMessages u s) = ss_pendingReasoning s"
  "ss_flushTimer (updateMessages u s) = ss_flushTimer s"
  by (simp_all add: updateMessages_def persistMessages_def Let_def)

lemma applyMessageStateUpdate_simps [simp]:
  "applyMessageStateUpdate ms (UpdateMessages f) = f ms"
  "applyMessageStateUpdate ms (SetMessages ms') = ms'"
  by (simp_all add: applyMessageStateUpdate_def)

text \<open>A flush in one equation per field: only the messages and the pending chunks change.\<close>

definition flushed :: "clock \<Rightarrow> session \<Rightarrow> Message list" where
  "flushed clk s =
     (if ss_pendingReasoning s = [] \<and> ss_pendingContent s = [] then ss_messages s
      else updateLastAssistantMessage (ss_messages s)
             (applyPendingChunks clk (ss_pendingReasoning s) (ss_pendingContent s)))"

lemma flushStreamUpdates_fields [simp, session_frame]:
  "ss_messages (flushStreamUpdates clk s) = flushed clk s"
  "ss_editingMessageKey (flushStreamUpdates clk s) = ss_editingMessageKey s"
  "ss_config (flushStreamUpdates clk s) = ss_config s"
  "ss_hasLoadedMessages (flushStreamUpdates clk s) = ss_hasLoadedMessages s"
  "ss_saved (flushStreamUpdates clk s) = ss_saved s"
  "ss_isStreaming (flushStreamUpdates clk s) = ss_isStreaming s"
  "ss_source (flushStreamUpdates clk s) = ss_source s"
  "ss_isStreamComplete (flushStreamUpdates clk s) = ss_isStreamComplete s"
  "ss_sources (flushStreamUpdates clk s) = ss_sources s"
  "ss_closed (flushStreamUpdates clk s) = ss_closed s"
  "ss_isRequesting (flushStreamUpdates clk s) = ss_isRequesting s"
  "ss_abortController (flushStreamUpdates clk s) = ss_abortController s"
  "ss_requestId (flushStreamUpdates clk s) = ss_requestId s"
  "ss_inflight (flushStreamUpdates clk s) = ss_inflight s"
  "ss_aborted (flushStreamUpdates clk s) = ss_aborted s"
  "ss_pendingContent (flushStreamUpdates clk s) = []"
  "ss_pendingReasoning (flushStreamUpdates clk s) = []"
  "ss_flushTimer (flushStreamUpdates clk s) = False"
  by (simp_all add: flushStreamUpdates_def flushed_def Let_def)

lemma applyPendingChunks_frame [simp]:
  "m_key (applyPendingChunks clk r c m) = m_key m"
  "m_from (applyPendingChunks clk r c m) = m_from m"
  by (simp_all add: applyPendingChunks_def Let_def)

section \<open>The conversation part\<close>

lemma settled_simps [simp]:
  "settled []" "settled (xs @ ys) \<longleftrightarrow> settled xs \<and> settled ys"
  "settled (m # ms) \<longleftrightarrow> \<not> pendingReply m \<and> settled ms"
  by (simp_all add: settled_def)

lemma settled_butlast: "settled ms \<Longrightarrow> settled (butlast ms)"
  by (auto simp: settled_def list_all_iff dest: in_set_butlastD)

lemma settled_take: "settled ms \<Longrightarrow> settled (take n ms)"
  by (auto simp: settled_def list_all_iff dest: in_set_takeD)

lemma settled_take_butlast: "settled (butlast ms) \<Longrightarrow> n < length ms \<Longrightarrow> settled (take n ms)"
  using settled_take [of "butlast ms" n] by (simp add: take_butlast)

lemma updateLast_inv:
  assumes "\<And>m. m_key (f m) = m_key m" "distinct_keys ms" "settled (butlast ms)"
  shows "distinct_keys (updateLastAssistantMessage ms f)"
    "settled (butlast (updateLastAssistantMessage ms f))"
    "(\<And>m. m_from m = ASSISTANT \<Longrightarrow> \<not> pendingReply (f m)) \<Longrightarrow> settled (updateLastAssistantMessage ms f)"
proof -
  show "distinct_keys (updateLastAssistantMessage ms f)"
    using updateLastAssistantMessage_keys [of f ms, OF assms(1)] assms(2) by (simp add: distinct_keys_def)
  show "settled (butlast (updateLastAssistantMessage ms f))"
    using assms(3) by (cases ms rule: rev_cases) (simp_all add: updateLastAssistantMessage_snoc)
  show "settled (updateLastAssistantMessage ms f)" if "\<And>m. m_from m = ASSISTANT \<Longrightarrow> \<not> pendingReply (f m)"
    using assms(3) that
    by (cases ms rule: rev_cases)
      (auto simp: updateLastAssistantMessage_snoc isPendingAssistantMessage_def)
qed

lemma flushed_inv:
  assumes "distinct_keys (ss_messages s)" "settled (butlast (ss_messages s))"
  shows "distinct_keys (flushed clk s)" "settled (butlast (flushed clk s))"
  using assms by (simp_all add: flushed_def updateLast_inv)

section \<open>Fields of the handlers\<close>

lemma handleStreamComplete_fields [simp, session_frame]:
  "ss_messages (handleStreamComplete clk s) =
     updateLastAssistantMessage (flushed clk s) (\<lambda>message.
       if isAssistantMessageFinal message then message
       else completeAssistantMessage (\<lambda>k. clk (3 + k)) message)"
  "ss_config (handleStreamComplete clk s) = ss_config s"
  "ss_isStreaming (handleStreamComplete clk s) = ss_isStreaming s"
  "ss_source (handleStreamComplete clk s) = ss_source s"
  "ss_sources (handleStreamComplete clk s) = ss_sources s"
  "ss_closed (handleStreamComplete clk s) = ss_closed s"
  "ss_isRequesting (handleStreamComplete clk s) = False"
  "ss_abortController (handleStreamComplete clk s) = ss_abortController s"
  "ss_requestId (handleStreamComplete clk s) = ss_requestId s"
  "ss_inflight (handleStreamComplete clk s) = ss_inflight s"
  "ss_aborted (handleStreamComplete clk s) = ss_aborted s"
  "ss_pendingContent (handleStreamComplete clk s) = []"
  "ss_pendingReasoning (handleStreamComplete clk s) = []"
  "ss_flushTimer (handleStreamComplete clk s) = False"
  by (simp_all add: handleStreamComplete_def)

lemma handleStreamError_fields [simp, session_frame]:
  "ss_messages (handleStreamError sv clk e code s) =
     updateAssistantMessageWithError (\<lambda>k. clk (3 + k)) (flushed clk s) (getDisplayError (sv_t sv) e) code
       (sv_t sv API_REQUEST_ERROR)"
  "ss_config (handleStreamError sv clk e code s) = ss_config s"
  "ss_isStreaming (handleStreamError sv clk e code s) = ss_isStreaming s"
  "ss_source (handleStreamError sv clk e code s) = ss_source s"
  "ss_sources (handleStreamError sv clk e code s) = ss_sources s"
  "ss_closed (handleStreamError sv clk e code s) = ss_closed s"
  "ss_isRequesting (handleStreamError sv clk e code s) = False"
  "ss_abortController (handleStreamError sv clk e code s) = ss_abortController s"
  "ss_requestId (handleStreamError sv clk e code s) = ss_requestId s"
  "ss_inflight (handleStreamError sv clk e code s) = ss_inflight s"
  "ss_aborted (handleStreamError sv clk e code s) = ss_aborted s"
  "ss_pendingContent (handleStreamError sv clk e code s) = []"
  "ss_pendingReasoning (handleStreamError sv clk e code s) = []"
  "ss_flushTimer (handleStreamError sv clk e code s) = False"
  by (simp_all add: handleStreamError_def Let_def)

lemma closeActiveStream_fields [simp, session_frame]:
  "ss_messages (closeActiveStream i s) = ss_messages s"
  "ss_latestMessages (closeActiveStream i s) = ss_latestMessages s"
  "ss_saveTimer (closeActiveStream i s) = ss_saveTimer s"
  "ss_hasLoadedMessages (closeActiveStream i s) = ss_hasLoadedMessages s"
  "ss_saved (closeActiveStream i s) = ss_saved s"
  "ss_config (closeActiveStream i s) = ss_config s"
  "ss_sources (closeActiveStream i s) = ss_sources s"
  "ss_isRequesting (closeActiveStream i s) = ss_isRequesting s"
  "ss_abortController (closeActiveStream i s) = ss_abortController s"
  "ss_requestId (closeActiveStream i s) = ss_requestId s"
  "ss_inflight (closeActiveStream i s) = ss_inflight s"
  "ss_aborted (closeActiveStream i s) = ss_aborted s"
  "ss_pendingContent (closeActiveStream i s) = ss_pendingContent s"
  "ss_pendingReasoning (closeActiveStream i s) = ss_pendingReasoning s"
  "ss_flushTimer (closeActiveStream i s) = ss_flushTimer s"
  by (simp_all add: closeActiveStream_def Let_def split: option.split)

lemma closeActiveStream_source:
  "ss_source (closeActiveStream i s) = (if i = None \<or> ss_source s = i then None else ss_source s)"
  "ss_isStreaming (closeActiveStream i s) = (if i = None \<or> ss_source s = i then False else ss_isStreaming s)"
  "set (ss_closed (closeActiveStream i s)) =
     set (ss_closed s) \<union> set_option (orelse i (ss_source s))"
  by (simp_all add: closeActiveStream_def Let_def split: option.split)

section \<open>The persistence part\<close>

named_theorems save_intros \<open>operations keep the persistence invariant\<close>

lemma save_updateMessages [save_intros]: "save_inv s \<Longrightarrow> save_inv (updateMessages u s)"
  by (simp add: save_inv_def)

lemma save_flush [save_intros]: "save_inv s \<Longrightarrow> save_inv (flushStreamUpdates clk s)"
  by (simp add: flushStreamUpdates_def Let_def save_inv_def)

lemma save_close [save_intros]: "save_inv s \<Longrightarrow> save_inv (closeActiveStream i s)"
  by (simp add: save_inv_def)

lemma save_complete [save_intros]: "save_inv s \<Longrightarrow> save_inv (handleStreamComplete clk s)"
  using save_flush [of s clk] by (simp add: handleStreamComplete_def save_inv_def)

lemma save_error [save_intros]: "save_inv s \<Longrightarrow> save_inv (handleStreamError sv clk e code s)"
  using save_flush [of s clk] by (simp add: handleStreamError_def Let_def save_inv_def)

lemma save_sourceError [save_intros]: "save_inv s \<Longrightarrow> save_inv (sourceError sv clk i e code s)"
  by (simp add: sourceError_def save_intros)

lemma save_handleStreamUpdate [save_intros]: "save_inv s \<Longrightarrow> save_inv (handleStreamUpdate u s)"
  by (auto simp: handleStreamUpdate_def scheduleStreamFlush_def save_inv_def
      split: prod.split StreamChunkType.split)

lemma save_updates [save_intros]:
  "save_inv s \<Longrightarrow> save_inv (foldl (\<lambda>s u. handleStreamUpdate u s) s us)"
  by (induction us arbitrary: s) (simp_all add: save_intros)

lemma save_sendChat [save_intros]: "save_inv s \<Longrightarrow> save_inv (sendChat sv ev ms s)"
proof -
  assume s: "save_inv s"
  have n: "save_inv (sendNonStreamingChat ms s)"
    using s by (simp add: sendNonStreamingChat_def Let_def save_inv_def)
  have "save_inv (sendStreamRequest sv ev p s')" if "save_inv s'" for p s'
    using that
    by (auto simp: sendStreamRequest_def Let_def split: option.split
        intro!: save_close save_error) (simp_all add: save_inv_def)
  moreover have "save_inv (s\<lparr>ss_isRequesting := True\<rparr>)" using s by (simp add: save_inv_def)
  ultimately show ?thesis using n by (simp add: sendChat_def sendStreamingChat_def Let_def)
qed

lemma save_stop [save_intros]: "save_inv s \<Longrightarrow> save_inv (stopGeneration clk s)"
  using save_flush [OF save_close [of s None], of clk]
  by (auto simp: stopGeneration_def Let_def save_inv_def split: option.split)

lemma save_settle [save_intros]: "save_inv s \<Longrightarrow> save_inv (settleNonStreamingChat sv clk k out s)"
proof -
  assume s: "save_inv s"
  let ?s0 = "s\<lparr>ss_inflight := removeAll k (ss_inflight s)\<rparr>"
  have s0: "save_inv ?s0" using s by (simp add: save_inv_def)
  have f: "save_inv (x\<lparr>ss_abortController := None, ss_isRequesting := False\<rparr>) = save_inv x" for x
    by (simp add: save_inv_def)
  show ?thesis
    unfolding settleNonStreamingChat_def Let_def
    using save_error [OF s0] save_updateMessages [OF s0] s0 by (auto simp: f split: sum.split)
qed

lemma step_save_inv: "step sv s s' \<Longrightarrow> save_inv s \<Longrightarrow> save_inv s'"
proof (induction rule: step.induct)
  case (saveEdit ev s content shouldSubmit)
  have "save_inv (s\<lparr>ss_editingMessageKey := None\<rparr>)" using saveEdit by (simp add: save_inv_def)
  then show ?case
    using saveEdit by (simp add: applyEdit_def Let_def save_intros split: option.split)
next
  case (save s)
  then show ?case by (simp add: fireSaveTimer_def save_inv_def)
qed (auto simp: handleSubmit_def handleSendMessage_def guardAction_def handleRegenerateMessage_def
    handleEditMessage_def handleEditOpenChange_def handleDeleteMessage_def handleClearMessages_def
    clearMessages_def updateConfig_def updateParameterEnabled_def onModelsData_def onGroupsData_def
    onSourceMessage_def onSourceError_def onSourceReadyState_def Let_def
    intro!: save_intros split: option.split sum.split, (simp_all add: save_inv_def)?)

section \<open>The connection part\<close>

text \<open>The invariant reads the connection fields only.\<close>

definition conn_view :: "session \<Rightarrow> bool \<times> nat option \<times> nat \<times> nat set \<times> string \<times> string \<times> bool" where
  "conn_view s = (ss_isStreaming s, ss_source s, ss_sources s, set (ss_closed s), ss_pendingContent s,
     ss_pendingReasoning s, ss_flushTimer s)"

lemma conn_inv_cong: "conn_view s = conn_view s' \<Longrightarrow> conn_inv s = conn_inv s'"
  by (simp add: conn_view_def conn_inv_def)

lemma conn_inv_frame [simp]:
  "conn_inv (s\<lparr>ss_toasts := ts\<rparr>) = conn_inv s"
  "conn_inv (s\<lparr>ss_editingMessageKey := k\<rparr>) = conn_inv s"
  "conn_inv (s\<lparr>ss_isStreamComplete := b\<rparr>) = conn_inv s"
  "conn_inv (s\<lparr>ss_isRequesting := b\<rparr>) = conn_inv s"
  "conn_inv (s\<lparr>ss_sent := ps\<rparr>) = conn_inv s"
  "conn_inv (s\<lparr>ss_models := mds\<rparr>) = conn_inv s"
  "conn_inv (s\<lparr>ss_groups := grs\<rparr>) = conn_inv s"
  "conn_inv (s\<lparr>ss_inflight := ks\<rparr>) = conn_inv s"
  "conn_inv (s\<lparr>ss_abortController := ac\<rparr>) = conn_inv s"
  "conn_inv (updateMessages u s) = conn_inv s"
  "conn_inv (updateConfig sv f s) = conn_inv s"
  "conn_inv (updateParameterEnabled sv pk v s) = conn_inv s"
  "conn_inv (fireSaveTimer sv s) = conn_inv s"
  "conn_inv (handleEditMessage key s) = conn_inv s"
  "conn_inv (handleEditOpenChange b s) = conn_inv s"
  by (rule conn_inv_cong; simp add: conn_view_def updateConfig_def updateParameterEnabled_def Let_def
      fireSaveTimer_def handleEditMessage_def handleEditOpenChange_def)+

lemma conn_flush: "conn_inv s \<Longrightarrow> conn_inv (flushStreamUpdates clk s)"
  by (simp add: conn_inv_def)

lemma conn_complete: "conn_inv s \<Longrightarrow> conn_inv (handleStreamComplete clk s)"
  by (simp add: conn_inv_def)

lemma conn_error: "conn_inv s \<Longrightarrow> conn_inv (handleStreamError sv clk e code s)"
  by (simp add: conn_inv_def)

text \<open>Closing is safe once nothing is pending.\<close>

lemma conn_close:
  assumes "conn_inv s" "ss_pendingContent s = []" "ss_pendingReasoning s = []" "\<not> ss_flushTimer s"
    "\<And>j. i = Some j \<Longrightarrow> j < ss_sources s"
  shows "conn_inv (closeActiveStream i s)"
  using assms
  by (cases i; cases "ss_source s") (auto simp: conn_inv_def closeActiveStream_source)

lemma conn_sourceError:
  assumes "conn_inv s" "i < ss_sources s"
  shows "conn_inv (sourceError sv clk i e code s)"
  using assms conn_error [OF assms(1)] by (auto simp: sourceError_def intro!: conn_close)

lemma conn_done:
  assumes "conn_inv s" "i < ss_sources s"
  shows "conn_inv (handleStreamComplete clk (closeActiveStream (Some i) s))"
  using assms by (auto simp: conn_inv_def closeActiveStream_source)

lemma handleStreamUpdate_fields [simp, session_frame]:
  "ss_messages (handleStreamUpdate u s) = ss_messages s"
  "ss_isStreaming (handleStreamUpdate u s) = ss_isStreaming s"
  "ss_source (handleStreamUpdate u s) = ss_source s"
  "ss_sources (handleStreamUpdate u s) = ss_sources s"
  "ss_closed (handleStreamUpdate u s) = ss_closed s"
  "ss_isRequesting (handleStreamUpdate u s) = ss_isRequesting s"
  "ss_abortController (handleStreamUpdate u s) = ss_abortController s"
  "ss_requestId (handleStreamUpdate u s) = ss_requestId s"
  "ss_inflight (handleStreamUpdate u s) = ss_inflight s"
  "ss_aborted (handleStreamUpdate u s) = ss_aborted s"
  "ss_flushTimer (handleStreamUpdate u s) = True"
  by (auto simp: handleStreamUpdate_def scheduleStreamFlush_def split: prod.split StreamChunkType.split)

lemma handleStreamUpdate_pending:
  "ss_pendingContent (handleStreamUpdate (ty, c) s) =
     (if ty = ContentChunk then merge_chunk (ss_pendingContent s) c else ss_pendingContent s)"
  "ss_pendingReasoning (handleStreamUpdate (ty, c) s) =
     (if ty = ReasoningChunk then merge_chunk (ss_pendingReasoning s) c else ss_pendingReasoning s)"
  by (auto simp: handleStreamUpdate_def scheduleStreamFlush_def mergePending_eq split: StreamChunkType.split)

lemma updates_fields [simp, session_frame]:
  "ss_messages (foldl (\<lambda>s u. handleStreamUpdate u s) s us) = ss_messages s"
  "ss_isStreaming (foldl (\<lambda>s u. handleStreamUpdate u s) s us) = ss_isStreaming s"
  "ss_source (foldl (\<lambda>s u. handleStreamUpdate u s) s us) = ss_source s"
  "ss_isRequesting (foldl (\<lambda>s u. handleStreamUpdate u s) s us) = ss_isRequesting s"
  "ss_abortController (foldl (\<lambda>s u. handleStreamUpdate u s) s us) = ss_abortController s"
  "ss_requestId (foldl (\<lambda>s u. handleStreamUpdate u s) s us) = ss_requestId s"
  "ss_inflight (foldl (\<lambda>s u. handleStreamUpdate u s) s us) = ss_inflight s"
  "ss_aborted (foldl (\<lambda>s u. handleStreamUpdate u s) s us) = ss_aborted s"
  by (induction us arbitrary: s) simp_all

lemma conn_updates:
  "conn_inv s \<Longrightarrow> ss_isStreaming s \<Longrightarrow> conn_inv (foldl (\<lambda>s u. handleStreamUpdate u s) s us)"
proof (induction us arbitrary: s)
  case (Cons u us)
  have "conn_inv (handleStreamUpdate u s)" using Cons.prems by (simp add: conn_inv_def)
  then show ?case using Cons by simp
qed simp

lemma open_source:
  "conn_inv s \<Longrightarrow> i < ss_sources s \<Longrightarrow> i \<notin> set (ss_closed s) \<Longrightarrow> ss_source s = Some i \<and> ss_isStreaming s"
  by (auto simp: conn_inv_def)

lemma conn_sendStreamRequest: "conn_inv s \<Longrightarrow> conn_inv (sendStreamRequest sv ev p s)"
proof -
  assume s: "conn_inv s"
  let ?s2 = "(case ss_source s of None \<Rightarrow> s | Some i \<Rightarrow> s\<lparr>ss_closed := i # ss_closed s\<rparr>)
     \<lparr>ss_sources := ss_sources s + 1, ss_source := Some (ss_sources s), ss_isStreamComplete := False,
      ss_isStreaming := True\<rparr>"
  have s2: "conn_inv ?s2"
    using s by (auto simp: conn_inv_def less_Suc_eq split: option.split)
  have "sendStreamRequest sv ev p s =
     (if e_starts ev then ?s2\<lparr>ss_sent := ss_sent ?s2 @ [p]\<rparr>
      else closeActiveStream (Some (ss_sources s)) (handleStreamError sv (e_clk ev) STREAM_START_ERROR None ?s2))"
    by (simp add: sendStreamRequest_def Let_def split: option.split)
  moreover have "conn_inv (?s2\<lparr>ss_sent := ss_sent ?s2 @ [p]\<rparr>)"
    using s2 by simp
  moreover have "conn_inv (closeActiveStream (Some (ss_sources s))
      (handleStreamError sv (e_clk ev) STREAM_START_ERROR None ?s2))"
    using conn_error [OF s2] by (intro conn_close) simp_all
  ultimately show ?thesis by simp
qed

lemma conn_sendChat: "conn_inv s \<Longrightarrow> conn_inv (sendChat sv ev ms s)"
proof -
  assume s: "conn_inv s"
  have "conn_inv (sendNonStreamingChat ms s)"
    using s by (subst conn_inv_cong [of _ s]) (simp_all add: conn_view_def sendNonStreamingChat_def Let_def)
  then show ?thesis
    using s by (simp add: sendChat_def sendStreamingChat_def Let_def conn_sendStreamRequest)
qed

lemma conn_stop: "conn_inv s \<Longrightarrow> conn_inv (stopGeneration clk s)"
  by (cases "ss_source s"; cases "ss_abortController s")
     (auto simp: stopGeneration_def Let_def conn_inv_def closeActiveStream_source)

lemma conn_settle: "conn_inv s \<Longrightarrow> conn_inv (settleNonStreamingChat sv clk k out s)"
  unfolding settleNonStreamingChat_def Let_def
  by (auto simp: conn_error split: sum.split)

lemma step_conn_inv: "step sv s s' \<Longrightarrow> conn_inv s \<Longrightarrow> conn_inv s'"
proof (induction rule: step.induct)
  case (sourceMessage i s clk data)
  note o = open_source [OF sourceMessage.prems sourceMessage.hyps]
  then show ?case
    using sourceMessage o by (auto simp: onSourceMessage_def conn_done conn_updates conn_sourceError split: sum.split)
qed (auto simp: handleSubmit_def handleSendMessage_def guardAction_def handleRegenerateMessage_def
    handleDeleteMessage_def handleClearMessages_def clearMessages_def onSourceError_def applyEdit_def
    onSourceReadyState_def onModelsData_def onGroupsData_def Let_def conn_sendChat conn_stop
    conn_settle conn_flush conn_sourceError split: option.split)

section \<open>The request part\<close>

lemma request_inv_frame [simp]:
  "request_inv (s\<lparr>ss_toasts := ts\<rparr>) = request_inv s"
  "request_inv (s\<lparr>ss_editingMessageKey := k\<rparr>) = request_inv s"
  "request_inv (s\<lparr>ss_isStreamComplete := b\<rparr>) = request_inv s"
  "request_inv (s\<lparr>ss_sent := ps\<rparr>) = request_inv s"
  "request_inv (s\<lparr>ss_models := mds\<rparr>) = request_inv s"
  "request_inv (s\<lparr>ss_groups := grs\<rparr>) = request_inv s"
  "request_inv (updateMessages u s) = request_inv s"
  "request_inv (updateConfig sv f s) = request_inv s"
  "request_inv (updateParameterEnabled sv pk v s) = request_inv s"
  "request_inv (fireSaveTimer sv s) = request_inv s"
  "request_inv (handleEditMessage key s) = request_inv s"
  "request_inv (handleEditOpenChange b s) = request_inv s"
  "request_inv (flushStreamUpdates clk s) = request_inv s"
  "request_inv (foldl (\<lambda>s u. handleStreamUpdate u s) s us) = request_inv s"
  by (simp_all add: request_inv_def updateConfig_def updateParameterEnabled_def Let_def
      fireSaveTimer_def handleEditMessage_def handleEditOpenChange_def)

lemma request_error: "request_inv s \<Longrightarrow> request_inv (handleStreamError sv clk e code s)"
  by (simp add: request_inv_def)

lemma request_sourceError: "request_inv s \<Longrightarrow> request_inv (sourceError sv clk i e code s)"
  by (auto simp: sourceError_def request_inv_def closeActiveStream_source)

lemma request_done:
  "request_inv s \<Longrightarrow> request_inv (handleStreamComplete clk (closeActiveStream i s))"
  by (simp add: request_inv_def closeActiveStream_source)

lemma request_sendNonStreamingChat: "request_inv s \<Longrightarrow> request_inv (sendNonStreamingChat ms s)"
proof -
  assume s: "request_inv s"
  have "k \<le> ss_requestId s" if "k \<in> set (ss_inflight s) \<or> k \<in> set (ss_aborted s)" for k
    using s that by (auto simp: request_inv_def)
  then show ?thesis
    by (fastforce simp: sendNonStreamingChat_def Let_def request_inv_def)
qed

lemma request_sendChat: "request_inv s \<Longrightarrow> request_inv (sendChat sv ev ms s)"
  unfolding sendChat_def
  by (simp add: request_sendNonStreamingChat)
    (auto simp: sendStreamingChat_def sendStreamRequest_def Let_def request_inv_def
      closeActiveStream_source split: option.split)

lemma request_stop: "request_inv s \<Longrightarrow> request_inv (stopGeneration clk s)"
  by (auto simp: stopGeneration_def Let_def request_inv_def split: option.split)

lemma request_settle: "request_inv s \<Longrightarrow> request_inv (settleNonStreamingChat sv clk k out s)"
  by (auto simp: settleNonStreamingChat_def Let_def request_inv_def split: sum.split)

lemma step_request_inv: "step sv s s' \<Longrightarrow> request_inv s \<Longrightarrow> request_inv s'"
  by (induction rule: step.induct)
    (auto simp: handleSubmit_def handleSendMessage_def guardAction_def handleRegenerateMessage_def
      handleDeleteMessage_def handleClearMessages_def clearMessages_def onSourceError_def applyEdit_def
      onSourceReadyState_def onSourceMessage_def onModelsData_def onGroupsData_def Let_def
      request_sendChat request_stop request_settle request_done request_sourceError
      split: option.split sum.split)

section \<open>Message steps\<close>

lemma error_keeps_key:
  "distinct_keys ms \<Longrightarrow> settled (butlast ms) \<Longrightarrow>
   distinct_keys (updateAssistantMessageWithError clk ms e code title) \<and>
   settled (updateAssistantMessageWithError clk ms e code title)"
  unfolding updateAssistantMessageWithError_def
  by (intro conjI updateLast_inv)
    (simp_all add: isPendingAssistantMessage_def isAssistantMessagePending_def)

lemma complete_settles:
  "distinct_keys ms \<Longrightarrow> settled (butlast ms) \<Longrightarrow>
   distinct_keys (updateLastAssistantMessage ms (\<lambda>m. if isAssistantMessageFinal m then m
     else completeAssistantMessage clk m)) \<and>
   settled (updateLastAssistantMessage ms (\<lambda>m. if isAssistantMessageFinal m then m
     else completeAssistantMessage clk m))"
  by (intro conjI updateLast_inv)
    (auto simp: isPendingAssistantMessage_def isAssistantMessagePending_def isAssistantMessageFinal_def)

lemma stop_settles:
  "distinct_keys ms \<Longrightarrow> settled (butlast ms) \<Longrightarrow>
   distinct_keys (updateLastAssistantMessage ms (\<lambda>m. if isAssistantMessagePending m
     then completeAssistantMessage clk m else m)) \<and>
   settled (updateLastAssistantMessage ms (\<lambda>m. if isAssistantMessagePending m
     then completeAssistantMessage clk m else m))"
  by (intro conjI updateLast_inv)
    (auto simp: isPendingAssistantMessage_def isAssistantMessagePending_def)

lemma applyChatCompletionChoice_frame [simp]:
  "m_key (applyChatCompletionChoice clk m c) = m_key m"
  "m_from (applyChatCompletionChoice clk m c) = m_from m"
  "m_status (applyChatCompletionChoice clk m c) = Some COMPLETE"
  by (simp_all add: applyChatCompletionChoice_def)

lemma response_settles:
  assumes "hasChatCompletionChoice r" "distinct_keys ms" "settled (butlast ms)"
  shows "distinct_keys (updateLastAssistantMessage ms (\<lambda>m. nullish (applyChatCompletionResponse clk m r) m))"
    "settled (updateLastAssistantMessage ms (\<lambda>m. nullish (applyChatCompletionResponse clk m r) m))"
proof -
  obtain c where c: "first_choice r = Some c" using assms(1) by (auto simp: hasChatCompletionChoice_def)
  then have f: "nullish (applyChatCompletionResponse clk m r) m = applyChatCompletionChoice clk m c" for m
    by (simp add: applyChatCompletionResponse_def)
  show "distinct_keys (updateLastAssistantMessage ms (\<lambda>m. nullish (applyChatCompletionResponse clk m r) m))"
    "settled (updateLastAssistantMessage ms (\<lambda>m. nullish (applyChatCompletionResponse clk m r) m))"
    unfolding f using assms(2,3)
    by (intro updateLast_inv; simp add: isPendingAssistantMessage_def isAssistantMessagePending_def)+
qed

lemma message_inv_frame [simp]:
  "message_inv (s\<lparr>ss_toasts := ts\<rparr>) = message_inv s"
  "message_inv (s\<lparr>ss_editingMessageKey := k\<rparr>) = message_inv s"
  "message_inv (s\<lparr>ss_isStreamComplete := b\<rparr>) = message_inv s"
  "message_inv (s\<lparr>ss_models := mds\<rparr>) = message_inv s"
  "message_inv (s\<lparr>ss_groups := grs\<rparr>) = message_inv s"
  "message_inv (updateConfig sv f s) = message_inv s"
  "message_inv (updateParameterEnabled sv pk v s) = message_inv s"
  "message_inv (fireSaveTimer sv s) = message_inv s"
  "message_inv (handleEditMessage key s) = message_inv s"
  "message_inv (handleEditOpenChange b s) = message_inv s"
  "message_inv (foldl (\<lambda>s u. handleStreamUpdate u s) s us) = message_inv s"
  by (simp_all add: message_inv_def isGenerating_def updateConfig_def updateParameterEnabled_def Let_def
      fireSaveTimer_def handleEditMessage_def handleEditOpenChange_def)

lemma message_flush:
  assumes "message_inv s" "conn_inv s"
  shows "message_inv (flushStreamUpdates clk s)"
proof -
  have "isGenerating s \<or> flushed clk s = ss_messages s"
    using assms(2) by (auto simp: conn_inv_def isGenerating_def flushed_def)
  then show ?thesis
    using assms(1) flushed_inv [of s clk] by (auto simp: message_inv_def isGenerating_def)
qed

lemma message_error: "message_inv s \<Longrightarrow> message_inv (handleStreamError sv clk e code s) \<and>
    settled (ss_messages (handleStreamError sv clk e code s))"
  using flushed_inv [of s clk] error_keeps_key [of "flushed clk s"]
  by (auto simp: message_inv_def intro: settled_butlast)

lemma message_sourceError: "message_inv s \<Longrightarrow> message_inv (sourceError sv clk i e code s)"
  using message_error [of s sv clk e code]
  by (auto simp: sourceError_def message_inv_def)

lemma message_done: "message_inv s \<Longrightarrow> message_inv (handleStreamComplete clk (closeActiveStream i s))"
  using flushed_inv [of s clk] complete_settles [of "flushed clk s"]
  by (auto simp: message_inv_def flushed_def intro: settled_butlast)

lemma message_stop: "message_inv s \<Longrightarrow> message_inv (stopGeneration clk s)"
  using flushed_inv [of "closeActiveStream None s" clk] stop_settles [of "flushed clk (closeActiveStream None s)"]
  by (auto simp: message_inv_def stopGeneration_def Let_def split: option.split intro: settled_butlast)

text \<open>
  Sending: the list that is sent has at most its last message pending, and while the request runs
  the playground is generating. A stream that cannot be started leaves an error instead.
\<close>

lemma sendChat_messages:
  assumes "distinct_keys (ss_messages s)" "settled (butlast (ss_messages s))"
  shows "message_inv (sendChat sv ev ms s)"
proof (cases "cfg_stream (ss_config s)")
  case False
  then show ?thesis
    using assms by (simp add: sendChat_def sendNonStreamingChat_def Let_def message_inv_def isGenerating_def)
next
  case stream: True
  define s2 where "s2 = (case ss_source s of None \<Rightarrow> s\<lparr>ss_isRequesting := True\<rparr>
        | Some i \<Rightarrow> s\<lparr>ss_isRequesting := True, ss_closed := i # ss_closed s\<rparr>)
     \<lparr>ss_sources := ss_sources s + 1, ss_source := Some (ss_sources s), ss_isStreamComplete := False,
      ss_isStreaming := True\<rparr>"
  have m2: "message_inv s2"
    using assms by (simp add: s2_def message_inv_def isGenerating_def split: option.split)
  have "sendChat sv ev ms s =
     (if e_starts ev then s2\<lparr>ss_sent := ss_sent s2 @
          [buildChatCompletionPayload ms (ss_config s) (ss_parameterEnabled s)]\<rparr>
      else closeActiveStream (Some (ss_sources s)) (handleStreamError sv (e_clk ev) STREAM_START_ERROR None s2))"
    using stream by (simp add: sendChat_def sendStreamingChat_def sendStreamRequest_def Let_def s2_def split: option.split)
  then show ?thesis
    using m2 message_error [OF m2, of sv "e_clk ev" STREAM_START_ERROR None]
    by (auto simp: message_inv_def isGenerating_def)
qed

lemma message_settle:
  assumes "message_inv s" "request_inv s"
  shows "message_inv (settleNonStreamingChat sv clk k out s)"
proof -
  let ?s0 = "s\<lparr>ss_inflight := removeAll k (ss_inflight s)\<rparr>"
  have s0: "message_inv ?s0" using assms(1) by (simp add: message_inv_def isGenerating_def)
  have fin: "message_inv (x\<lparr>ss_abortController := None, ss_isRequesting := False\<rparr>)"
    if "message_inv x" "settled (ss_messages x)" for x
    using that by (simp add: message_inv_def)
  show ?thesis
  proof (cases "k \<in> set (ss_aborted s)")
    case True
    then have "ss_requestId s = k \<Longrightarrow> ss_isRequesting s \<Longrightarrow> ss_isStreaming s"
      using assms(2) by (auto simp: request_inv_def)
    then show ?thesis
      using True assms(1) by (auto simp: settleNonStreamingChat_def Let_def message_inv_def isGenerating_def)
  next
    case False
    note e = message_error [OF s0]
    have r: "message_inv (onMessageUpdate (\<lambda>prev. updateLastAssistantMessage prev (\<lambda>message.
        nullish (applyChatCompletionResponse clk message r) message)) ?s0) \<and>
      settled (updateLastAssistantMessage (ss_messages s) (\<lambda>message.
        nullish (applyChatCompletionResponse clk message r) message))"
      if "hasChatCompletionChoice r" for r
      using response_settles [OF that] s0 by (auto simp: message_inv_def intro: settled_butlast)
    show ?thesis
      using False e r by (auto simp: settleNonStreamingChat_def Let_def split: sum.split intro!: fin)
  qed
qed

subsection \<open>The conversation handlers\<close>

lemma append_pair_settled: "settled ms \<Longrightarrow> settled (butlast (appendUserMessagePair ids now ms text))"
  by (simp add: appendUserMessagePair_def butlast_append isPendingAssistantMessage_def)

lemma regenerated_settled:
  "settled ms \<Longrightarrow> createRegeneratedMessages ids now ms k = Some ms' \<Longrightarrow> settled (butlast ms')"
  by (auto simp: createRegeneratedMessages_def butlast_append settled_take split: option.splits if_splits
      simp del: take_Suc)

lemma edit_one_pending [simp]: "pendingReply (edit_one k c b t m) = pendingReply m"
  by (simp add: isPendingAssistantMessage_def isAssistantMessagePending_def edit_one_def)

lemma settled_edit [simp]: "settled (map (edit_one k c b t) ms) = settled ms"
  by (simp add: settled_def list_all_iff)

lemma edited_settled:
  assumes "settled (butlast ms)" "applyMessageEdit ids now ms k c submit = Some res"
  shows "settled (butlast (er_messages res))"
    "\<not> shouldSend res \<Longrightarrow> settled (er_messages res) = settled ms"
proof -
  obtain i where i: "findIndex (\<lambda>m. m_key m = k) ms = Some i"
    using assms(2) by (auto simp: applyMessageEdit_eq split: option.splits)
  note fi = findIndex_Some [OF i]
  have user: "settled (take (i + 1) (map (edit_one k c submit now) ms))" if "m_from (ms ! i) = USER"
  proof -
    have "settled (take i (map (edit_one k c submit now) ms))"
      using settled_take_butlast [OF assms(1), of i] fi by (simp add: take_map)
    moreover have "\<not> pendingReply (map (edit_one k c submit now) ms ! i)"
      using fi that by (simp add: isPendingAssistantMessage_def)
    ultimately show ?thesis using fi by (simp add: take_Suc_conv_app_nth)
  qed
  show "settled (butlast (er_messages res))"
    using assms i user
    by (auto simp: applyMessageEdit_eq butlast_append map_butlast [symmetric] split: if_splits
        simp del: take_Suc)
  show "\<not> shouldSend res \<Longrightarrow> settled (er_messages res) = settled ms"
    using assms(2) i by (auto simp: applyMessageEdit_eq split: if_splits)
qed

lemma settled_removed: "settled ms \<Longrightarrow> settled (removeMessageByKey ms k)"
  by (auto simp: settled_def removeMessageByKey_def list_all_iff)

lemma message_send:
  assumes "message_inv s" "settled (ss_messages s)" "fresh_ids (e_ids ev) (ss_messages s)"
  shows "message_inv (handleSendMessage sv ev text s)"
  unfolding handleSendMessage_def Let_def
  using assms distinct_append_pair append_pair_settled
  by (intro sendChat_messages) (simp_all add: message_inv_def)

lemma message_regenerate:
  assumes "message_inv s" "\<not> isGenerating s" "fresh_ids (e_ids ev) (ss_messages s)"
  shows "message_inv (handleRegenerateMessage sv ev key s)"
proof (cases "createRegeneratedMessages (e_ids ev) (e_now ev) (ss_messages s) key")
  case (Some ms')
  have "distinct_keys ms'" "settled (butlast ms')"
    using assms distinct_regenerated [OF _ assms(3) Some] regenerated_settled [OF _ Some]
    by (simp_all add: message_inv_def)
  then show ?thesis
    by (simp add: handleRegenerateMessage_def Some sendChat_messages)
qed (simp add: handleRegenerateMessage_def assms)

lemma message_applyEdit:
  assumes "message_inv s" "fresh_ids (e_ids ev) (ss_messages s)"
  shows "message_inv (applyEdit sv ev c submit s)"
proof (cases "ss_editingMessageKey s")
  case (Some k)
  show ?thesis
  proof (cases "applyMessageEdit (e_ids ev) (e_now ev) (ss_messages s) k c submit")
    case None
    then show ?thesis using assms Some by (simp add: applyEdit_def)
  next
    case r: (Some res)
    have b: "settled (butlast (ss_messages s))" and d: "distinct_keys (ss_messages s)"
      using assms(1) by (simp_all add: message_inv_def)
    note er = distinct_edited [OF d assms(2) r] edited_settled [OF b r]
    have "message_inv (sendChat sv ev (er_messages res)
        (updateMessages (SetMessages (er_messages res)) (s\<lparr>ss_editingMessageKey := None\<rparr>)))"
      using er by (intro sendChat_messages) simp_all
    moreover have "\<not> shouldSend res \<Longrightarrow> message_inv
        (updateMessages (SetMessages (er_messages res)) (s\<lparr>ss_editingMessageKey := None\<rparr>))"
      using er assms(1) by (auto simp: message_inv_def isGenerating_def)
    ultimately show ?thesis using assms(1) by (simp add: applyEdit_def Some r Let_def)
  qed
qed (simp add: applyEdit_def assms)

lemma message_delete:
  "message_inv s \<Longrightarrow> \<not> isGenerating s \<Longrightarrow> message_inv (handleDeleteMessage key s)"
  by (simp add: handleDeleteMessage_def message_inv_def distinct_removed settled_removed settled_butlast)

lemma message_clear: "message_inv (handleClearMessages s)"
  by (simp add: handleClearMessages_def clearMessages_def message_inv_def distinct_keys_def)

lemma step_message_inv:
  assumes "step sv s s'" "message_inv s" "conn_inv s" "request_inv s"
  shows "message_inv s'"
  using assms
proof (induction rule: step.induct)
  case (submit ev s "text")
  then have "\<not> isGenerating s \<Longrightarrow> settled (ss_messages s)" by (simp add: message_inv_def)
  then show ?case
    using submit message_send
    by (auto simp: handleSubmit_def getSubmittableInputText_def split: option.splits)
next
  case (sourceMessage i s clk data)
  then show ?case by (auto simp: onSourceMessage_def message_done message_sourceError split: sum.split)
qed (auto simp: guardAction_def message_send message_regenerate message_applyEdit message_delete
    message_clear message_stop onModelsData_def onGroupsData_def onSourceError_def
    onSourceReadyState_def Let_def message_sourceError message_settle message_flush split: option.split)

lemma step_session_inv: "step sv s s' \<Longrightarrow> session_inv s \<Longrightarrow> session_inv s'"
  using step_save_inv step_conn_inv step_request_inv step_message_inv by (simp add: session_inv_def)

lemma reachable_session_inv:
  assumes "reachable sv s s'" "session_inv s"
  shows "session_inv s'"
  using assms unfolding reachable_def
  by (induction rule: rtranclp_induct) (auto intro: step_session_inv)

lemma loaded_session_inv:
  assumes "s = loadStoredMessages sv clks clk (initial_session sv st)"
    "distinct_keys (ss_messages s)" "settled (ss_messages s)"
  shows "session_inv s"
proof -
  have c: "conn_inv s" "request_inv s" "save_inv s"
    by (auto simp: assms(1) loadStoredMessages_def initial_session_def conn_inv_def request_inv_def
        save_inv_def Let_def split: prod.split)
  show ?thesis
    using c assms(2,3) by (simp add: session_inv_def message_inv_def settled_butlast)
qed

section \<open>Flush timing\<close>

text \<open>Chunks as they arrive (\<open>Some\<close>) and the flush timer firing in between (\<open>None\<close>).\<close>

definition run_stream :: "clock \<Rightarrow> string option list \<Rightarrow> session \<Rightarrow> session" where
  "run_stream clk acts s =
     foldl (\<lambda>s a. case a of None \<Rightarrow> flushStreamUpdates clk s
                       | Some c \<Rightarrow> handleStreamUpdate (ContentChunk, c) s) s acts"

definition arrived :: "string option list \<Rightarrow> string list" where
  "arrived acts = List.map_filter id acts"

lemma arrived_simps [simp]:
  "arrived [] = []" "arrived (None # as) = arrived as" "arrived (Some c # as) = c # arrived as"
  by (simp_all add: arrived_def map_filter_simps)

definition splits :: "'a list \<Rightarrow> ('a list \<times> 'a list) list" where
  "splits xs = map (\<lambda>k. (take k xs, drop k xs)) [0..<Suc (length xs)]"

lemma splits_iff: "(xs, ys) \<in> set (splits zs) \<longleftrightarrow> zs = xs @ ys"
  by (auto simp: splits_def intro!: image_eqI [of _ _ "length xs"])

text \<open>Text that starts with a given non-empty text: such a chunk is taken for a snapshot.\<close>

definition restarts :: "string \<Rightarrow> string \<Rightarrow> bool" where
  "restarts old new \<longleftrightarrow> old \<noteq> [] \<and> new \<noteq> [] \<and> prefix old new"

text \<open>
  No chunk restarts the chunks just before it, and no run of chunks restarts everything before
  it.
\<close>

definition incremental :: "string \<Rightarrow> string list \<Rightarrow> bool" where
  "incremental start cs \<longleftrightarrow>
     list_all (\<lambda>(xs, ys). list_all (\<lambda>(us, vs).
       (vs = [] \<or> \<not> restarts (concat us) (hd vs)) \<and>
       \<not> restarts (start @ concat xs) (concat us)) (splits ys)) (splits cs)"

lemma merge_no_restart: "\<not> restarts a b \<Longrightarrow> merge_chunk a b = a @ b"
  by (auto simp: merge_chunk_def restarts_def)

lemma incremental_chunk:
  "incremental start (F @ P @ c # rest) \<Longrightarrow> merge_chunk (concat P) c = concat P @ c"
proof -
  assume "incremental start (F @ P @ c # rest)"
  moreover have "(F, P @ c # rest) \<in> set (splits (F @ P @ c # rest))"
    "(P, c # rest) \<in> set (splits (P @ c # rest))" by (simp_all add: splits_iff)
  ultimately have "\<not> restarts (concat P) c" by (fastforce simp: incremental_def list_all_iff)
  then show ?thesis by (simp add: merge_no_restart)
qed

lemma incremental_flush:
  "incremental start (F @ P @ rest) \<Longrightarrow>
   merge_chunk (start @ concat F) (concat P) = start @ concat F @ concat P"
proof -
  assume "incremental start (F @ P @ rest)"
  moreover have "(F, P @ rest) \<in> set (splits (F @ P @ rest))" "(P, rest) \<in> set (splits (P @ rest))"
    by (simp_all add: splits_iff)
  ultimately have "\<not> restarts (start @ concat F) (concat P)" by (fastforce simp: incremental_def list_all_iff)
  then show ?thesis by (simp add: merge_no_restart)
qed

text \<open>What is in the message and what still waits, while a stream is received.\<close>

definition receiving :: "Message list \<Rightarrow> string \<Rightarrow> string list \<Rightarrow> string list \<Rightarrow> session \<Rightarrow> bool" where
  "receiving ms start F P s \<longleftrightarrow>
     (\<exists>m. ss_messages s = ms @ [m] \<and> m_from m = ASSISTANT \<and> m_status m \<noteq> Some ERROR \<and>
        getMessageContent m = start @ concat F) \<and>
     ss_pendingContent s = concat P \<and> ss_pendingReasoning s = []"

lemma receiving_chunk:
  "receiving ms start F P s \<Longrightarrow> incremental start (F @ P @ c # rest) \<Longrightarrow>
   receiving ms start F (P @ [c]) (handleStreamUpdate (ContentChunk, c) s)"
  using incremental_chunk by (simp add: receiving_def handleStreamUpdate_pending)

lemma receiving_flush:
  assumes "receiving ms start F P s" "incremental start (F @ P @ rest)"
  shows "receiving ms start (F @ P) [] (flushStreamUpdates clk s)"
proof (cases "concat P = []")
  case True
  then show ?thesis
    using assms(1) by (simp add: receiving_def flushed_def del: concat_eq_Nil_conv)
next
  case False
  obtain m where m: "ss_messages s = ms @ [m]" "m_from m = ASSISTANT" "m_status m \<noteq> Some ERROR"
    "getMessageContent m = start @ concat F"
    using assms(1) by (auto simp: receiving_def)
  let ?m = "applyStreamingChunk (\<lambda>k. clk (1 + k)) m ContentChunk (concat P)"
  have f: "flushed clk s = ms @ [?m]"
    using assms(1) False m
    by (simp add: receiving_def flushed_def updateLastAssistantMessage_snoc applyPendingChunks_def
        del: concat_eq_Nil_conv)
  have c: "getMessageContent ?m = start @ concat F @ concat P"
    using applyStreamingChunk_content [OF m(3)] incremental_flush [OF assms(2)] m(4) by simp
  show ?thesis
    unfolding receiving_def using m c
    by (intro conjI exI [of _ ?m]) (simp_all add: f applyStreamingChunk_status)
qed

lemma run_stream_receiving:
  "receiving ms start F P s \<Longrightarrow> incremental start (F @ P @ arrived acts) \<Longrightarrow>
   \<exists>F' P'. F' @ P' = F @ P @ arrived acts \<and> receiving ms start F' P' (run_stream clk acts s)"
proof (induction acts arbitrary: F P s)
  case Nil
  then show ?case by (auto simp: run_stream_def)
next
  case (Cons a acts)
  show ?case
  proof (cases a)
    case None
    then show ?thesis
      using Cons.IH [OF receiving_flush [OF Cons.prems(1), of "arrived acts"]] Cons.prems(2)
      by (simp add: run_stream_def)
  next
    case (Some c)
    then show ?thesis
      using Cons.IH [OF receiving_chunk [OF Cons.prems(1), of c "arrived acts"]] Cons.prems(2)
      by (simp add: run_stream_def)
  qed
qed

section \<open>Properties\<close>

text \<open>
  C1: no reply is left hanging. In every state reachable from a loaded playground without pending
  replies, whatever the user, the server and the timers do, a reply is pending only while the
  playground is generating (so that the stop button is there), only the last message can be
  pending, and message keys are unique.
\<close>

theorem no_hanging_reply:
  assumes "s0 = loadStoredMessages sv clks clk (initial_session sv st)"
    "distinct_keys (ss_messages s0)" "settled (ss_messages s0)" "reachable sv s0 s"
  shows "(isGenerating s \<or> settled (ss_messages s)) \<and> settled (butlast (ss_messages s)) \<and>
         distinct_keys (ss_messages s)"
  using reachable_session_inv [OF assms(4) loaded_session_inv [OF assms(1-3)]]
  by (auto simp: session_inv_def message_inv_def)

definition plain_services :: services where
  "plain_services = \<lparr>sv_t = (\<lambda>x. x), sv_messages = messagesSchema, sv_config = playgroundConfigSchema,
     sv_enabled = parameterEnabledSchema, sv_fits = (\<lambda>_. True)\<rparr>"

definition plain_env :: env where
  "plain_env = \<lparr>e_ids = (\<lambda>k. replicate (Suc k) CHR ''i''), e_now = 0, e_clk = (\<lambda>k. 0), e_starts = True\<rparr>"

definition fresh_session :: session where
  "fresh_session = loadStoredMessages plain_services (\<lambda>i k. 0) (\<lambda>k. 0)
     (initial_session plain_services Map.empty)"

definition asking_session :: session where
  "asking_session = handleSubmit plain_services plain_env (Some ''hi'') fresh_session"

lemma fresh_session_fields [simp]:
  "ss_messages fresh_session = []" "ss_isStreaming fresh_session = False"
  "ss_isRequesting fresh_session = False" "ss_source fresh_session = None"
  "ss_config fresh_session = DEFAULT_CONFIG" "ss_pendingContent fresh_session = []"
  "ss_pendingReasoning fresh_session = []"
  by (simp_all add: fresh_session_def loadStoredMessages_def loadMessages_def readStoredMessagesValue_def
      getItem_def initial_session_def falsy_def getInitialPlaygroundConfig_def loadConfig_def
      readStoredValue_def empty_config_def DEFAULT_CONFIG_def)

lemma fresh_ids_plain [simp]: "fresh_ids (e_ids plain_env) []"
  by (simp add: fresh_ids_def plain_env_def)

lemma asking_reachable: "reachable plain_services fresh_session asking_session"
  unfolding reachable_def asking_session_def by (rule r_into_rtranclp, rule step.submit) simp

theorem no_hanging_reply_witness:
  "(isGenerating asking_session \<or> settled (ss_messages asking_session)) \<and>
   distinct_keys (ss_messages asking_session)"
  using no_hanging_reply [OF fresh_session_def _ _ asking_reachable]
  by (simp add: distinct_keys_def)

text \<open>
  C4: one stream at a time, and no chunk is forgotten. In every reachable state the playground is
  streaming exactly when it has an active source, every other source it ever opened is closed,
  received chunks that are not in the message yet have a flush timer running, and when no source
  is active nothing is waiting.
\<close>

theorem single_stream:
  assumes "s0 = loadStoredMessages sv clks clk (initial_session sv st)"
    "distinct_keys (ss_messages s0)" "settled (ss_messages s0)" "reachable sv s0 s"
  shows "ss_isStreaming s = (ss_source s \<noteq> None) \<and>
     {i. i < ss_sources s \<and> i \<notin> set (ss_closed s)} = set_option (ss_source s) \<and>
     (ss_flushTimer s \<or> ss_pendingContent s = [] \<and> ss_pendingReasoning s = []) \<and>
     (ss_isStreaming s \<or> ss_pendingContent s = [] \<and> ss_pendingReasoning s = [])"
  using reachable_session_inv [OF assms(4) loaded_session_inv [OF assms(1-3)]]
  unfolding session_inv_def conn_inv_def by (cases "ss_source s") auto

theorem single_stream_witness:
  "ss_isStreaming asking_session = (ss_source asking_session \<noteq> None)"
  using single_stream [OF fresh_session_def _ _ asking_reachable] by (simp add: distinct_keys_def)

text \<open>
  C5: debounced saving loses nothing. In every reachable state the latest messages were handed to
  storage or the save timer is running, and leaving the playground saves what is still unsaved.
\<close>

theorem saves_every_change:
  assumes "s0 = loadStoredMessages sv clks clk (initial_session sv st)"
    "distinct_keys (ss_messages s0)" "settled (ss_messages s0)" "reachable sv s0 s"
  shows "(ss_saveTimer s \<or> ss_saved s = ss_messages s) \<and>
     ss_saved (leavePlayground sv s) = ss_messages s \<and>
     ss_store (leavePlayground sv s) =
       (if ss_saveTimer s then saveMessages (sv_messages sv) (sv_fits sv) (ss_messages s) (ss_store s)
        else ss_store s)"
  using reachable_session_inv [OF assms(4) loaded_session_inv [OF assms(1-3)]]
  by (auto simp: session_inv_def save_inv_def leavePlayground_def fireSaveTimer_def)

theorem saves_every_change_witness:
  "ss_saved (leavePlayground plain_services asking_session) = ss_messages asking_session"
  using saves_every_change [OF fresh_session_def _ _ asking_reachable] by (simp add: distinct_keys_def)

text \<open>
  C6: stopping stops. After \<open>stopGeneration\<close> the playground is idle, no reply is pending, the
  source that was active is closed, and the reply of the request that was aborted, when its promise
  settles later, changes no message.
\<close>

theorem stop_is_final:
  assumes "session_inv s"
  shows "\<not> isGenerating (stopGeneration clk s) \<and> settled (ss_messages (stopGeneration clk s)) \<and>
     set_option (ss_source s) \<subseteq> set (ss_closed (stopGeneration clk s)) \<and>
     (\<forall>k. ss_abortController s = Some k \<longrightarrow>
        ss_messages (settleNonStreamingChat sv clk' k out (stopGeneration clk s)) =
        ss_messages (stopGeneration clk s))"
proof -
  have "message_inv (stopGeneration clk s)"
    using assms by (intro message_stop) (simp add: session_inv_def)
  moreover have g: "\<not> isGenerating (stopGeneration clk s)"
    by (simp add: stopGeneration_def Let_def isGenerating_def closeActiveStream_source split: option.split)
  moreover have "set_option (ss_source s) \<subseteq> set (ss_closed (stopGeneration clk s))"
    by (cases "ss_source s"; cases "ss_abortController s")
      (simp_all add: stopGeneration_def Let_def closeActiveStream_source)
  moreover have "k \<in> set (ss_aborted (stopGeneration clk s))" if "ss_abortController s = Some k" for k
    using that by (simp add: stopGeneration_def Let_def)
  ultimately show ?thesis
    by (auto simp: message_inv_def settleNonStreamingChat_def Let_def)
qed

theorem stop_is_final_witness:
  "\<not> isGenerating (stopGeneration (\<lambda>k. 0) asking_session) \<and>
   settled (ss_messages (stopGeneration (\<lambda>k. 0) asking_session))"
proof -
  have "session_inv fresh_session"
    by (rule loaded_session_inv [OF fresh_session_def]) (simp_all add: distinct_keys_def)
  from stop_is_final [OF reachable_session_inv [OF asking_reachable this]] show ?thesis by blast
qed

text \<open>
  C3: flush timing does not matter. When no run of chunks starts with the text that precedes it,
  the reply that is shown after the stream is the concatenation of the chunks, wherever the flush
  timer fires between them, and the other messages are unchanged.
\<close>

theorem flush_timing_irrelevant:
  assumes "ss_messages s = ms @ [m]" "m_from m = ASSISTANT" "m_status m \<noteq> Some ERROR"
    "ss_pendingContent s = []" "ss_pendingReasoning s = []"
    "incremental (getMessageContent m) (arrived acts)"
  shows "\<exists>m'. ss_messages (flushStreamUpdates clk (run_stream clk acts s)) = ms @ [m'] \<and>
     getMessageContent m' = getMessageContent m @ concat (arrived acts)"
proof -
  have "receiving ms (getMessageContent m) [] [] s" using assms by (simp add: receiving_def)
  from run_stream_receiving [OF this, of acts clk] assms(6)
  obtain F P where fp: "F @ P = arrived acts" "receiving ms (getMessageContent m) F P (run_stream clk acts s)"
    by auto
  then have "receiving ms (getMessageContent m) (F @ P) [] (flushStreamUpdates clk (run_stream clk acts s))"
    using assms(6) by (intro receiving_flush [of _ _ _ _ _ "[]"]) simp_all
  then show ?thesis unfolding fp(1) receiving_def by blast
qed

lemma asking_fields:
  "ss_messages asking_session =
     [createUserMessage ''i'' ''ii'' ''hi'' 0] @ [createLoadingAssistantMessage ''iii'' ''iiii'' 0]"
  "ss_pendingContent asking_session = []" "ss_pendingReasoning asking_session = []"
  by (simp_all add: asking_session_def handleSubmit_def getSubmittableInputText_def isGenerating_def
      handleSendMessage_def sendChat_def sendStreamingChat_def sendStreamRequest_def Let_def
      appendUserMessagePair_def plain_env_def DEFAULT_CONFIG_def trim_by_def is_space_def
      is_space_unit_def numeral_2_eq_2 numeral_3_eq_3)

lemma hello_incremental: "incremental [] [''Hel'', ''lo'']"
  by code_simp

theorem flush_timing_irrelevant_witness:
  "\<exists>m'. ss_messages (flushStreamUpdates (\<lambda>k. 0) (run_stream (\<lambda>k. 0) [Some ''Hel'', None, Some ''lo'']
      asking_session)) = [createUserMessage ''i'' ''ii'' ''hi'' 0] @ [m'] \<and> getMessageContent m' = ''Hello''"
  using flush_timing_irrelevant [of asking_session "[createUserMessage ''i'' ''ii'' ''hi'' 0]"
      "createLoadingAssistantMessage ''iii'' ''iiii'' 0" "[Some ''Hel'', None, Some ''lo'']" "\<lambda>k. 0"]
  by (simp add: asking_fields hello_incremental)

text \<open>
  Without that condition the timing decides what is shown: of the chunks \<open>a\<close>, \<open>b\<close>, \<open>ab\<close> the
  last one is dropped when they wait together, and kept when the timer fires after the first.
\<close>

lemma updateLast_pair:
  "updateLastAssistantMessage [u, m] f = [u, if m_from m = ASSISTANT then f m else m]"
  using updateLastAssistantMessage_snoc [of "[u]" m f] by simp

lemma flush_timing_matters:
  "map getMessageContent (ss_messages (flushStreamUpdates clk
      (run_stream clk [Some ''a'', Some ''b'', Some ''ab''] asking_session))) = [''hi'', ''ab'']"
  "map getMessageContent (ss_messages (flushStreamUpdates clk
      (run_stream clk [Some ''a'', None, Some ''b'', Some ''ab''] asking_session))) = [''hi'', ''abab'']"
  by (simp_all add: run_stream_def asking_fields flushed_def handleStreamUpdate_pending merge_chunk_def
      updateLast_pair applyPendingChunks_def applyStreamingChunk_content applyStreamingChunk_status)

text \<open>
  The model selector settles. Once the models of a group are known the configured model is one
  of them, or empty when there are none, and seeing the same models again changes nothing.
\<close>

theorem model_selection_settles:
  assumes "list_all (\<lambda>m. 0 < length (mo_value m)) models"
  shows "cfg_model (ss_config (onModelsData sv models s)) \<in> (if models = [] then {[]} else mo_value ` set models) \<and>
     ss_config (onModelsData sv models (onModelsData sv models s)) = ss_config (onModelsData sv models s) \<and>
     ss_models (onModelsData sv models s) = models"
proof -
  let ?c = "cfg_model (ss_config s)"
  have cfg: "ss_config (onModelsData sv models x) =
      (if list_ex (\<lambda>m. mo_value m = cfg_model (ss_config x)) models then ss_config x
       else (ss_config x)\<lparr>cfg_model := (case models of [] \<Rightarrow> [] | m # _ \<Rightarrow> mo_value m)\<rparr>)" for x
    using assms
    by (auto simp: onModelsData_def Let_def getModelFallback_def shouldClearModelForGroup_def truthy_def
        updateConfig_def split: list.splits)
  have "ss_models (onModelsData sv models s) = models"
    by (simp add: onModelsData_def Let_def updateConfig_def)
  moreover have "cfg_model (ss_config (onModelsData sv models s)) \<in>
      (if models = [] then {[]} else mo_value ` set models)"
    unfolding cfg by (cases models) (auto simp: list_ex_iff rev_image_eqI)
  moreover have "ss_config (onModelsData sv models (onModelsData sv models s)) = ss_config (onModelsData sv models s)"
    unfolding cfg by (cases models) auto
  ultimately show ?thesis by blast
qed

theorem model_selection_settles_witness:
  "cfg_model (ss_config (onModelsData plain_services [\<lparr>mo_label = ''m'', mo_value = ''m''\<rparr>] fresh_session)) = ''m''"
  using model_selection_settles [of "[\<lparr>mo_label = ''m'', mo_value = ''m''\<rparr>]" plain_services fresh_session]
  by simp

section \<open>Overlapping requests\<close>

text \<open>
  The editor can submit while a reply is generated. A request without streaming does not abort the
  one before it, and the reply of an earlier request, when it arrives, is written into the message
  of the later one.
\<close>

lemma second_request_keeps_first:
  assumes "\<not> cfg_stream (ss_config s)"
  shows "ss_aborted (sendChat sv ev ms s) = ss_aborted s"
    "set (ss_inflight s) \<subseteq> set (ss_inflight (sendChat sv ev ms s))"
  using assms by (auto simp: sendChat_def sendNonStreamingChat_def Let_def)

lemma stale_response_applied:
  assumes "k \<notin> set (ss_aborted s)" "k < ss_requestId s" "first_choice r = Some c"
    "ss_messages s = ms @ [m]" "m_from m = ASSISTANT"
  shows "ss_messages (settleNonStreamingChat sv clk k (Inr r) s) = ms @ [applyChatCompletionChoice clk m c]"
  using assms
  by (simp add: settleNonStreamingChat_def Let_def hasChatCompletionChoice_def applyChatCompletionResponse_def
      updateLastAssistantMessage_snoc)

text \<open>
  Nor does a new stream drop the chunks of the stream it replaces: they are flushed into the new
  reply.
\<close>

lemma superseded_chunks_leak:
  assumes "cfg_stream (ss_config s)" "e_starts ev" "ss_pendingContent s = c" "c \<noteq> []"
    "ss_pendingReasoning s = []"
  shows "map getMessageContent (ss_messages (flushStreamUpdates clk
     (sendChat sv ev [u, createLoadingAssistantMessage k v now]
        (updateMessages (SetMessages [u, createLoadingAssistantMessage k v now]) s)))) = [getMessageContent u, c]"
proof -
  let ?s = "sendChat sv ev [u, createLoadingAssistantMessage k v now]
        (updateMessages (SetMessages [u, createLoadingAssistantMessage k v now]) s)"
  have "ss_messages ?s = [u, createLoadingAssistantMessage k v now]" "ss_pendingContent ?s = c"
    "ss_pendingReasoning ?s = []"
    using assms by (simp_all add: sendChat_def sendStreamingChat_def sendStreamRequest_def Let_def split: option.split)
  then show ?thesis
    using assms(4) by (simp add: flushed_def updateLast_pair applyPendingChunks_def applyStreamingChunk_content)
qed

end
