(* ===== verification/Session_Progress.thy ===== *)
theory Session_Progress
  imports Session_Laws
begin

text \<open>
  Progress of the running playground. The steps of \<open>finishing\<close> are those the outside owes: the open
  source ends, a request in flight settles, a timer fires. They come to an end within a bound that
  is read off the state, and where none is left the playground is at rest.
\<close>

section \<open>The steps that are owed\<close>

inductive finishing :: "services \<Rightarrow> session \<Rightarrow> session \<Rightarrow> bool" for sv :: services where
  streamEnds: "ss_source s = Some i \<Longrightarrow> finishing sv s (onSourceMessage sv clk i STREAM_DONE_MESSAGE s)"
| streamBreaks: "ss_source s = Some i \<Longrightarrow> \<not> isStreamClosedReadyState readyState \<Longrightarrow>
    \<not> ss_isStreamComplete s \<Longrightarrow> finishing sv s (onSourceError sv clk i readyState errorData s)"
| requestSettles: "requestId \<in> set (ss_inflight s) \<Longrightarrow>
    finishing sv s (settleNonStreamingChat sv clk requestId outcome s)"
| flushFires: "ss_flushTimer s \<Longrightarrow> finishing sv s (flushStreamUpdates clk s)"
| saveFires: "ss_saveTimer s \<Longrightarrow> finishing sv s (fireSaveTimer sv s)"

text \<open>What is still owed: a flush or a settled request may start the save timer once more.\<close>

definition owed :: "session \<Rightarrow> nat" where
  "owed s = 2 * (if ss_source s = None then 0 else 1) + 2 * card (set (ss_inflight s)) +
     2 * of_bool (ss_flushTimer s) + of_bool (ss_saveTimer s)"

definition at_rest :: "session \<Rightarrow> bool" where
  "at_rest s \<longleftrightarrow> \<not> isGenerating s \<and> settled (ss_messages s) \<and> ss_saved s = ss_messages s \<and>
     ss_pendingContent s = [] \<and> ss_pendingReasoning s = [] \<and> \<not> ss_flushTimer s \<and> \<not> ss_saveTimer s \<and>
     ss_inflight s = [] \<and> ss_source s = None"

section \<open>Lemmas\<close>

lemma finishing_step:
  assumes "finishing sv s s'" "conn_inv s"
  shows "step sv s s'"
  using assms by (cases rule: finishing.cases) (auto simp: conn_inv_def intro: step.intros)

lemma finishing_inv: "finishing sv s s' \<Longrightarrow> session_inv s \<Longrightarrow> session_inv s'"
  by (rule step_session_inv [OF finishing_step]) (simp_all add: session_inv_def)

lemma isStreamDone_done [simp]: "isStreamDoneMessage STREAM_DONE_MESSAGE"
  by (simp add: isStreamDoneMessage_def)

lemma owed_streamEnds:
  "ss_source s = Some i \<Longrightarrow> owed (onSourceMessage sv clk i STREAM_DONE_MESSAGE s) < owed s"
  by (simp add: owed_def onSourceMessage_def closeActiveStream_source of_bool_def)

lemma owed_decreases: "finishing sv s s' \<Longrightarrow> owed s' < owed s"
proof (induction rule: finishing.induct)
  case (streamEnds s i clk)
  then show ?case by (rule owed_streamEnds)
next
  case (streamBreaks s i readyState clk errorData)
  then show ?case
    by (simp add: owed_def onSourceError_def sourceError_def closeActiveStream_source Let_def of_bool_def)
next
  case (requestSettles k s clk outcome)
  have "card (set (ss_inflight s)) = Suc (card (set (ss_inflight s) - {k}))"
    using requestSettles by (metis List.finite_set card.remove)
  then show ?case
    by (auto simp: owed_def settleNonStreamingChat_def Let_def of_bool_def split: sum.split)
next
  case (flushFires s clk)
  then show ?case by (simp add: owed_def of_bool_def)
next
  case (saveFires s)
  then show ?case by (simp add: owed_def fireSaveTimer_def)
qed

lemma finishing_bounded: "(finishing sv ^^ n) s s' \<Longrightarrow> owed s' + n \<le> owed s"
proof (induction n arbitrary: s')
  case (Suc n)
  then obtain t where "(finishing sv ^^ n) s t" "finishing sv t s'" by auto
  then show ?case using Suc.IH [of t] owed_decreases [of sv t s'] by simp
qed simp

lemma finishing_stuck:
  assumes "session_inv s" "\<And>s'. \<not> finishing sv s s'"
  shows "at_rest s"
proof -
  have c: "ss_source s = None" using assms(2) finishing.streamEnds by (cases "ss_source s") blast+
  have i: "ss_inflight s = []"
    using assms(2) finishing.requestSettles by (metis list.set_intros(1) neq_Nil_conv)
  have t: "\<not> ss_flushTimer s" "\<not> ss_saveTimer s"
    using assms(2) finishing.flushFires finishing.saveFires by blast+
  have g: "\<not> isGenerating s"
    using assms(1) c i by (auto simp: session_inv_def conn_inv_def request_inv_def isGenerating_def)
  show ?thesis
    using assms(1) c i t g
    by (auto simp: session_inv_def conn_inv_def message_inv_def save_inv_def at_rest_def)
qed

lemma finishing_runs_inv: "(finishing sv ^^ n) s s' \<Longrightarrow> session_inv s \<Longrightarrow> session_inv s'"
  by (induction n arbitrary: s') (auto intro: finishing_inv)

lemma finishing_reaches_end:
  "\<exists>n s'. (finishing sv ^^ n) s s' \<and> (\<forall>s''. \<not> finishing sv s' s'')"
proof (induction "owed s" arbitrary: s rule: less_induct)
  case less
  show ?case
  proof (cases "\<exists>t. finishing sv s t")
    case True
    then obtain t where t: "finishing sv s t" by blast
    from less [OF owed_decreases [OF t]] obtain n s' where
      "(finishing sv ^^ n) t s'" "\<forall>s''. \<not> finishing sv s' s''" by blast
    then show ?thesis using t by (metis relpowp_Suc_I2)
  next
    case False
    then show ?thesis by (intro exI [of _ 0]) auto
  qed
qed

section \<open>Properties\<close>

text \<open>
  C2: the playground comes to rest. From every reachable state, once the user does nothing more,
  the owed steps run in any order for at most \<open>owed s\<close> steps; a run that cannot go on has ended with
  no generation, no pending reply, no waiting chunk and every message saved; and such a run exists.
\<close>

theorem comes_to_rest:
  assumes "s0 = loadStoredMessages sv clks clk (initial_session sv st)"
    "distinct_keys (ss_messages s0)" "settled (ss_messages s0)" "reachable sv s0 s"
  shows "((finishing sv ^^ n) s s' \<longrightarrow> n \<le> owed s \<and> ((\<exists>s''. finishing sv s' s'') \<or> at_rest s')) \<and>
     (\<exists>k t. (finishing sv ^^ k) s t \<and> at_rest t)"
proof -
  note inv = reachable_session_inv [OF assms(4) loaded_session_inv [OF assms(1-3)]]
  have rest: "at_rest t" if "(finishing sv ^^ k) s t" "\<forall>s''. \<not> finishing sv t s''" for k t
    using finishing_stuck [OF finishing_runs_inv [OF that(1) inv]] that(2) by blast
  moreover have "\<exists>k t. (finishing sv ^^ k) s t \<and> at_rest t"
    using finishing_reaches_end rest by blast
  ultimately show ?thesis using finishing_bounded [of n sv s s'] by fastforce
qed

theorem comes_to_rest_witness:
  "\<exists>k t. (finishing plain_services ^^ k) asking_session t \<and> at_rest t"
  using comes_to_rest [OF fresh_session_def _ _ asking_reachable] by (simp add: distinct_keys_def)

text \<open>
  A source whose connection closes with status 200 before its end marker owes nothing: neither the
  error event nor the ready-state event of the closed source changes the session, and the reply
  stays pending until the user stops it.
\<close>

lemma clean_close_ignored:
  "onSourceReadyState sv clk i (Some 2) (Some 200) s = s"
  "onSourceError sv clk i (Some 2) data s = s"
  by (simp_all add: onSourceReadyState_def onSourceError_def getStreamReadyStateError_def
      isStreamClosedReadyState_def STREAM_CLOSED_READY_STATE_def)

end
