(* ===== verification/Status_Rules.thy ===== *)
theory Status_Rules
  imports Json "HOL-Library.Product_Lexorder"
begin

text \<open>
  \<open>lib/http-status-code-rules.ts\<close>: the rules that name HTTP status codes and ranges of them.
  Texts are lists of UTF-16 code units, because the parser also accepts the full-width comma
  U+FF0C. The lemmas show that parsing yields the canonical list of ranges of the set of codes
  that the rules name.
\<close>

type_synonym units = "nat list"

section \<open>The parser\<close>

record StatusCodeRange =
  rg_start :: nat
  rg_end :: nat

record ParsedHttpStatusCodeRules =
  pr_ok :: bool
  pr_ranges :: "StatusCodeRange list"
  pr_tokens :: "units list"
  pr_normalized :: units
  pr_invalidTokens :: "units list"

abbreviation trim_units :: "units \<Rightarrow> units" where
  "trim_units \<equiv> trim_by is_space_unit"

abbreviation comma_unit :: nat where "comma_unit \<equiv> 44"
abbreviation minus_unit :: nat where "minus_unit \<equiv> 45"
abbreviation wide_comma_unit :: nat where "wide_comma_unit \<equiv> 65292"

definition is_digit_unit :: "nat \<Rightarrow> bool" where
  "is_digit_unit u \<longleftrightarrow> 48 \<le> u \<and> u \<le> 57"

definition isNumber :: "units option \<Rightarrow> bool" where
  "isNumber s = (case s of None \<Rightarrow> False | Some us \<Rightarrow> us \<noteq> [] \<and> list_all is_digit_unit us)"

text \<open>\<open>Number.parseInt(s, 10)\<close> on a text of digits.\<close>

definition parseInt :: "units \<Rightarrow> nat" where
  "parseInt us = foldl (\<lambda>a u. a * 10 + (u - 48)) 0 us"

definition isValidCode :: "nat \<Rightarrow> bool" where
  "isValidCode code \<longleftrightarrow> 100 \<le> code \<and> code \<le> 599"

definition nth_part :: "'a list \<Rightarrow> nat \<Rightarrow> 'a option" where
  "nth_part xs i = (if i < length xs then Some (xs ! i) else None)"

definition parseToken :: "units \<Rightarrow> StatusCodeRange option" where
  "parseToken token =
     (let cleaned = filter (\<lambda>u. \<not> is_space_unit u) (trim_units token)
      in if cleaned = [] then None
         else if contains cleaned [minus_unit]
         then (let parts = split_on minus_unit cleaned; a = nth_part parts 0; b = nth_part parts 1
               in if \<not> isNumber a \<or> \<not> isNumber b then None
                  else let start = parseInt (the a); endCode = parseInt (the b)
                       in if \<not> isValidCode start \<or> \<not> isValidCode endCode \<or> start > endCode then None
                          else Some \<lparr>rg_start = start, rg_end = endCode\<rparr>)
         else if \<not> isNumber (Some cleaned) then None
         else let code = parseInt cleaned
              in if \<not> isValidCode code then None else Some \<lparr>rg_start = code, rg_end = code\<rparr>)"

text \<open>One round of the \<open>reduce\<close>; the last range is extended in place.\<close>

definition merge_step :: "StatusCodeRange list \<Rightarrow> StatusCodeRange \<Rightarrow> StatusCodeRange list" where
  "merge_step merged current =
     (if merged = [] \<or> rg_start current > rg_end (last merged) + 1 then merged @ [current]
      else butlast merged @ [(last merged)\<lparr>rg_end := max (rg_end (last merged)) (rg_end current)\<rparr>])"

definition mergeRanges :: "StatusCodeRange list \<Rightarrow> StatusCodeRange list" where
  "mergeRanges ranges =
     (if ranges = [] then []
      else foldl merge_step [] (sort_key (\<lambda>r. (rg_start r, rg_end r)) ranges))"

definition number_units :: "nat \<Rightarrow> units" where
  "number_units n = map of_char (nat_digits n)"

definition range_token :: "StatusCodeRange \<Rightarrow> units" where
  "range_token r =
     (if rg_start r = rg_end r then number_units (rg_start r)
      else number_units (rg_start r) @ [minus_unit] @ number_units (rg_end r))"

definition rule_segments :: "units \<Rightarrow> units list" where
  "rule_segments raw =
     filter (\<lambda>s. s \<noteq> []) (map trim_units
       (split_on comma_unit (map (\<lambda>u. if u = wide_comma_unit then comma_unit else u) raw)))"

definition parseHttpStatusCodeRules :: "units option \<Rightarrow> ParsedHttpStatusCodeRules" where
  "parseHttpStatusCodeRules input =
     (let raw = trim_units (nullish input [])
      in if length raw = 0
         then \<lparr>pr_ok = True, pr_ranges = [], pr_tokens = [], pr_normalized = [], pr_invalidTokens = []\<rparr>
         else let segments = rule_segments raw;
                  ranges = List.map_filter parseToken segments;
                  invalidTokens = filter (\<lambda>s. parseToken s = None) segments
              in if 0 < length invalidTokens
                 then \<lparr>pr_ok = False, pr_ranges = [], pr_tokens = [], pr_normalized = raw,
                       pr_invalidTokens = invalidTokens\<rparr>
                 else let merged = mergeRanges ranges; tokens = map range_token merged
                      in \<lparr>pr_ok = True, pr_ranges = merged, pr_tokens = tokens,
                          pr_normalized = join [comma_unit] tokens, pr_invalidTokens = []\<rparr>)"

section \<open>Canonical lists of ranges\<close>

definition codes :: "StatusCodeRange list \<Rightarrow> nat set" where
  "codes rs = (\<Union>r\<in>set rs. {rg_start r..rg_end r})"

lemma codes_simps [simp]:
  "codes [] = {}" "codes (r # rs) = {rg_start r..rg_end r} \<union> codes rs"
  "codes (rs @ rs') = codes rs \<union> codes rs'"
  by (auto simp: codes_def)

definition apart :: "StatusCodeRange \<Rightarrow> StatusCodeRange \<Rightarrow> bool" where
  "apart a b \<longleftrightarrow> rg_end a + 1 < rg_start b"

definition proper :: "StatusCodeRange \<Rightarrow> bool" where
  "proper r \<longleftrightarrow> rg_start r \<le> rg_end r"

definition canonical :: "StatusCodeRange list \<Rightarrow> bool" where
  "canonical rs \<longleftrightarrow> sorted_wrt apart rs \<and> list_all proper rs"

lemma canonical_Cons [simp]:
  "canonical (r # rs) \<longleftrightarrow> (\<forall>x\<in>set rs. apart r x) \<and> proper r \<and> canonical rs"
  by (auto simp: canonical_def)

lemma codes_after: "(\<And>x. x \<in> set rs \<Longrightarrow> apart r x) \<Longrightarrow> c \<in> codes rs \<Longrightarrow> rg_end r + 1 < c"
  by (fastforce simp: codes_def apart_def)

lemma canonical_end_le:
  assumes "canonical (x # xs)" "canonical (y # ys)" "codes (x # xs) = codes (y # ys)"
    "rg_start x = rg_start y"
  shows "rg_end y \<le> rg_end x"
proof (rule ccontr)
  assume "\<not> rg_end y \<le> rg_end x"
  moreover have "rg_start x \<le> rg_end x" using assms(1) by (simp add: proper_def)
  ultimately have "rg_end x + 1 \<in> codes (y # ys)" using assms(4) by simp
  then have "rg_end x + 1 \<in> codes (x # xs)" unfolding assms(3) .
  then have "rg_end x + 1 \<in> codes xs" by simp
  then show False using codes_after [of xs x "rg_end x + 1"] assms(1) by auto
qed

lemma canonical_start_le:
  assumes "canonical (x # xs)" "canonical (y # ys)" "codes (x # xs) = codes (y # ys)"
  shows "rg_start x \<le> rg_start y"
proof -
  have "rg_start y \<in> codes (x # xs)" using assms(2,3) by (simp add: proper_def)
  then show ?thesis
    using codes_after [of xs x "rg_start y"] assms(1) by (auto simp: proper_def)
qed

text \<open>A set of codes has one canonical list.\<close>

lemma canonical_unique: "canonical xs \<Longrightarrow> canonical ys \<Longrightarrow> codes xs = codes ys \<Longrightarrow> xs = ys"
proof (induction xs arbitrary: ys)
  case Nil
  then show ?case by (cases ys) (auto simp: proper_def)
next
  case (Cons x xs)
  have "codes (x # xs) \<noteq> {}" using Cons.prems(1) by (auto simp: proper_def)
  then obtain y ys' where ys: "ys = y # ys'" using Cons.prems(3) by (cases ys) auto
  note can = Cons.prems(1) Cons.prems(2) [unfolded ys]
  note eq = Cons.prems(3) [unfolded ys]
  have s: "rg_start x = rg_start y"
    by (rule antisym [OF canonical_start_le [OF can eq] canonical_start_le [OF can(2,1) eq [symmetric]]])
  have e: "rg_end x = rg_end y"
    by (rule antisym [OF canonical_end_le [OF can(2,1) eq [symmetric] s [symmetric]]
          canonical_end_le [OF can eq s]])
  have xy: "x = y" using s e by (cases x; cases y) simp
  have tail: "codes zs = codes (z # zs) - {rg_start z..rg_end z}" if "canonical (z # zs)" for z zs
    using codes_after [of zs z] that by fastforce
  have "codes xs = codes ys'"
    using tail [OF can(1)] tail [OF can(2)] eq xy by (metis (no_types))
  then have "xs = ys'" using can by (intro Cons.IH) simp_all
  then show ?case using ys xy by blast
qed

section \<open>Merging\<close>

lemma proper_sort: "list_all proper rs \<Longrightarrow> list_all proper (sort_key f rs)"
  by (simp add: list_all_iff)

lemma codes_sort [simp]: "codes (sort_key f rs) = codes rs"
  by (simp add: codes_def)

text \<open>What holds of the ranges merged so far, all of which start before the next one.\<close>

lemma merge_step_canonical:
  assumes "canonical merged" "proper r" "\<forall>x\<in>set merged. rg_start x \<le> rg_start r"
  shows "canonical (merge_step merged r) \<and> codes (merge_step merged r) = codes merged \<union> codes [r] \<and>
    (\<forall>x\<in>set (merge_step merged r). rg_start x \<le> rg_start r)"
proof (cases merged rule: rev_cases)
  case Nil
  then show ?thesis using assms by (simp add: merge_step_def canonical_def)
next
  case (snoc ms l)
  have l: "rg_start l \<le> rg_start r" "proper l" "canonical ms" "\<forall>x\<in>set ms. apart x l"
    "\<forall>x\<in>set ms. rg_start x \<le> rg_start r"
    using assms snoc by (auto simp: canonical_def sorted_wrt_append)
  show ?thesis
  proof (cases "rg_start r > rg_end l + 1")
    case True
    then have "\<forall>x\<in>set ms. apart x r" using l by (auto simp: apart_def)
    then show ?thesis
      using True l assms(2) snoc by (simp add: merge_step_def canonical_def sorted_wrt_append apart_def
          Un_assoc)
  next
    case False
    let ?l = "l\<lparr>rg_end := max (rg_end l) (rg_end r)\<rparr>"
    have "merge_step merged r = ms @ [?l]" using False snoc by (simp add: merge_step_def)
    moreover have "canonical (ms @ [?l])"
      using l by (simp add: canonical_def sorted_wrt_append apart_def proper_def)
    moreover have "{rg_start ?l..rg_end ?l} = {rg_start l..rg_end l} \<union> {rg_start r..rg_end r}"
      using False l(1,2) assms(2) by (auto simp: proper_def)
    ultimately show ?thesis using l snoc by auto
  qed
qed

lemma foldl_merge_step:
  "canonical merged \<Longrightarrow> list_all proper rs \<Longrightarrow> sorted (map rg_start rs) \<Longrightarrow>
   \<forall>x\<in>set merged. \<forall>r\<in>set rs. rg_start x \<le> rg_start r \<Longrightarrow>
   canonical (foldl merge_step merged rs) \<and>
   codes (foldl merge_step merged rs) = codes merged \<union> codes rs"
proof (induction rs arbitrary: merged)
  case (Cons r rs)
  have ms: "canonical (merge_step merged r) \<and> codes (merge_step merged r) = codes merged \<union> codes [r] \<and>
    (\<forall>x\<in>set (merge_step merged r). rg_start x \<le> rg_start r)"
    using Cons.prems by (intro merge_step_canonical) auto
  then have "\<forall>x\<in>set (merge_step merged r). \<forall>y\<in>set rs. rg_start x \<le> rg_start y"
    using Cons.prems(3) by (auto intro: order_trans)
  then show ?case
    using Cons.IH [of "merge_step merged r"] Cons.prems(2,3) ms by (auto simp: Un_assoc)
qed simp

lemma sorted_starts: "sorted (map rg_start (sort_key (\<lambda>r. (rg_start r, rg_end r)) rs))"
proof -
  have "sorted (map (\<lambda>r. (rg_start r, rg_end r)) (sort_key (\<lambda>r. (rg_start r, rg_end r)) rs))"
    by (rule sorted_sort_key)
  then show ?thesis
    unfolding sorted_map by (rule sorted_wrt_mono_rel [rotated]) (auto simp: less_eq_prod_def)
qed

lemma mergeRanges_canonical:
  assumes "list_all proper rs"
  shows "canonical (mergeRanges rs)" "codes (mergeRanges rs) = codes rs"
proof -
  have "canonical (foldl merge_step [] (sort_key (\<lambda>r. (rg_start r, rg_end r)) rs)) \<and>
    codes (foldl merge_step [] (sort_key (\<lambda>r. (rg_start r, rg_end r)) rs)) = codes rs"
    using foldl_merge_step [of "[]", OF _ proper_sort [OF assms] sorted_starts]
    by (simp add: canonical_def)
  then show "canonical (mergeRanges rs)" "codes (mergeRanges rs) = codes rs"
    by (auto simp: mergeRanges_def canonical_def)
qed

section \<open>Tokens\<close>

definition valid_range :: "StatusCodeRange \<Rightarrow> bool" where
  "valid_range r \<longleftrightarrow> 100 \<le> rg_start r \<and> rg_start r \<le> rg_end r \<and> rg_end r \<le> 599"

lemma parseToken_valid: "parseToken t = Some r \<Longrightarrow> valid_range r"
  by (auto simp: parseToken_def Let_def isValidCode_def valid_range_def split: if_splits)

lemma digit_unit_of_char: "is_digit c \<Longrightarrow> is_digit_unit (of_char c)"
  by (simp add: is_digit_def is_digit_unit_def)

lemma digit_unit_facts:
  "is_digit_unit u \<Longrightarrow> \<not> is_space_unit u \<and> u \<noteq> comma_unit \<and> u \<noteq> minus_unit \<and> u \<noteq> wide_comma_unit"
  by (auto simp: is_digit_unit_def is_space_unit_def)

lemma number_units_digits: "u \<in> set (number_units n) \<Longrightarrow> is_digit_unit u"
  by (auto simp: number_units_def dest!: nat_digits_digits intro: digit_unit_of_char)

lemma number_units_not_Nil [simp]: "number_units n \<noteq> []"
  by (simp add: number_units_def)

lemma parseInt_number_units [simp]: "parseInt (number_units n) = n"
proof -
  have "foldl (\<lambda>a u. a * 10 + (u - 48)) a (map of_char s) = foldl (\<lambda>a c. a * 10 + digit_val c) a s" for a s
    by (induction s arbitrary: a) (simp_all add: digit_val_def)
  from this [of 0 "nat_digits n"] show ?thesis
    by (simp add: parseInt_def number_units_def digits_val_def [symmetric])
qed

lemma isNumber_number_units [simp]: "isNumber (Some (number_units n))"
  by (simp add: isNumber_def list_all_iff number_units_digits)

text \<open>The units of a printed range: digits and at most one minus sign.\<close>

lemma range_token_units:
  assumes "u \<in> set (range_token r)"
  shows "\<not> is_space_unit u \<and> u \<noteq> comma_unit \<and> u \<noteq> wide_comma_unit"
proof -
  have "is_digit_unit u \<or> u = minus_unit"
    using assms number_units_digits by (auto simp: range_token_def split: if_splits)
  then show ?thesis using digit_unit_facts by (auto simp: is_space_unit_def)
qed

lemma range_token_not_Nil [simp]: "range_token r \<noteq> []"
  by (simp add: range_token_def)

lemma contains_single: "contains s [c] \<longleftrightarrow> c \<in> set s"
  by (auto simp: contains_iff in_set_conv_decomp)

lemma minus_not_in_number: "minus_unit \<notin> set (number_units n)"
  using number_units_digits [of minus_unit n] by (auto simp: is_digit_unit_def)

lemma clean_token: "filter (\<lambda>u. \<not> is_space_unit u) (trim_units (range_token r)) = range_token r"
  using range_token_units [of _ r] by (simp add: trim_by_no_space)

lemma parse_range_token:
  assumes "valid_range r"
  shows "parseToken (range_token r) = Some r"
proof (cases "rg_start r = rg_end r")
  case True
  then have t: "range_token r = number_units (rg_start r)" by (simp add: range_token_def)
  show ?thesis
    unfolding parseToken_def clean_token Let_def
    using assms True by (simp add: t contains_single minus_not_in_number isValidCode_def valid_range_def)
next
  case False
  then have t: "range_token r = number_units (rg_start r) @ minus_unit # number_units (rg_end r)"
    by (simp add: range_token_def)
  have "split_on minus_unit (range_token r) = [number_units (rg_start r), number_units (rg_end r)]"
    unfolding t using minus_not_in_number by (simp add: split_on_append_sep split_on_no_sep)
  then show ?thesis
    unfolding parseToken_def clean_token Let_def
    using assms by (simp add: contains_single nth_part_def isValidCode_def valid_range_def t)
qed

lemma segments_of_tokens:
  assumes "rs \<noteq> []"
  shows "trim_units (join [comma_unit] (map range_token rs)) = join [comma_unit] (map range_token rs)"
    "rule_segments (join [comma_unit] (map range_token rs)) = map range_token rs"
    "join [comma_unit] (map range_token rs) \<noteq> []"
proof -
  let ?j = "join [comma_unit] (map range_token rs)"
  have u: "\<not> is_space_unit u \<and> u \<noteq> wide_comma_unit" if "u \<in> set ?j" for u
  proof -
    have "u = comma_unit \<or> (\<exists>r\<in>set rs. u \<in> set (range_token r))"
      using that set_join_subset [of comma_unit "map range_token rs"] by auto
    then show ?thesis using range_token_units by (auto simp: is_space_unit_def)
  qed
  show t: "trim_units ?j = ?j" using u by (intro trim_by_no_space) blast
  have "map (\<lambda>u. if u = wide_comma_unit then comma_unit else u) ?j = ?j"
    using u by (intro map_idI) auto
  moreover have "split_on comma_unit ?j = map range_token rs"
    using assms range_token_units by (intro split_on_join) auto
  moreover have "trim_units (range_token r) = range_token r" for r
    using range_token_units by (intro trim_by_no_space) blast
  ultimately show "rule_segments ?j = map range_token rs"
    by (simp add: rule_segments_def comp_def filter_map)
  show "?j \<noteq> []" using assms by (cases rs; cases "tl rs") (auto simp: join_Cons)
qed

section \<open>What parsing returns\<close>

text \<open>The ranges the tokens of an input name, and the codes they stand for.\<close>

definition named_ranges :: "units \<Rightarrow> StatusCodeRange list" where
  "named_ranges input = List.map_filter parseToken (rule_segments (trim_units input))"

definition all_valid :: "units \<Rightarrow> bool" where
  "all_valid input \<longleftrightarrow> list_all (\<lambda>s. parseToken s \<noteq> None) (rule_segments (trim_units input))"

lemma named_ranges_valid: "list_all valid_range (named_ranges input)"
  by (auto simp: named_ranges_def list_all_iff map_filter_def dest: parseToken_valid)

lemma named_ranges_proper: "list_all proper (named_ranges input)"
  using named_ranges_valid [of input] by (auto simp: list_all_iff valid_range_def proper_def)

lemma parse_ok_iff: "pr_ok (parseHttpStatusCodeRules (Some input)) \<longleftrightarrow> all_valid input"
proof (cases "trim_units input = []")
  case True
  then show ?thesis by (simp add: parseHttpStatusCodeRules_def all_valid_def rule_segments_def)
next
  case False
  then show ?thesis
    by (auto simp: parseHttpStatusCodeRules_def Let_def all_valid_def list_all_iff filter_empty_conv)
qed

lemma parse_ok_result:
  assumes "all_valid input"
  shows "pr_ranges (parseHttpStatusCodeRules (Some input)) = mergeRanges (named_ranges input)"
    "pr_tokens (parseHttpStatusCodeRules (Some input)) = map range_token (mergeRanges (named_ranges input))"
    "pr_normalized (parseHttpStatusCodeRules (Some input)) =
       join [comma_unit] (map range_token (mergeRanges (named_ranges input)))"
proof -
  have "filter (\<lambda>s. parseToken s = None) (rule_segments (trim_units input)) = []"
    using assms by (auto simp: all_valid_def list_all_iff filter_empty_conv)
  then show "pr_ranges (parseHttpStatusCodeRules (Some input)) = mergeRanges (named_ranges input)"
    "pr_tokens (parseHttpStatusCodeRules (Some input)) = map range_token (mergeRanges (named_ranges input))"
    "pr_normalized (parseHttpStatusCodeRules (Some input)) =
       join [comma_unit] (map range_token (mergeRanges (named_ranges input)))"
    by (auto simp: parseHttpStatusCodeRules_def Let_def named_ranges_def rule_segments_def
        mergeRanges_def map_filter_simps)
qed

lemma merged_valid:
  assumes "list_all valid_range rs"
  shows "list_all valid_range (mergeRanges rs)"
proof -
  have p: "list_all proper rs" using assms by (auto simp: list_all_iff valid_range_def proper_def)
  note m = mergeRanges_canonical [OF p]
  have c: "codes rs \<subseteq> {100..599}" using assms by (fastforce simp: codes_def list_all_iff valid_range_def)
  show ?thesis
    unfolding list_all_iff
  proof
    fix r assume r: "r \<in> set (mergeRanges rs)"
    then have pr: "rg_start r \<le> rg_end r" using m(1) by (auto simp: canonical_def list_all_iff proper_def)
    have "{rg_start r..rg_end r} \<subseteq> codes (mergeRanges rs)" using r by (auto simp: codes_def)
    then have "{rg_start r..rg_end r} \<subseteq> {100..599}" using m(2) c by (metis order_trans)
    then show "valid_range r" using pr by (simp add: valid_range_def)
  qed
qed

lemma map_filter_tokens:
  "list_all valid_range rs \<Longrightarrow> List.map_filter parseToken (map range_token rs) = rs"
  by (induction rs) (simp_all add: map_filter_simps parse_range_token)

text \<open>Reading back what was printed for valid canonical ranges.\<close>

lemma parse_printed:
  assumes "canonical rs" "list_all valid_range rs"
  shows "all_valid (join [comma_unit] (map range_token rs))"
    "pr_ranges (parseHttpStatusCodeRules (Some (join [comma_unit] (map range_token rs)))) = rs"
proof -
  let ?j = "join [comma_unit] (map range_token rs)"
  have seg: "rule_segments (trim_units ?j) = map range_token rs"
    using segments_of_tokens [of rs] by (cases "rs = []") (simp_all add: rule_segments_def)
  show v: "all_valid ?j"
    using assms(2) by (simp add: all_valid_def seg list_all_iff parse_range_token)
  have n: "named_ranges ?j = rs" using assms(2) by (simp add: named_ranges_def seg map_filter_tokens)
  have "mergeRanges rs = rs"
    using assms mergeRanges_canonical [of rs] by (intro canonical_unique) (auto simp: canonical_def)
  then show "pr_ranges (parseHttpStatusCodeRules (Some ?j)) = rs"
    using parse_ok_result(1) [OF v] n by simp
qed

section \<open>What a token names\<close>

definition digits :: "units \<Rightarrow> bool" where
  "digits s \<longleftrightarrow> s \<noteq> [] \<and> list_all is_digit_unit s"

text \<open>
  Apart from white space, a token is a number, or two numbers with a minus sign between them; what
  follows a second minus sign is ignored. The numbers are codes from 100 to 599, in order.
\<close>

definition token_names :: "units \<Rightarrow> StatusCodeRange \<Rightarrow> bool" where
  "token_names t r \<longleftrightarrow> valid_range r \<and>
     (let s = filter (\<lambda>u. \<not> is_space_unit u) t
      in digits s \<and> rg_start r = parseInt s \<and> rg_end r = parseInt s \<or>
         (\<exists>a b rest. s = a @ minus_unit # b @ rest \<and> (rest = [] \<or> hd rest = minus_unit) \<and> digits a \<and> digits b \<and>
            rg_start r = parseInt a \<and> rg_end r = parseInt b))"

definition invalid_tokens :: "units \<Rightarrow> units list" where
  "invalid_tokens input = filter (\<lambda>t. \<nexists>r. token_names t r) (rule_segments (trim_units input))"

definition named_codes :: "units \<Rightarrow> nat set" where
  "named_codes input =
     {c. \<exists>t r. t \<in> set (rule_segments (trim_units input)) \<and> token_names t r \<and> rg_start r \<le> c \<and> c \<le> rg_end r}"

lemma filter_dropWhile_not: "filter (\<lambda>x. \<not> p x) (dropWhile p s) = filter (\<lambda>x. \<not> p x) s"
  by (induction s) auto

lemma filter_trim: "filter (\<lambda>x. \<not> p x) (trim_by p s) = filter (\<lambda>x. \<not> p x) s"
  unfolding trim_by_def by (simp only: rev_filter [symmetric] filter_dropWhile_not rev_rev_ident)

lemma hd_split_on: "hd (split_on c s) = takeWhile (\<lambda>x. x \<noteq> c) s"
  by (induction s) (auto split: list.splits dest: arg_cong [where f = hd])

lemma digits_no_minus: "digits s \<Longrightarrow> minus_unit \<notin> set s"
  by (auto simp: digits_def list_all_iff is_digit_unit_def)

lemma parts_of_range:
  assumes "minus_unit \<notin> set a"
  shows "nth_part (split_on minus_unit (a @ minus_unit # s)) 0 = Some a"
    "nth_part (split_on minus_unit (a @ minus_unit # s)) 1 = Some (takeWhile (\<lambda>x. x \<noteq> minus_unit) s)"
  using split_on_append_sep [OF assms, of s] hd_split_on [of minus_unit s]
  by (simp_all add: nth_part_def hd_conv_nth)

lemma first_separator: "a @ c # s = a' @ c # s' \<Longrightarrow> c \<notin> set a \<Longrightarrow> c \<notin> set a' \<Longrightarrow> a = a' \<and> s = s'"
proof (induction a arbitrary: a')
  case Nil
  then show ?case by (cases a') auto
next
  case (Cons x a)
  then show ?case by (cases a') auto
qed

lemma range_parts:
  assumes "minus_unit \<notin> set a"
  shows "(\<exists>a' b rest. a @ minus_unit # s = a' @ minus_unit # b @ rest \<and> (rest = [] \<or> hd rest = minus_unit) \<and>
      digits a' \<and> digits b \<and> P a' b) \<longleftrightarrow>
    digits a \<and> digits (takeWhile (\<lambda>x. x \<noteq> minus_unit) s) \<and> P a (takeWhile (\<lambda>x. x \<noteq> minus_unit) s)"
proof
  assume "\<exists>a' b rest. a @ minus_unit # s = a' @ minus_unit # b @ rest \<and> (rest = [] \<or> hd rest = minus_unit) \<and>
      digits a' \<and> digits b \<and> P a' b"
  then obtain a' b rest where e: "a @ minus_unit # s = a' @ minus_unit # b @ rest" "rest = [] \<or> hd rest = minus_unit"
    "digits a'" "digits b" "P a' b" by blast
  have "minus_unit \<notin> set a'" "minus_unit \<notin> set b" using e(3,4) by (simp_all add: digits_no_minus)
  then have "a = a'" "s = b @ rest" using first_separator [OF e(1) assms] by simp_all
  moreover have "takeWhile (\<lambda>x. x \<noteq> minus_unit) (b @ rest) = b"
    using \<open>minus_unit \<notin> set b\<close> e(2) by (cases rest) (auto simp: takeWhile_append takeWhile_eq_all_conv)
  ultimately show "digits a \<and> digits (takeWhile (\<lambda>x. x \<noteq> minus_unit) s) \<and> P a (takeWhile (\<lambda>x. x \<noteq> minus_unit) s)"
    using e(3-5) by simp
next
  let ?b = "takeWhile (\<lambda>x. x \<noteq> minus_unit) s" and ?r = "dropWhile (\<lambda>x. x \<noteq> minus_unit) s"
  have "?r = [] \<or> hd ?r = minus_unit" using hd_dropWhile [of "\<lambda>x. x \<noteq> minus_unit" s] by blast
  moreover have "a @ minus_unit # s = a @ minus_unit # ?b @ ?r" by simp
  moreover assume "digits a \<and> digits ?b \<and> P a ?b"
  ultimately show "\<exists>a' b rest. a @ minus_unit # s = a' @ minus_unit # b @ rest \<and> (rest = [] \<or> hd rest = minus_unit) \<and>
      digits a' \<and> digits b \<and> P a' b" by blast
qed

lemma parseToken_iff: "parseToken t = Some r \<longleftrightarrow> token_names t r"
proof -
  define s where "s = filter (\<lambda>u. \<not> is_space_unit u) t"
  have c: "filter (\<lambda>u. \<not> is_space_unit u) (trim_units t) = s" by (simp only: filter_trim s_def)
  have n: "isNumber (Some w) = digits w" for w by (simp add: isNumber_def digits_def)
  have eta: "r = \<lparr>rg_start = x, rg_end = y\<rparr> \<longleftrightarrow> rg_start r = x \<and> rg_end r = y" for x y by (cases r) auto
  show ?thesis
  proof (cases "minus_unit \<in> set s")
    case True
    then obtain a u where a: "s = a @ minus_unit # u" "minus_unit \<notin> set a" by (meson split_list_first)
    have "\<not> digits s" using digits_no_minus [of s] True by blast
    then have "token_names t r \<longleftrightarrow> valid_range r \<and> digits a \<and> digits (takeWhile (\<lambda>x. x \<noteq> minus_unit) u) \<and>
        rg_start r = parseInt a \<and> rg_end r = parseInt (takeWhile (\<lambda>x. x \<noteq> minus_unit) u)"
      unfolding token_names_def Let_def s_def [symmetric]
      using range_parts [OF a(2), of u "\<lambda>a b. rg_start r = parseInt a \<and> rg_end r = parseInt b"] by (simp add: a(1))
    then show ?thesis unfolding parseToken_def Let_def c
      using True parts_of_range [OF a(2), of u] a(1) eta [of "parseInt a"]
      by (auto simp: contains_single n valid_range_def isValidCode_def)
  next
    case False
    then have "token_names t r \<longleftrightarrow> valid_range r \<and> digits s \<and> rg_start r = parseInt s \<and> rg_end r = parseInt s"
      unfolding token_names_def Let_def s_def [symmetric] by auto
    then show ?thesis unfolding parseToken_def Let_def c
      using False eta by (auto simp: contains_single n valid_range_def isValidCode_def digits_def)
  qed
qed

lemma token_unnamed: "parseToken t = None \<longleftrightarrow> (\<nexists>r. token_names t r)"
  by (metis not_None_eq parseToken_iff)

lemma all_valid_tokens: "all_valid input \<longleftrightarrow> invalid_tokens input = []"
  by (simp add: all_valid_def invalid_tokens_def list_all_iff filter_empty_conv token_unnamed del: not_None_eq)

lemma codes_named: "codes (named_ranges input) = named_codes input"
  unfolding codes_def named_ranges_def named_codes_def set_map_filter parseToken_iff by auto blast

lemma reported_tokens: "pr_invalidTokens (parseHttpStatusCodeRules (Some input)) = invalid_tokens input"
proof -
  have "filter (\<lambda>s. parseToken s = None) (rule_segments (trim_units input)) = invalid_tokens input"
    by (simp add: invalid_tokens_def token_unnamed)
  moreover have "trim_units input = [] \<Longrightarrow> invalid_tokens input = []"
    by (simp add: invalid_tokens_def rule_segments_def)
  ultimately show ?thesis by (auto simp: parseHttpStatusCodeRules_def Let_def)
qed

section \<open>Properties\<close>

text \<open>
  C29: the rules mean the set of codes their tokens name. The tokens reported as invalid are, in the
  order of the text, exactly those that name no code and no range of codes from 100 to 599, and the
  text is accepted exactly when there is none. The ranges returned then cover exactly the codes that
  the tokens name, are sorted, within those bounds, and no two of them touch; a text that is not
  accepted is returned trimmed, without ranges.
\<close>

theorem status_rules_denote:
  "pr_invalidTokens (parseHttpStatusCodeRules (Some input)) = invalid_tokens input \<and>
   pr_ok (parseHttpStatusCodeRules (Some input)) = (invalid_tokens input = []) \<and>
   (if invalid_tokens input = []
    then codes (pr_ranges (parseHttpStatusCodeRules (Some input))) = named_codes input \<and>
         canonical (pr_ranges (parseHttpStatusCodeRules (Some input))) \<and>
         list_all valid_range (pr_ranges (parseHttpStatusCodeRules (Some input)))
    else pr_ranges (parseHttpStatusCodeRules (Some input)) = [] \<and>
         pr_normalized (parseHttpStatusCodeRules (Some input)) = trim_units input)"
proof -
  have "\<not> all_valid input \<Longrightarrow> pr_ranges (parseHttpStatusCodeRules (Some input)) = [] \<and>
         pr_normalized (parseHttpStatusCodeRules (Some input)) = trim_units input"
    using parse_ok_iff [of input]
    by (auto simp: parseHttpStatusCodeRules_def Let_def split: if_splits)
  moreover note mergeRanges_canonical [OF named_ranges_proper, of input]
    merged_valid [OF named_ranges_valid, of input]
  ultimately show ?thesis
    using parse_ok_iff [of input] parse_ok_result(1) [of input]
    unfolding reported_tokens all_valid_tokens codes_named by (cases "invalid_tokens input = []") simp_all
qed

text \<open>
  C30: the normalized text is a normal form. Parsing it again is accepted and returns the same
  ranges and the same text, and two accepted inputs that name the same codes have the same
  normalized text.
\<close>

theorem status_rules_normal_form:
  assumes "pr_ok (parseHttpStatusCodeRules (Some input))"
  shows "pr_ok (parseHttpStatusCodeRules (Some (pr_normalized (parseHttpStatusCodeRules (Some input))))) \<and>
    pr_ranges (parseHttpStatusCodeRules (Some (pr_normalized (parseHttpStatusCodeRules (Some input))))) =
      pr_ranges (parseHttpStatusCodeRules (Some input)) \<and>
    pr_normalized (parseHttpStatusCodeRules (Some (pr_normalized (parseHttpStatusCodeRules (Some input))))) =
      pr_normalized (parseHttpStatusCodeRules (Some input)) \<and>
    (\<forall>other. pr_ok (parseHttpStatusCodeRules (Some other)) \<and>
       codes (named_ranges other) = codes (named_ranges input) \<longrightarrow>
       pr_normalized (parseHttpStatusCodeRules (Some other)) = pr_normalized (parseHttpStatusCodeRules (Some input)))"
proof -
  have v: "all_valid input" using assms by (simp add: parse_ok_iff)
  let ?rs = "mergeRanges (named_ranges input)"
  let ?j = "join [comma_unit] (map range_token ?rs)"
  note c = mergeRanges_canonical [OF named_ranges_proper, of input]
  note pp = parse_printed [OF c(1) merged_valid [OF named_ranges_valid]]
  have "pr_ranges (parseHttpStatusCodeRules (Some ?j)) = mergeRanges (named_ranges ?j)"
    by (rule parse_ok_result(1) [OF pp(1)])
  then have j: "mergeRanges (named_ranges ?j) = ?rs" using pp(2) by simp
  have o: "mergeRanges (named_ranges other) = ?rs"
    if "codes (named_ranges other) = codes (named_ranges input)" for other
    using that c mergeRanges_canonical [OF named_ranges_proper, of other] by (intro canonical_unique) auto
  have n: "pr_normalized (parseHttpStatusCodeRules (Some input)) = ?j" by (rule parse_ok_result(3) [OF v])
  have nj: "pr_normalized (parseHttpStatusCodeRules (Some ?j)) = ?j"
    using parse_ok_result(3) [OF pp(1)] unfolding j .
  have "pr_normalized (parseHttpStatusCodeRules (Some other)) = ?j"
    if "pr_ok (parseHttpStatusCodeRules (Some other))" "codes (named_ranges other) = codes (named_ranges input)"
    for other
    using parse_ok_result(3) [of other] that(1) unfolding parse_ok_iff o [OF that(2)] by simp
  then show ?thesis
    unfolding n nj parse_ok_iff parse_ok_result(1) [OF v] pp(2) using pp(1) by simp
qed

text \<open>The units of \<open>404, 401-403\<close>.\<close>

lemmas token_eval = parseToken_def Let_def trim_by_def is_space_unit_def contains_def nth_part_def
  isNumber_def is_digit_unit_def parseInt_def isValidCode_def

definition example_rules :: units where
  "example_rules = [52, 48, 52, 44, 32, 52, 48, 49, 45, 52, 48, 51]"

lemma example_rules_ok: "pr_ok (parseHttpStatusCodeRules (Some example_rules))"
  by (simp add: parse_ok_iff all_valid_def rule_segments_def example_rules_def token_eval)

theorem status_rules_normal_form_witness:
  "pr_ok (parseHttpStatusCodeRules (Some (pr_normalized (parseHttpStatusCodeRules (Some example_rules)))))"
  using status_rules_normal_form [OF example_rules_ok] by blast

text \<open>A token with two minus signs is accepted, and its third part is dropped (\<open>100-200-x\<close>).\<close>

lemma third_part_dropped:
  "parseToken [49, 48, 48, 45, 50, 48, 48, 45, 120] = Some \<lparr>rg_start = 100, rg_end = 200\<rparr>"
  by (simp add: token_eval)

end
