(* ===== verification/Model_Mapping.thy ===== *)
theory Model_Mapping
  imports Json
begin

text \<open>
  \<open>features/channels/lib/model-mapping-validation.ts\<close>: the list of models of a channel and the
  JSON object that maps the model names clients use to the names sent upstream. A JavaScript
  \<open>Set\<close> is the list of its elements in insertion order.
\<close>

section \<open>Operations\<close>

definition parseModelsString :: "string \<Rightarrow> string list" where
  "parseModelsString modelsStr =
     (if modelsStr = [] then []
      else filter (\<lambda>m. m \<noteq> []) (map trim (split_on CHR '','' modelsStr)))"

definition formatModelsArray :: "string list \<Rightarrow> string" where
  "formatModelsArray models = join '','' (uniq models)"

definition normalizeModelName :: "string \<Rightarrow> string" where
  "normalizeModelName model = trim model"

text \<open>\<open>JSON.parse\<close> followed by the check that the result is an object and no array.\<close>

definition parse_object :: "string \<Rightarrow> (string \<times> json) list option" where
  "parse_object s = (case JSON_parse s of Some (JObj kvs) \<Rightarrow> Some (Object_entries kvs) | _ \<Rightarrow> None)"

definition extractMappingSourceModels :: "string \<Rightarrow> string list" where
  "extractMappingSourceModels modelMapping =
     (let trimmed = trim modelMapping
      in if trimmed = [] then []
         else case parse_object trimmed of
                None \<Rightarrow> []
              | Some entries \<Rightarrow> uniq (filter (\<lambda>k. k \<noteq> []) (map (\<lambda>(k, _). trim k) entries)))"

definition text_value :: "json \<Rightarrow> string option" where
  "text_value v = (case v of JStr s \<Rightarrow> (if trim s = [] then None else Some (trim s)) | _ \<Rightarrow> None)"

definition extractRedirectModels :: "string \<Rightarrow> string list" where
  "extractRedirectModels modelMapping =
     (let trimmed = trim modelMapping
      in if trimmed = [] then []
         else case parse_object trimmed of
                None \<Rightarrow> []
              | Some entries \<Rightarrow> uniq (List.map_filter (\<lambda>(_, v). text_value v) entries))"

definition hasModelConfigChanged :: "string list \<Rightarrow> string \<Rightarrow> string list \<Rightarrow> string \<Rightarrow> bool" where
  "hasModelConfigChanged currentModels currentModelMapping initialModels initialModelMapping =
     (if length initialModels = 0 \<and> initialModelMapping = [] then True
      else if length currentModels \<noteq> length initialModels then True
      else if list_ex (\<lambda>i. currentModels ! i \<noteq> initialModels ! i) [0..<length currentModels] then True
      else trim currentModelMapping \<noteq> trim initialModelMapping)"

definition findMissingModelsInMapping :: "string \<Rightarrow> string list \<Rightarrow> string list" where
  "findMissingModelsInMapping modelMapping currentModels =
     (if modelMapping = [] \<or> trim modelMapping = [] then []
      else case parse_object modelMapping of
             None \<Rightarrow> []
           | Some entries \<Rightarrow>
               (let modelSet = map normalizeModelName currentModels
                in uniq (filter (\<lambda>key. key \<noteq> [] \<and> key \<notin> set modelSet)
                     (map (\<lambda>(k, _). normalizeModelName k) entries))))"

datatype MappingCheck = ValidMapping | NotAnObject | NotStrings | NotJson

definition validateModelMappingJson :: "string \<Rightarrow> MappingCheck" where
  "validateModelMappingJson modelMapping =
     (if modelMapping = [] \<or> trim modelMapping = [] then ValidMapping
      else case JSON_parse modelMapping of
             None \<Rightarrow> NotJson
           | Some (JObj kvs) \<Rightarrow>
               if list_ex (\<lambda>(_, v). case v of JStr _ \<Rightarrow> False | _ \<Rightarrow> True) (Object_entries kvs)
               then NotStrings else ValidMapping
           | Some _ \<Rightarrow> NotAnObject)"

definition findExposedTargetModels :: "string \<Rightarrow> string list \<Rightarrow> string list" where
  "findExposedTargetModels modelMapping currentModels =
     (let redirectModels = extractRedirectModels modelMapping
      in if length redirectModels = 0 then []
         else let modelSet = map normalizeModelName currentModels
              in filter (\<lambda>model. normalizeModelName model \<in> set modelSet) redirectModels)"

record ModelCategories =
  normalizedCurrentModels :: "string list"
  normalizedRedirectModels :: "string list"
  classificationSet :: "string list"
  redirectOnlySet :: "string list"

definition categorizeModelsWithRedirect :: "string list \<Rightarrow> string list \<Rightarrow> ModelCategories" where
  "categorizeModelsWithRedirect currentModels redirectModels =
     (let current = uniq (filter (\<lambda>m. m \<noteq> []) (map normalizeModelName currentModels));
          redirect = uniq (filter (\<lambda>m. m \<noteq> []) (map normalizeModelName redirectModels))
      in \<lparr>normalizedCurrentModels = current, normalizedRedirectModels = redirect,
          classificationSet = uniq (current @ redirect),
          redirectOnlySet = uniq (filter (\<lambda>m. m \<notin> set current) redirect)\<rparr>)"

section \<open>Lemmas\<close>

text \<open>A name that can stand in a comma separated list.\<close>

definition clean_name :: "string \<Rightarrow> bool" where
  "clean_name m \<longleftrightarrow> m \<noteq> [] \<and> trim m = m \<and> CHR '','' \<notin> set m"

lemma parseModelsString_clean: "list_all clean_name (parseModelsString s)"
proof -
  have "CHR '','' \<notin> set (trim p)" if "p \<in> set (split_on CHR '','' s)" for p
    using split_on_parts [OF that] set_trim_by [of is_space p] by blast
  then show ?thesis
    by (auto simp: parseModelsString_def list_all_iff clean_name_def)
qed

lemma join_not_Nil: "xs \<noteq> [] \<Longrightarrow> list_all (\<lambda>x. x \<noteq> []) xs \<Longrightarrow> join sep xs \<noteq> []"
  by (cases xs; cases "tl xs") (auto simp: join_Cons)

lemma parse_join:
  assumes "list_all clean_name ms"
  shows "parseModelsString (join '','' ms) = ms"
proof (cases "ms = []")
  case False
  have ne: "join '','' ms \<noteq> []" using False assms by (intro join_not_Nil) (auto simp: list_all_iff clean_name_def)
  have "split_on CHR '','' (join '','' ms) = ms"
    using assms False by (intro split_on_join) (auto simp: list_all_iff clean_name_def)
  moreover have "filter (\<lambda>m. m \<noteq> []) (map trim ms) = ms"
    using assms by (induction ms) (auto simp: clean_name_def)
  ultimately show ?thesis using ne by (simp add: parseModelsString_def)
qed (simp add: parseModelsString_def)

lemma list_all_uniq [simp]: "list_all P (uniq xs) = list_all P xs"
  by (simp add: list_all_iff)

lemma text_value_Some: "text_value v = Some t \<longleftrightarrow> (\<exists>s. v = JStr s \<and> t = trim s \<and> trim s \<noteq> [])"
  by (auto simp: text_value_def split: json.splits)

lemma set_extractRedirectModels:
  "set (extractRedirectModels mp) =
     (if trim mp = [] then {}
      else case parse_object (trim mp) of None \<Rightarrow> {}
           | Some entries \<Rightarrow> {trim s | s. (\<exists>k. (k, JStr s) \<in> set entries) \<and> trim s \<noteq> []})"
proof -
  have "set (List.map_filter (\<lambda>(_, v). text_value v) es) =
      {trim s | s. (\<exists>k. (k, JStr s) \<in> set es) \<and> trim s \<noteq> []}" for es :: "(string \<times> json) list"
  proof -
    have "(\<exists>x\<in>set es. (case x of (_, v) \<Rightarrow> text_value v) = Some t) \<longleftrightarrow>
        (\<exists>s. t = trim s \<and> (\<exists>k. (k, JStr s) \<in> set es) \<and> trim s \<noteq> [])" for t
      by (simp add: Bex_def split_paired_Ex text_value_Some) metis
    then show ?thesis unfolding set_map_filter by simp
  qed
  then show ?thesis by (simp add: extractRedirectModels_def Let_def split: option.split)
qed

lemma JSON_parse_Nil: "JSON_parse [] = None"
  by code_simp

section \<open>Properties\<close>

text \<open>
  The models field round trips. Whatever text the user typed, the names parsed from it are
  non-empty, trimmed and free of commas; formatting them drops repetitions only, and parsing the
  formatted text returns the same names again.
\<close>

theorem models_round_trip:
  "list_all clean_name (parseModelsString s) \<and>
   parseModelsString (formatModelsArray (parseModelsString s)) = uniq (parseModelsString s) \<and>
   formatModelsArray (parseModelsString (formatModelsArray (parseModelsString s))) =
     formatModelsArray (parseModelsString s)"
proof -
  have "parseModelsString (formatModelsArray (parseModelsString s)) = uniq (parseModelsString s)"
    unfolding formatModelsArray_def by (rule parse_join) (simp add: parseModelsString_clean)
  then show ?thesis
    by (simp add: parseModelsString_clean formatModelsArray_def uniq_distinct)
qed

text \<open>
  A mapping that validates is fully used: its keys and its values, trimmed and without
  blanks, are exactly the source and the target models that are extracted from it.
\<close>

theorem valid_mapping_extracted:
  assumes "JSON_parse (trim mp) = Some (JObj kvs)"
    "validateModelMappingJson (trim mp) = ValidMapping"
  shows "set (extractMappingSourceModels mp) = trim ` fst ` set kvs - {[]} \<and>
    set (extractRedirectModels mp) = {trim s | s. JStr s \<in> snd ` set kvs} - {[]} \<and>
    (\<forall>v \<in> snd ` set kvs. \<exists>s. v = JStr s)"
proof -
  have t: "trim mp \<noteq> []" using assms(1) by (auto simp: JSON_parse_Nil)
  have strs: "\<exists>s. v = JStr s" if "(k, v) \<in> set kvs" for k v
    using assms t that by (cases v) (auto simp: validateModelMappingJson_def list_ex_iff split: if_splits)
  have "set (extractMappingSourceModels mp) = trim ` fst ` set kvs - {[]}"
    using t assms(1) by (force simp: extractMappingSourceModels_def parse_object_def Let_def)
  moreover have "set (extractRedirectModels mp) = {trim s | s. JStr s \<in> snd ` set kvs} - {[]}"
    using t assms(1) by (force simp: set_extractRedirectModels parse_object_def)
  ultimately show ?thesis using strs by auto
qed

definition example_mapping :: string where
  "example_mapping = JSON_stringify (JObj [(''a'', JStr ''b'')])"

lemma example_mapping_parses: "JSON_parse example_mapping = Some (JObj [(''a'', JStr ''b'')])"
  unfolding example_mapping_def by (rule js_json.parse_stringify) simp

lemma example_mapping_trim: "trim example_mapping = example_mapping"
  by (rule trim_by_id) (simp add: trimmed_by_def example_mapping_def JSON_stringify_def is_space_def
      is_space_unit_def)

theorem valid_mapping_extracted_witness:
  "set (extractRedirectModels example_mapping) = {''b''}"
proof -
  have "validateModelMappingJson (trim example_mapping) = ValidMapping"
    by (simp add: validateModelMappingJson_def example_mapping_trim example_mapping_parses
        Object_entries_def is_index_key_def is_digit_def)
  then have "set (extractRedirectModels example_mapping) =
      {trim s | s. JStr s \<in> snd ` set [(''a'', JStr ''b'')]} - {[]}"
    using valid_mapping_extracted [of example_mapping "[(''a'', JStr ''b'')]"]
    by (simp add: example_mapping_trim example_mapping_parses)
  then show ?thesis by (auto simp: trim_by_def is_space_def is_space_unit_def)
qed

end
