(* ===== verification/Grouping.thy ===== *)
theory Grouping
  imports Js_Prelude
begin

text \<open>
  Grouping the elements of an array by a key, the way the tag view of the channels and the route
  editor do it: a group is created at the first element with its key, and every element is added to
  the group of its key. The locale states what such a loop needs, and its lemma gives the result in
  closed form; the loops of the two components interpret it.
\<close>

definition group_step ::
  "('x \<Rightarrow> 'k) \<Rightarrow> ('g \<Rightarrow> 'k) \<Rightarrow> ('x \<Rightarrow> 'g) \<Rightarrow> ('g \<Rightarrow> 'x \<Rightarrow> 'g) \<Rightarrow> 'g list \<Rightarrow> 'x \<Rightarrow> 'g list" where
  "group_step key gkey fresh add groups x =
     (let groups' = (if list_ex (\<lambda>g. gkey g = key x) groups then groups else groups @ [fresh x])
      in map (\<lambda>g. if gkey g = key x then add g x else g) groups')"

definition members :: "('x \<Rightarrow> 'k) \<Rightarrow> 'k \<Rightarrow> 'x list \<Rightarrow> 'x list" where
  "members key k xs = filter (\<lambda>x. key x = k) xs"

lemma members_snoc: "members key k (xs @ [x]) = members key k xs @ (if key x = k then [x] else [])"
  by (simp add: members_def)

lemma members_Nil_iff: "members key k xs = [] \<longleftrightarrow> k \<notin> key ` set xs"
  by (auto simp: members_def filter_empty_conv)

locale grouping =
  fixes key :: "'x \<Rightarrow> 'k" and gkey :: "'g \<Rightarrow> 'k" and fresh :: "'x \<Rightarrow> 'g" and add :: "'g \<Rightarrow> 'x \<Rightarrow> 'g"
  assumes gkey_fresh: "gkey (fresh x) = key x"
    and gkey_add: "gkey (add g x) = gkey g"
begin

lemma gkey_fold: "gkey (foldl add g xs) = gkey g"
  by (induction xs arbitrary: g) (simp_all add: gkey_add)

lemma gkey_group:
  assumes "k \<in> key ` set xs"
  shows "gkey (foldl add (fresh (hd (members key k xs))) (members key k xs)) = k"
proof -
  have "hd (members key k xs) \<in> set (members key k xs)"
    using assms members_Nil_iff [of key k xs] by (intro hd_in_set) blast
  then show ?thesis by (simp add: gkey_fold gkey_fresh members_def)
qed

lemma group_closed_form:
  "foldl (group_step key gkey fresh add) [] xs =
    map (\<lambda>k. foldl add (fresh (hd (members key k xs))) (members key k xs)) (uniq (map key xs))"
proof (induction xs rule: rev_induct)
  case (snoc x xs)
  define row where "row ys k = foldl add (fresh (hd (members key k ys))) (members key k ys)" for ys k
  have tag: "gkey (row xs k) = k" if "k \<in> key ` set xs" for k using gkey_group [OF that] by (simp add: row_def)
  have other: "row (xs @ [x]) k = row xs k" if "k \<noteq> key x" for k
    using that by (simp add: row_def members_snoc)
  let ?rows = "map (row xs) (uniq (map key xs))"
  have "group_step key gkey fresh add ?rows x = map (row (xs @ [x])) (uniq (map key (xs @ [x])))"
  proof (cases "key x \<in> key ` set xs")
    case True
    then have "members key (key x) xs \<noteq> []" by (simp add: members_Nil_iff)
    then have same: "row (xs @ [x]) (key x) = add (row xs (key x)) x"
      by (simp add: row_def members_snoc)
    have ex: "list_ex (\<lambda>g. gkey g = key x) ?rows"
      using True tag [OF True] by (auto simp: list_ex_iff)
    have "map (\<lambda>g. if gkey g = key x then add g x else g) ?rows = map (row (xs @ [x])) (uniq (map key xs))"
      using other same by (auto simp: tag)
    then show ?thesis using True ex by (simp add: group_step_def Let_def uniq_snoc del: map_map)
  next
    case False
    then have same: "row (xs @ [x]) (key x) = add (fresh x) x"
      using members_Nil_iff [of key "key x" xs] by (simp add: row_def members_snoc)
    have ex: "\<not> list_ex (\<lambda>g. gkey g = key x) ?rows"
      using False by (auto simp: list_ex_iff tag)
    have "row (xs @ [x]) k = row xs k" "gkey (row xs k) \<noteq> key x" if "k \<in> key ` set xs" for k
      using that False other [of k] tag [OF that] by metis+
    then have "map (\<lambda>g. if gkey g = key x then add g x else g) ?rows = map (row (xs @ [x])) (uniq (map key xs))"
      by simp
    then show ?thesis
      using False ex same by (simp add: group_step_def Let_def uniq_snoc gkey_fresh del: map_map)
  qed
  then show ?case unfolding row_def by (simp add: snoc.IH)
qed simp

end

end
