(* ===== verification/Channel_Utils.thy ===== *)
theory Channel_Utils
  imports Model_Mapping Grouping "HOL-Library.Multiset" "HOL-Library.Char_ord" "HOL-Library.List_Lexorder"
begin

text \<open>
  Helpers of the channel pages: \<open>features/channels/lib/channel-utils.ts\<close> (keys, lists, attention
  and the tag view) and \<open>features/channels/lib/status-code-risk-guard.ts\<close>. The fields of a
  channel are those the modelled functions read; \<open>None\<close> is \<open>undefined\<close> and \<open>Some None\<close> is
  \<open>null\<close> where both occur.
\<close>

section \<open>Keys and lists\<close>

definition newline_c :: char where "newline_c = CHR 0x0A"

definition formatChannelKey :: "string \<Rightarrow> bool \<Rightarrow> string" where
  "formatChannelKey key isMultiKey =
     (if key = [] then []
      else if isMultiKey
      then nat_digits (length (filter (\<lambda>k. trim k \<noteq> []) (split_on newline_c key))) @ '' keys''
      else if length key \<le> 16 then slice key 0 4 @ ''...'' @ sliceLast key 4
      else slice key 0 8 @ ''...'' @ sliceLast key 8)"

definition formatKeyPreview :: "string \<Rightarrow> nat \<Rightarrow> string" where
  "formatKeyPreview key maxLength =
     (if key = [] then [] else if length key \<le> maxLength then key
      else slice key 0 maxLength @ ''...'')"

definition countKeys :: "string \<Rightarrow> nat" where
  "countKeys key =
     (if key = [] then 0 else length (filter (\<lambda>k. trim k \<noteq> []) (split_on newline_c key)))"

definition parseModelsList :: "string \<Rightarrow> string list" where
  "parseModelsList models =
     (if models = [] then []
      else filter (\<lambda>m. 0 < length m) (map trim (split_on CHR '','' models)))"

definition formatModelsString :: "string list \<Rightarrow> string" where
  "formatModelsString models = join '','' models"

definition validateChannelSettings :: "string \<Rightarrow> bool" where
  "validateChannelSettings settings =
     (if settings = [] \<or> trim settings = [] then True else JSON_parse settings \<noteq> None)"

datatype BalanceVariant = BSuccess | BWarning | BDanger | BNeutral

definition getBalanceVariant :: "number \<Rightarrow> BalanceVariant" where
  "getBalanceVariant balance =
     (if balance = 0 then BNeutral else if balance < 1 then BDanger
      else if balance < 10 then BWarning else BSuccess)"

definition validateChannelName :: "string \<Rightarrow> bool" where
  "validateChannelName name \<longleftrightarrow> 0 < length (trim name)"

definition validateApiKey :: "string \<Rightarrow> bool" where
  "validateApiKey key \<longleftrightarrow> 0 < length (trim key)"

definition validateModels :: "string \<Rightarrow> bool" where
  "validateModels models \<longleftrightarrow> 0 < length (parseModelsList models)"

record DeduplicatedKeys =
  deduplicatedText :: string
  beforeCount :: nat
  afterCount :: nat
  removedCount :: int

text \<open>The \<open>forEach\<close>: the keys kept so far are also the members of \<open>keySet\<close>.\<close>

definition keep_line :: "string list \<Rightarrow> string \<Rightarrow> string list" where
  "keep_line deduplicatedKeys line =
     (let trimmedLine = trim line
      in if trimmedLine \<noteq> [] \<and> trimmedLine \<notin> set deduplicatedKeys
         then deduplicatedKeys @ [trimmedLine] else deduplicatedKeys)"

definition deduplicateKeys :: "string \<Rightarrow> DeduplicatedKeys" where
  "deduplicateKeys keysText =
     (if keysText = [] \<or> trim keysText = []
      then \<lparr>deduplicatedText = [], beforeCount = 0, afterCount = 0, removedCount = 0\<rparr>
      else let keyLines = split_on newline_c keysText;
               deduplicatedKeys = foldl keep_line [] keyLines
           in \<lparr>deduplicatedText = join [newline_c] deduplicatedKeys,
               beforeCount = length keyLines, afterCount = length deduplicatedKeys,
               removedCount = int (length keyLines) - int (length deduplicatedKeys)\<rparr>)"

section \<open>Channels and attention\<close>

record ChannelInfo =
  is_multi_key :: bool
  multi_key_size :: number
  multi_key_status_list :: "(string \<times> number) list option"

record Channel =
  ch_tag :: "string option"
  ch_status :: number
  ch_group :: string
  ch_used_quota :: number
  ch_response_time :: number
  ch_priority :: "number option option"
  ch_weight :: "number option option"
  ch_balance :: number
  ch_channel_info :: "ChannelInfo option"

definition isChannelEnabled :: "Channel \<Rightarrow> bool" where
  "isChannelEnabled channel \<longleftrightarrow> ch_status channel = 1"

definition isMultiKeyChannel :: "Channel \<Rightarrow> bool" where
  "isMultiKeyChannel channel = (case ch_channel_info channel of None \<Rightarrow> False | Some i \<Rightarrow> is_multi_key i)"

definition all_keys_disabled :: "Channel \<Rightarrow> bool" where
  "all_keys_disabled channel =
     (case ch_channel_info channel of None \<Rightarrow> False
      | Some i \<Rightarrow> is_multi_key i \<and>
          (case multi_key_status_list i of None \<Rightarrow> False
           | Some l \<Rightarrow> of_nat (length l) \<ge> multi_key_size i))"

definition channelNeedsAttention :: "Channel \<Rightarrow> bool" where
  "channelNeedsAttention channel =
     (if ch_status channel = 3 then True
      else if ch_balance channel > 0 \<and> ch_balance channel < 1 then True
      else if all_keys_disabled channel then True else False)"

definition getAttentionReason :: "Channel \<Rightarrow> string option" where
  "getAttentionReason channel =
     (if ch_status channel = 3 then Some ''Auto-disabled''
      else if ch_balance channel > 0 \<and> ch_balance channel < 1 then Some ''Low balance''
      else if all_keys_disabled channel then Some ''All keys disabled'' else None)"

section \<open>The tag view\<close>

text \<open>
  A tag row has the fields of the first channel of the tag (\<open>tr_base\<close>) except for those the code
  overwrites, which are fields of their own; its key, id, tag and name are all the tag.
\<close>

record TagRow =
  tr_base :: Channel
  tr_tag :: string
  tr_type :: number
  tr_status :: "number option"
  tr_group :: string
  tr_used_quota :: number
  tr_response_time :: number
  tr_priority :: "number option option"
  tr_weight :: "number option option"
  tr_balance :: number
  tr_test_time :: number
  tr_created_time :: number
  tr_balance_updated_time :: number
  tr_models :: string
  tr_children :: "Channel list"

definition tag_of :: "Channel \<Rightarrow> string" where
  "tag_of channel = nullish (ch_tag channel) []"

definition newTagRow :: "Channel \<Rightarrow> TagRow" where
  "newTagRow channel =
     \<lparr>tr_base = channel, tr_tag = tag_of channel, tr_type = 0, tr_status = None, tr_group = [], tr_used_quota = 0,
      tr_response_time = 0, tr_priority = Some (Some (-1)), tr_weight = Some (Some (-1)),
      tr_balance = 0, tr_test_time = 0, tr_created_time = 0, tr_balance_updated_time = 0, tr_models = [],
      tr_children = []\<rparr>"

text \<open>The same value or \<open>null\<close>; \<open>-1\<close> marks a row that has no value yet.\<close>

definition common_value :: "number option option \<Rightarrow> number option option \<Rightarrow> number option option" where
  "common_value agg v = (if agg = Some (Some (-1)) then v else if agg \<noteq> v then Some None else agg)"

definition addGroups :: "string \<Rightarrow> string \<Rightarrow> string" where
  "addGroups rowGroup newGroup =
     (if rowGroup = [] then newGroup
      else let existingGroups = filter (\<lambda>g. g \<noteq> []) (split_on CHR '','' rowGroup);
               newGroups = filter (\<lambda>g. g \<noteq> []) (split_on CHR '','' newGroup)
           in foldl (\<lambda>acc g. if g \<notin> set existingGroups then acc @ '','' @ g else acc) rowGroup newGroups)"

definition addChild :: "TagRow \<Rightarrow> Channel \<Rightarrow> TagRow" where
  "addChild tagRow channel =
     (let children = tr_children tagRow @ [channel]; childCount = length children
      in tagRow\<lparr>tr_children := children,
           tr_used_quota := tr_used_quota tagRow + ch_used_quota channel,
           tr_response_time :=
             (tr_response_time tagRow * (of_nat childCount - 1) + ch_response_time channel) / of_nat childCount,
           tr_priority := common_value (tr_priority tagRow) (ch_priority channel),
           tr_weight := common_value (tr_weight tagRow) (ch_weight channel),
           tr_group := addGroups (tr_group tagRow) (ch_group channel),
           tr_status := (if ch_status channel = 1 then Some 1
                         else if tr_status tagRow = None then Some (ch_status channel)
                         else tr_status tagRow)\<rparr>)"

text \<open>One round of the loop; the rows of the map are the rows of the result.\<close>

definition aggregate_step :: "TagRow list \<Rightarrow> Channel \<Rightarrow> TagRow list" where
  "aggregate_step rows channel =
     (let tag = tag_of channel;
          rows' = (if list_ex (\<lambda>r. tr_tag r = tag) rows then rows else rows @ [newTagRow channel])
      in map (\<lambda>r. if tr_tag r = tag then addChild r channel else r) rows')"

definition aggregateChannelsByTag :: "Channel list \<Rightarrow> TagRow list" where
  "aggregateChannelsByTag channels = foldl aggregate_step [] channels"

section \<open>\<open>status-code-risk-guard.ts\<close>\<close>

definition NON_REDIRECTABLE_STATUS_CODES :: "nat list" where
  "NON_REDIRECTABLE_STATUS_CODES = [504, 524]"

text \<open>\<open>/^[1-5]\d{2}$/\<close>\<close>

definition is_code_text :: "string \<Rightarrow> bool" where
  "is_code_text s \<longleftrightarrow> length s = 3 \<and> list_all is_digit s \<and> 1 \<le> digit_val (hd s) \<and> digit_val (hd s) \<le> 5"

definition parseStatusCodeKey :: "string \<Rightarrow> nat option" where
  "parseStatusCodeKey rawKey =
     (let normalized = trim rawKey in if \<not> is_code_text normalized then None else Some (digits_val normalized))"

definition parseStatusCodeMappingTarget :: "json \<Rightarrow> nat option" where
  "parseStatusCodeMappingTarget rawValue =
     (case rawValue of
        JNum x \<Rightarrow> if is_integer x \<and> x \<ge> 100 \<and> x \<le> 599 then Some (nat \<lfloor>x\<rfloor>) else None
      | JStr s \<Rightarrow>
          (let normalized = trim s
           in if \<not> is_code_text normalized then None
              else let code = digits_val normalized
                   in if code \<ge> 100 \<and> code \<le> 599 then Some code else None)
      | _ \<Rightarrow> None)"

text \<open>The entries reported as invalid; the code joins the key and the value of each with an arrow.\<close>

definition collectInvalidStatusCodeEntries :: "string \<Rightarrow> (string \<times> json) list" where
  "collectInvalidStatusCodeEntries statusCodeMappingStr =
     (if trim statusCodeMappingStr = [] then []
      else case parse_object statusCodeMappingStr of
             None \<Rightarrow> []
           | Some entries \<Rightarrow>
               filter (\<lambda>(rawKey, rawValue).
                 parseStatusCodeKey rawKey = None \<or> parseStatusCodeMappingTarget rawValue = None) entries)"

definition risky_entry :: "string \<times> json \<Rightarrow> string option" where
  "risky_entry entry =
     (case entry of (rawFrom, rawTo) \<Rightarrow>
        (case (parseStatusCodeKey rawFrom, parseStatusCodeMappingTarget rawTo) of
           (Some fromCode, Some toCode) \<Rightarrow>
             if fromCode \<notin> set NON_REDIRECTABLE_STATUS_CODES then None
             else if fromCode = toCode then None
             else Some (nat_digits fromCode @ '' -> '' @ nat_digits toCode)
         | _ \<Rightarrow> None))"

definition collectDisallowedStatusCodeRedirects :: "string \<Rightarrow> string list" where
  "collectDisallowedStatusCodeRedirects statusCodeMappingStr =
     (if trim statusCodeMappingStr = [] then []
      else case parse_object statusCodeMappingStr of
             None \<Rightarrow> []
           | Some entries \<Rightarrow> sort (uniq (List.map_filter risky_entry entries)))"

definition collectNewDisallowedStatusCodeRedirects :: "string \<Rightarrow> string \<Rightarrow> string list" where
  "collectNewDisallowedStatusCodeRedirects originalStr currentStr =
     (let currentRisky = collectDisallowedStatusCodeRedirects currentStr
      in if length currentRisky = 0 then []
         else let originalRiskySet = collectDisallowedStatusCodeRedirects originalStr
              in filter (\<lambda>mapping. mapping \<notin> set originalRiskySet) currentRisky)"

section \<open>Lemmas\<close>

subsection \<open>Deduplication\<close>

lemma keep_lines: "foldl keep_line [] lines = uniq (filter (\<lambda>k. k \<noteq> []) (map trim lines))"
  by (induction lines rule: rev_induct) (auto simp: keep_line_def Let_def uniq_snoc)

definition key_lines :: "string \<Rightarrow> string list" where
  "key_lines keysText = filter (\<lambda>k. k \<noteq> []) (map trim (split_on newline_c keysText))"

lemma set_split_on: "set s \<subseteq> insert c (\<Union>p\<in>set (split_on c s). set p)"
  using set_join_subset [of c "split_on c s"] by (simp add: join_split_on)

lemma trim_Nil_iff_lines: "trim s = [] \<longleftrightarrow> key_lines s = []"
proof
  assume "trim s = []"
  then have all: "\<forall>c\<in>set s. is_space c" by (simp add: trim_by_eq_Nil_iff)
  have "trim p = []" if "p \<in> set (split_on newline_c s)" for p
    using split_on_parts [OF that] all by (auto simp: trim_by_eq_Nil_iff)
  then show "key_lines s = []" by (simp add: key_lines_def)
next
  assume "key_lines s = []"
  then have parts: "trim p = []" if "p \<in> set (split_on newline_c s)" for p
    using that by (auto simp: key_lines_def filter_empty_conv)
  have "is_space newline_c" by (simp add: newline_c_def is_space_def is_space_unit_def)
  moreover have "is_space c" if "p \<in> set (split_on newline_c s)" "c \<in> set p" for p c
    using parts [OF that(1)] that(2) by (simp add: trim_by_eq_Nil_iff)
  ultimately have "is_space c" if "c \<in> set s" for c
    using set_split_on [of s newline_c] that by blast
  then show "trim s = []" by (simp add: trim_by_eq_Nil_iff)
qed

lemma deduplicateKeys_eq:
  "deduplicatedText (deduplicateKeys s) = join [newline_c] (uniq (key_lines s))"
  "afterCount (deduplicateKeys s) = length (uniq (key_lines s))"
  using trim_Nil_iff_lines [of s]
  by (auto simp: deduplicateKeys_def Let_def keep_lines key_lines_def [symmetric])

lemma key_lines_clean: "k \<in> set (key_lines s) \<Longrightarrow> k \<noteq> [] \<and> trim k = k \<and> newline_c \<notin> set k"
proof -
  assume "k \<in> set (key_lines s)"
  then obtain p where "p \<in> set (split_on newline_c s)" "k = trim p" "k \<noteq> []" by (auto simp: key_lines_def)
  then show ?thesis using split_on_parts [of p newline_c s] set_trim_by [of is_space p] by auto
qed

lemma key_lines_join:
  assumes "\<And>k. k \<in> set ks \<Longrightarrow> k \<noteq> [] \<and> trim k = k \<and> newline_c \<notin> set k"
  shows "key_lines (join [newline_c] ks) = ks"
proof (cases "ks = []")
  case False
  then have "split_on newline_c (join [newline_c] ks) = ks" using assms by (intro split_on_join) auto
  then show ?thesis using assms by (simp add: key_lines_def map_idI filter_id_conv)
qed (simp add: key_lines_def)

subsection \<open>Tags\<close>

abbreviation tag_children :: "string \<Rightarrow> Channel list \<Rightarrow> Channel list" where
  "tag_children \<equiv> members tag_of"

definition row_of :: "Channel list \<Rightarrow> string \<Rightarrow> TagRow" where
  "row_of cs t = foldl addChild (newTagRow (hd (tag_children t cs))) (tag_children t cs)"

interpretation tag_rows: grouping tag_of tr_tag newTagRow addChild
  by unfold_locales (simp_all add: newTagRow_def addChild_def Let_def)

lemma tag_row_of: "t \<in> tag_of ` set cs \<Longrightarrow> tr_tag (row_of cs t) = t"
  by (simp add: row_of_def tag_rows.gkey_group)

text \<open>The rows in closed form: one per tag, in order of first appearance.\<close>

lemma aggregate_eq: "aggregateChannelsByTag cs = map (row_of cs) (uniq (map tag_of cs))"
proof -
  have "aggregate_step = group_step tag_of tr_tag newTagRow addChild"
    by (intro ext) (simp add: aggregate_step_def group_step_def Let_def)
  then show ?thesis
    using tag_rows.group_closed_form [of cs] by (simp add: aggregateChannelsByTag_def row_of_def [abs_def])
qed

text \<open>What folding children into a row computes.\<close>

lemma fold_children:
  assumes "tr_children r = []" "tr_used_quota r = 0" "tr_response_time r = 0" "tr_status r = None"
  shows "tr_children (foldl addChild r cs) = cs"
    "tr_used_quota (foldl addChild r cs) = sum_list (map ch_used_quota cs)"
    "tr_response_time (foldl addChild r cs) * of_nat (length cs) = sum_list (map ch_response_time cs)"
    "tr_status (foldl addChild r cs) =
       (if list_ex isChannelEnabled cs then Some 1
        else case cs of [] \<Rightarrow> None | c # _ \<Rightarrow> Some (ch_status c))"
proof -
  show ch: "tr_children (foldl addChild r cs) = cs" for cs
    using assms(1) by (induction cs rule: rev_induct) (simp_all add: addChild_def Let_def)
  show "tr_used_quota (foldl addChild r cs) = sum_list (map ch_used_quota cs)"
    using assms(2) by (induction cs rule: rev_induct) (simp_all add: addChild_def Let_def)
  show "tr_response_time (foldl addChild r cs) * of_nat (length cs) = sum_list (map ch_response_time cs)"
  proof (induction cs rule: rev_induct)
    case (snoc c cs)
    have "tr_response_time (addChild (foldl addChild r cs) c) * of_nat (Suc (length cs)) =
        tr_response_time (foldl addChild r cs) * of_nat (length cs) + ch_response_time c"
      by (simp add: addChild_def Let_def ch)
    then show ?case using snoc by simp
  qed (simp add: assms)
  show "tr_status (foldl addChild r cs) =
       (if list_ex isChannelEnabled cs then Some 1
        else case cs of [] \<Rightarrow> None | c # _ \<Rightarrow> Some (ch_status c))"
    using assms(4)
    by (induction cs rule: rev_induct)
      (auto simp: addChild_def Let_def isChannelEnabled_def list_ex_iff split: list.splits)
qed

lemma fold_common_value:
  assumes "Some (Some (-1)) \<notin> set vs" "vs \<noteq> []"
  shows "foldl common_value (Some (Some (-1))) vs =
    (if \<forall>v\<in>set vs. v = hd vs then hd vs else Some None)"
  using assms
proof (induction vs rule: rev_induct)
  case (snoc v vs)
  show ?case
  proof (cases "vs = []")
    case True
    then show ?thesis by (simp add: common_value_def)
  next
    case False
    then have "hd vs \<noteq> Some (Some (-1))" using snoc.prems by (cases vs) auto
    then show ?thesis using snoc False by (auto simp: common_value_def)
  qed
qed simp

text \<open>The groups a comma separated list names.\<close>

definition groups_of :: "string \<Rightarrow> string list" where
  "groups_of s = filter (\<lambda>g. g \<noteq> []) (split_on CHR '','' s)"

lemma split_on_snoc_sep: "split_on c (s @ c # g) = split_on c s @ split_on c g"
  by (induction c s rule: split_on.induct) (auto split: list.splits)

lemma groups_append: "g \<noteq> [] \<Longrightarrow> CHR '','' \<notin> set g \<Longrightarrow> groups_of (s @ '','' @ g) = groups_of s @ [g]"
  by (simp add: groups_of_def split_on_snoc_sep split_on_no_sep)

lemma fold_groups:
  assumes "\<And>g. g \<in> set gs \<Longrightarrow> g \<noteq> [] \<and> CHR '','' \<notin> set g"
  shows "groups_of (foldl (\<lambda>acc g. if g \<notin> A then acc @ '','' @ g else acc) s gs) =
    groups_of s @ filter (\<lambda>g. g \<notin> A) gs"
  using assms
proof (induction gs arbitrary: s)
  case (Cons g gs)
  have "groups_of (s @ '','' @ g) = groups_of s @ [g]" using Cons.prems [of g] by (intro groups_append) auto
  then show ?case using Cons by simp
qed simp

lemma addGroups_groups:
  "groups_of (addGroups a b) =
    (if a = [] then groups_of b else groups_of a @ filter (\<lambda>g. g \<notin> set (groups_of a)) (groups_of b))"
proof (cases "a = []")
  case False
  have "g \<noteq> [] \<and> CHR '','' \<notin> set g" if "g \<in> set (groups_of b)" for g
    using that split_on_parts [of g "CHR '',''" b] by (auto simp: groups_of_def)
  then have "groups_of (foldl (\<lambda>acc g. if g \<notin> set (groups_of a) then acc @ '','' @ g else acc) a (groups_of b)) =
      groups_of a @ filter (\<lambda>g. g \<notin> set (groups_of a)) (groups_of b)" by (rule fold_groups)
  then show ?thesis using False by (simp add: addGroups_def Let_def groups_of_def [symmetric])
qed (simp add: addGroups_def)

lemma set_addGroups: "set (groups_of (addGroups a b)) = set (groups_of a) \<union> set (groups_of b)"
  by (auto simp: addGroups_groups) (simp_all add: groups_of_def)

lemma fold_child_groups:
  "set (groups_of (tr_group (foldl addChild r cs))) =
    set (groups_of (tr_group r)) \<union> (\<Union>c\<in>set cs. set (groups_of (ch_group c)))"
  by (induction cs rule: rev_induct) (auto simp: addChild_def Let_def set_addGroups)

lemma fold_child_common:
  "tr_priority (foldl addChild r cs) = foldl common_value (tr_priority r) (map ch_priority cs)"
  "tr_weight (foldl addChild r cs) = foldl common_value (tr_weight r) (map ch_weight cs)"
  by (induction cs rule: rev_induct) (simp_all add: addChild_def Let_def)

lemma mset_tag_children:
  "set (map tag_of cs) \<subseteq> set ts \<Longrightarrow> distinct ts \<Longrightarrow>
    mset (concat (map (\<lambda>t. tag_children t cs) ts)) = mset cs"
proof (induction cs)
  case (Cons c cs)
  then obtain us vs where ts: "ts = us @ tag_of c # vs" by (auto dest: split_list)
  have other: "tag_children t (c # cs) = tag_children t cs" if "t \<in> set us \<union> set vs" for t
    using that Cons.prems(2) ts by (auto simp: members_def)
  then have eqs: "map (\<lambda>t. tag_children t (c # cs)) us = map (\<lambda>t. tag_children t cs) us"
    "map (\<lambda>t. tag_children t (c # cs)) vs = map (\<lambda>t. tag_children t cs) vs" by simp_all
  have "mset (concat (map (\<lambda>t. tag_children t (c # cs)) ts)) =
      {#c#} + mset (concat (map (\<lambda>t. tag_children t cs) ts))"
    unfolding ts map_append list.map eqs concat_append concat.simps mset_append
    by (simp add: members_def)
  also have "mset (concat (map (\<lambda>t. tag_children t cs) ts)) = mset cs" using Cons by auto
  finally show ?case by simp
qed (simp add: members_def)

text \<open>What a row shows of its children.\<close>

definition common_ok :: "number option option list \<Rightarrow> number option option \<Rightarrow> bool" where
  "common_ok vs v \<longleftrightarrow> Some (Some (-1)) \<in> set vs \<or>
     v = (if list_all (\<lambda>w. w = hd vs) vs then hd vs else Some None)"

definition tag_row_ok :: "TagRow \<Rightarrow> bool" where
  "tag_row_ok r \<longleftrightarrow> tr_children r \<noteq> [] \<and>
     tr_used_quota r = sum_list (map ch_used_quota (tr_children r)) \<and>
     tr_response_time r * of_nat (length (tr_children r)) = sum_list (map ch_response_time (tr_children r)) \<and>
     set (groups_of (tr_group r)) = (\<Union>c\<in>set (tr_children r). set (groups_of (ch_group c))) \<and>
     tr_status r = (if list_ex isChannelEnabled (tr_children r) then Some 1
                    else Some (ch_status (hd (tr_children r)))) \<and>
     common_ok (map ch_priority (tr_children r)) (tr_priority r) \<and>
     common_ok (map ch_weight (tr_children r)) (tr_weight r)"

lemma common_ok_fold: "vs \<noteq> [] \<Longrightarrow> common_ok vs (foldl common_value (Some (Some (-1))) vs)"
  by (cases "Some (Some (-1)) \<in> set vs") (simp_all add: common_ok_def fold_common_value list_all_iff)

lemma foldl_row_ok:
  assumes "cs \<noteq> []"
  shows "tag_row_ok (foldl addChild (newTagRow c) cs)"
proof -
  have init: "tr_children (newTagRow c) = []" "tr_used_quota (newTagRow c) = 0"
    "tr_response_time (newTagRow c) = 0" "tr_status (newTagRow c) = None"
    "tr_priority (newTagRow c) = Some (Some (-1))" "tr_weight (newTagRow c) = Some (Some (-1))"
    "groups_of (tr_group (newTagRow c)) = []"
    by (simp_all add: newTagRow_def groups_of_def)
  note folded = fold_children [OF init(1-4)]
  have "tr_status (foldl addChild (newTagRow c) cs) =
      (if list_ex isChannelEnabled cs then Some 1 else Some (ch_status (hd cs)))"
    using folded(4) [of cs] assms by (cases cs) simp_all
  then show ?thesis
    using assms by (simp add: tag_row_ok_def folded fold_child_groups fold_child_common init common_ok_fold)
qed

subsection \<open>Redirects\<close>

lemma code_text_range: "is_code_text s \<Longrightarrow> 100 \<le> digits_val s \<and> digits_val s \<le> 599"
proof -
  assume *: "is_code_text s"
  then obtain a b c where s: "s = [a, b, c]" by (auto simp: is_code_text_def numeral_3_eq_3 length_Suc_conv)
  have "digit_val x \<le> 9" if "is_digit x" for x using that by (auto simp: is_digit_def digit_val_def)
  from this [of b] this [of c] show ?thesis using * unfolding s by (simp add: is_code_text_def digits_val_def)
qed

lemma target_range: "parseStatusCodeMappingTarget v = Some c \<Longrightarrow> 100 \<le> c \<and> c \<le> 599"
  by (auto simp: parseStatusCodeMappingTarget_def Let_def le_nat_iff nat_le_iff le_floor_iff floor_le_iff
      split: json.splits if_splits)

lemma set_disallowed:
  assumes "trim s \<noteq> []" "JSON_parse s = Some (JObj kvs)"
  shows "set (collectDisallowedStatusCodeRedirects s) =
    {nat_digits f @ '' -> '' @ nat_digits t | f t k v. (k, v) \<in> set kvs \<and> parseStatusCodeKey k = Some f \<and>
       parseStatusCodeMappingTarget v = Some t \<and> f \<in> {504, 524} \<and> f \<noteq> t}"
proof -
  have risky: "risky_entry (k, v) = Some m \<longleftrightarrow> (\<exists>f t. m = nat_digits f @ '' -> '' @ nat_digits t \<and>
      parseStatusCodeKey k = Some f \<and> parseStatusCodeMappingTarget v = Some t \<and> f \<in> {504, 524} \<and> f \<noteq> t)" for k v m
    by (auto simp: risky_entry_def NON_REDIRECTABLE_STATUS_CODES_def split: option.splits if_splits)
  have "set (collectDisallowedStatusCodeRedirects s) = {m. \<exists>e\<in>set kvs. risky_entry e = Some m}"
    using assms by (simp add: collectDisallowedStatusCodeRedirects_def parse_object_def set_map_filter)
  also have "\<dots> = {m. \<exists>k v. (k, v) \<in> set kvs \<and> risky_entry (k, v) = Some m}" by force
  finally show ?thesis unfolding risky by blast
qed

lemma disallowed_canonical:
  "sorted (collectDisallowedStatusCodeRedirects s)" "distinct (collectDisallowedStatusCodeRedirects s)"
  by (auto simp: collectDisallowedStatusCodeRedirects_def split: option.splits)

lemma new_disallowed: "collectNewDisallowedStatusCodeRedirects a b =
   filter (\<lambda>m. m \<notin> set (collectDisallowedStatusCodeRedirects a)) (collectDisallowedStatusCodeRedirects b)"
  by (auto simp: collectNewDisallowedStatusCodeRedirects_def Let_def)

section \<open>What the code does that its comments exclude\<close>

text \<open>A key of eight characters is shown in full around the dots, although it is to be masked.\<close>

lemma short_key_shown:
  assumes "length key = 8"
  shows "\<exists>a b. formatChannelKey key False = a @ ''...'' @ b \<and> key = a @ b"
proof -
  have "formatChannelKey key False = take 4 key @ ''...'' @ drop 4 key"
    using assms by (auto simp: formatChannelKey_def slice_def sliceLast_def)
  then show ?thesis by (metis append_take_drop_id)
qed

text \<open>A group a channel lists twice is appended twice.\<close>

lemma repeated_group_kept: "addGroups ''a'' ''b,b'' = ''a,b,b''"
  by code_simp

text \<open>A priority of \<open>-1\<close> is taken for no value, so that two different priorities have a common one.\<close>

lemma minus_one_lost: "foldl common_value (Some (Some (-1))) [Some (Some (-1)), Some (Some 5)] = Some (Some 5)"
  by (simp add: common_value_def)

section \<open>Properties\<close>

text \<open>
  Deduplicating a list of keys keeps exactly the non-blank trimmed lines, each once and in
  order of first appearance; the count it reports is the number of keys of the new text, it never
  reports more keys than lines, and deduplicating again changes nothing.\<close>

theorem deduplicateKeys_spec:
  "key_lines (deduplicatedText (deduplicateKeys s)) = uniq (key_lines s) \<and>
   afterCount (deduplicateKeys s) = countKeys (deduplicatedText (deduplicateKeys s)) \<and>
   removedCount (deduplicateKeys s) = int (beforeCount (deduplicateKeys s)) - int (afterCount (deduplicateKeys s)) \<and>
   0 \<le> removedCount (deduplicateKeys s) \<and>
   deduplicatedText (deduplicateKeys (deduplicatedText (deduplicateKeys s))) = deduplicatedText (deduplicateKeys s)"
proof -
  have lines: "key_lines (deduplicatedText (deduplicateKeys s)) = uniq (key_lines s)"
    unfolding deduplicateKeys_eq by (rule key_lines_join) (simp add: key_lines_clean)
  have count: "countKeys t = length (key_lines t)" for t
    by (simp add: countKeys_def key_lines_def filter_map comp_def)
  have "afterCount (deduplicateKeys s) = countKeys (deduplicatedText (deduplicateKeys s))"
    unfolding count lines by (rule deduplicateKeys_eq)
  moreover have "removedCount (deduplicateKeys s) =
      int (beforeCount (deduplicateKeys s)) - int (afterCount (deduplicateKeys s))"
    by (simp add: deduplicateKeys_def Let_def)
  moreover have "length (uniq xs) \<le> length xs" for xs :: "string list"
    by (metis card_length distinct_card distinct_uniq set_uniq)
  then have "length (uniq (key_lines s)) \<le> length (split_on newline_c s)"
    by (metis key_lines_def le_trans length_filter_le length_map)
  then have "0 \<le> removedCount (deduplicateKeys s)"
    by (auto simp: deduplicateKeys_def Let_def keep_lines key_lines_def)
  moreover have "deduplicatedText (deduplicateKeys (deduplicatedText (deduplicateKeys s))) =
      deduplicatedText (deduplicateKeys s)"
    using lines deduplicateKeys_eq(1) by (metis distinct_uniq uniq_distinct)
  ultimately show ?thesis using lines by blast
qed

text \<open>
  C32: the tag view has one row per tag, in order of first appearance; its children are the
  channels of the tag in their order, every channel is in one row, and the row shows the sum of
  their quota, the mean of their response times, the union of their groups, enabled when one of
  them is, and the priority and weight they have in common (as long as none of them is -1).\<close>

theorem aggregateChannelsByTag_spec:
  "map tr_tag (aggregateChannelsByTag cs) = uniq (map tag_of cs) \<and>
   map tr_children (aggregateChannelsByTag cs) = map (\<lambda>t. tag_children t cs) (uniq (map tag_of cs)) \<and>
   mset (concat (map tr_children (aggregateChannelsByTag cs))) = mset cs \<and>
   list_all tag_row_ok (aggregateChannelsByTag cs)"
proof -
  have child: "tr_children (row_of cs t) = tag_children t cs" for t
    by (simp add: row_of_def fold_children newTagRow_def)
  have tags: "map tr_tag (aggregateChannelsByTag cs) = uniq (map tag_of cs)"
    unfolding aggregate_eq map_map by (rule map_idI) (simp add: tag_row_of)
  have ch: "map tr_children (aggregateChannelsByTag cs) = map (\<lambda>t. tag_children t cs) (uniq (map tag_of cs))"
    by (simp add: aggregate_eq child)
  have rows: "list_all tag_row_ok (aggregateChannelsByTag cs)"
    unfolding aggregate_eq list_all_iff
    by (auto intro!: foldl_row_ok simp: row_of_def members_Nil_iff)
  have "mset (concat (map tr_children (aggregateChannelsByTag cs))) = mset cs"
    unfolding ch by (rule mset_tag_children) simp_all
  then show ?thesis using tags ch rows by blast
qed

text \<open>
  The redirects that need a confirmation are exactly those of a gateway timeout (504 or 524)
  to another status code between 100 and 599, listed in order without repetition; only those that
  the saved mapping does not have are asked about again.\<close>

theorem redirect_guard:
  assumes "trim s \<noteq> []" "JSON_parse s = Some (JObj kvs)"
  shows "sorted (collectDisallowedStatusCodeRedirects s) \<and>
    distinct (collectDisallowedStatusCodeRedirects s) \<and>
    set (collectDisallowedStatusCodeRedirects s) =
      {nat_digits f @ '' -> '' @ nat_digits t | f t k v. (k, v) \<in> set kvs \<and> parseStatusCodeKey k = Some f \<and>
         parseStatusCodeMappingTarget v = Some t \<and> f \<in> {504, 524} \<and> f \<noteq> t \<and> 100 \<le> t \<and> t \<le> 599} \<and>
    set (collectNewDisallowedStatusCodeRedirects saved s) =
      set (collectDisallowedStatusCodeRedirects s) - set (collectDisallowedStatusCodeRedirects saved)"
proof -
  have "set (collectDisallowedStatusCodeRedirects s) =
      {nat_digits f @ '' -> '' @ nat_digits t | f t k v. (k, v) \<in> set kvs \<and> parseStatusCodeKey k = Some f \<and>
         parseStatusCodeMappingTarget v = Some t \<and> f \<in> {504, 524} \<and> f \<noteq> t \<and> 100 \<le> t \<and> t \<le> 599}"
    unfolding set_disallowed [OF assms] using target_range by blast
  moreover have "set (collectNewDisallowedStatusCodeRedirects saved s) =
      set (collectDisallowedStatusCodeRedirects s) - set (collectDisallowedStatusCodeRedirects saved)"
    by (auto simp: new_disallowed)
  ultimately show ?thesis using disallowed_canonical by blast
qed

theorem redirect_guard_witness:
  "''504 -> 200'' \<in> set (collectNewDisallowedStatusCodeRedirects ''{}'' ''{\"504\":200}'')"
proof -
  let ?s = "''{\"504\":200}''"
  have "trim ?s \<noteq> []" by (simp add: trim_by_def is_space_def is_space_unit_def)
  moreover have "JSON_parse ?s = Some (JObj [(''504'', JNum 200)])" by code_simp
  ultimately have *: "set (collectDisallowedStatusCodeRedirects ?s) =
      {nat_digits f @ '' -> '' @ nat_digits t | f t k v. (k, v) \<in> set [(''504'', JNum 200)] \<and>
         parseStatusCodeKey k = Some f \<and> parseStatusCodeMappingTarget v = Some t \<and>
         f \<in> {504, 524} \<and> f \<noteq> t \<and> 100 \<le> t \<and> t \<le> 599}"
    "set (collectNewDisallowedStatusCodeRedirects ''{}'' ?s) =
      set (collectDisallowedStatusCodeRedirects ?s) - set (collectDisallowedStatusCodeRedirects ''{}'')"
    using redirect_guard [of ?s "[(''504'', JNum 200)]" "''{}''"] by blast+
  have "JSON_parse ''{}'' = Some (JObj [])" by code_simp
  then have "collectDisallowedStatusCodeRedirects ''{}'' = []"
    by (simp add: collectDisallowedStatusCodeRedirects_def parse_object_def Object_entries_def map_filter_simps)
  moreover have "parseStatusCodeKey ''504'' = Some 504"
    by (simp add: parseStatusCodeKey_def trim_by_def is_space_def is_space_unit_def is_code_text_def digits_val_def
        is_digit_def digit_val_def)
  moreover have "parseStatusCodeMappingTarget (JNum 200) = Some 200"
    by (simp add: parseStatusCodeMappingTarget_def is_integer_def)
  moreover have "nat_digits 504 = ''504''" "nat_digits 200 = ''200''" by (simp add: nat_digits.simps digit_char_def, code_simp)+
  ultimately show ?thesis unfolding * by force
qed

end
