(* ===== verification/Channel_Form.thy ===== *)
theory Channel_Form
  imports Channel_Utils
begin

text \<open>
  The channel form (\<open>features/channels/components/drawers/channel-mutate-drawer.tsx\<close>) as far as it
  guards what is submitted: the check of the model mapping against the model list, the two buttons
  that repair the list, and the submit handler. The answers that the user gives in the two dialogs
  are arguments of the handler; a dialog that is closed answers \<open>cancel\<close> or \<open>false\<close>.
\<close>

section \<open>The model mapping beside the model list\<close>

record MappingEntry =
  me_source :: string
  me_target :: string

record ModelMappingGuardrail =
  gr_invalidJson :: bool
  gr_entries :: "MappingEntry list"
  gr_missingSourceModels :: "string list"
  gr_exposedTargetModels :: "string list"

definition createEmptyModelMappingGuardrail :: ModelMappingGuardrail where
  "createEmptyModelMappingGuardrail =
     \<lparr>gr_invalidJson = False, gr_entries = [], gr_missingSourceModels = [], gr_exposedTargetModels = []\<rparr>"

text \<open>\<open>String(rawTarget ?? '').trim()\<close>\<close>

definition target_text :: "json \<Rightarrow> string" where
  "target_text rawTarget = trim (if rawTarget = JNull then [] else js_String rawTarget)"

definition mapping_entries :: "(string \<times> json) list \<Rightarrow> MappingEntry list" where
  "mapping_entries parsed =
     foldl (\<lambda>acc (rawSource, rawTarget).
       let source = trim rawSource; target = target_text rawTarget
       in if source = [] \<or> target = [] then acc else acc @ [\<lparr>me_source = source, me_target = target\<rparr>]) [] parsed"

definition modelMappingGuardrail :: "string \<Rightarrow> string list \<Rightarrow> ModelMappingGuardrail" where
  "modelMappingGuardrail currentModelMapping currentModelsArray =
     (if trim currentModelMapping = [] then createEmptyModelMappingGuardrail
      else case parse_object currentModelMapping of
             None \<Rightarrow> createEmptyModelMappingGuardrail\<lparr>gr_invalidJson := True\<rparr>
           | Some parsed \<Rightarrow>
               (let entries = mapping_entries parsed
                in \<lparr>gr_invalidJson = False, gr_entries = entries,
                    gr_missingSourceModels = uniq (map me_source
                      (filter (\<lambda>entry. me_source entry \<noteq> [] \<and> me_source entry \<notin> set currentModelsArray) entries)),
                    gr_exposedTargetModels = uniq (map me_target
                      (filter (\<lambda>entry. me_target entry \<noteq> [] \<and> me_target entry \<in> set currentModelsArray) entries))\<rparr>))"

text \<open>The text that \<open>updateModels\<close> sets as the models of the form\<close>

definition updateModels :: "string list \<Rightarrow> string list \<Rightarrow> bool \<Rightarrow> string" where
  "updateModels currentModelsArray newModels merge =
     (if merge then formatModelsArray (currentModelsArray @ newModels) else formatModelsArray newModels)"

definition addMissingModels :: "string \<Rightarrow> string \<Rightarrow> string" where
  "addMissingModels currentModelMapping currentModels =
     (let models = parseModelsString currentModels
      in updateModels models (models @ gr_missingSourceModels (modelMappingGuardrail currentModelMapping models)) False)"

definition removeMappedTargets :: "string \<Rightarrow> string \<Rightarrow> string" where
  "removeMappedTargets currentModelMapping currentModels =
     (let models = parseModelsString currentModels;
          hiddenTargets = gr_exposedTargetModels (modelMappingGuardrail currentModelMapping models)
      in updateModels models (filter (\<lambda>model. model \<notin> set hiddenTargets) models) False)"

section \<open>Submitting\<close>








section \<open>Lemmas\<close>

text \<open>The pairs of source and target that a mapping object names\<close>

definition mapped :: "(string \<times> json) list \<Rightarrow> (string \<times> string) set" where
  "mapped kvs = {(trim k, target_text v) | k v. (k, v) \<in> set kvs \<and> trim k \<noteq> [] \<and> target_text v \<noteq> []}"


definition comma_free :: "(string \<times> json) list \<Rightarrow> bool" where
  "comma_free kvs \<longleftrightarrow> list_all (\<lambda>k. CHR '','' \<notin> set k) (map fst kvs)"

lemma object_not_blank:
  assumes "JSON_parse s = Some (JObj kvs)"
  shows "trim s \<noteq> []"
proof -
  obtain r where "p_value (Suc (length s)) s = Some (JObj kvs, r)"
    using assms by (auto simp: JSON_parse_def split: option.splits if_splits)
  then have "CHR ''{'' \<in> set (skip_ws s)"
    by (auto simp: p_token_def split: list.splits if_splits option.splits)
  then have "CHR ''{'' \<in> set s" unfolding skip_ws_def by (rule set_dropWhileD)
  moreover have "\<not> is_space CHR ''{''" by (simp add: is_space_code)
  ultimately show ?thesis by (auto simp: trim_by_eq_Nil_iff)
qed

lemma mapping_entries_filter:
  "mapping_entries es = map (\<lambda>(k, v). \<lparr>me_source = trim k, me_target = target_text v\<rparr>)
     (filter (\<lambda>(k, v). trim k \<noteq> [] \<and> target_text v \<noteq> []) es)"
proof -
  have "foldl (\<lambda>acc (rawSource, rawTarget).
       let source = trim rawSource; target = target_text rawTarget
       in if source = [] \<or> target = [] then acc else acc @ [\<lparr>me_source = source, me_target = target\<rparr>]) acc es =
     acc @ map (\<lambda>(k, v). \<lparr>me_source = trim k, me_target = target_text v\<rparr>)
       (filter (\<lambda>(k, v). trim k \<noteq> [] \<and> target_text v \<noteq> []) es)" for acc
    by (induction es arbitrary: acc) (auto simp: Let_def)
  then show ?thesis by (simp add: mapping_entries_def)
qed

lemma entries_mapped:
  "(\<lambda>e. (me_source e, me_target e)) ` set (mapping_entries (Object_entries kvs)) = mapped kvs"
  by (force simp: mapping_entries_filter mapped_def image_iff)

lemma guardrail_sets:
  assumes "JSON_parse mp = Some (JObj kvs)"
  shows "set (gr_missingSourceModels (modelMappingGuardrail mp models)) = fst ` mapped kvs - set models"
    "set (gr_exposedTargetModels (modelMappingGuardrail mp models)) = snd ` mapped kvs \<inter> set models"
    "distinct (gr_missingSourceModels (modelMappingGuardrail mp models))"
    "distinct (gr_exposedTargetModels (modelMappingGuardrail mp models))"
    "\<not> gr_invalidJson (modelMappingGuardrail mp models)"
proof -
  have g: "modelMappingGuardrail mp models = (let entries = mapping_entries (Object_entries kvs)
      in \<lparr>gr_invalidJson = False, gr_entries = entries,
          gr_missingSourceModels = uniq (map me_source
            (filter (\<lambda>entry. me_source entry \<noteq> [] \<and> me_source entry \<notin> set models) entries)),
          gr_exposedTargetModels = uniq (map me_target
            (filter (\<lambda>entry. me_target entry \<noteq> [] \<and> me_target entry \<in> set models) entries))\<rparr>)"
    using assms object_not_blank [OF assms] by (simp add: modelMappingGuardrail_def parse_object_def)
  have ne: "fst ` mapped kvs \<subseteq> - {[]}" "snd ` mapped kvs \<subseteq> - {[]}" by (auto simp: mapped_def)
  have f: "me_source ` set (mapping_entries (Object_entries kvs)) = fst ` mapped kvs"
    "me_target ` set (mapping_entries (Object_entries kvs)) = snd ` mapped kvs"
    unfolding entries_mapped [symmetric] by (simp_all add: image_image)
  show "set (gr_missingSourceModels (modelMappingGuardrail mp models)) = fst ` mapped kvs - set models"
    using ne(1) unfolding g Let_def f(1) [symmetric] by (fastforce simp: image_iff)
  show "set (gr_exposedTargetModels (modelMappingGuardrail mp models)) = snd ` mapped kvs \<inter> set models"
    using ne(2) unfolding g Let_def f(2) [symmetric] by (fastforce simp: image_iff)
qed (use assms object_not_blank [OF assms] in \<open>simp_all add: modelMappingGuardrail_def parse_object_def Let_def\<close>)

lemma trimmed_clean: "CHR '','' \<notin> set k \<Longrightarrow> trim k \<noteq> [] \<Longrightarrow> clean_name (trim k)"
  using set_trim_by [of is_space k] by (auto simp: clean_name_def)

lemma mapped_clean: "comma_free kvs \<Longrightarrow> m \<in> fst ` mapped kvs \<Longrightarrow> clean_name m"
  by (auto simp: mapped_def comma_free_def list_all_iff intro!: trimmed_clean)


lemma parse_formatted: "list_all clean_name ms \<Longrightarrow> parseModelsString (formatModelsArray ms) = uniq ms"
  unfolding formatModelsArray_def by (rule parse_join) simp

lemma uniq_filter: "uniq (filter p xs) = filter p (uniq xs)"
  by (induction xs) (auto simp: conj_commute intro!: filter_cong)


section \<open>The two buttons\<close>

text \<open>
  C31: The two repairs of the channel form. Take a mapping object whose source names have no comma, and
  call mapped its pairs of a source and a target that are not blank. The form reports as missing exactly
  the mapped sources that the model list lacks, and as exposed exactly the mapped targets that it has.
  After adding, the list that is read from the form holds the old models and every mapped source;
  after removing, it is the old list without repetitions and without the mapped targets.
\<close>

theorem mapping_repairs:
  assumes "JSON_parse mp = Some (JObj kvs)" "comma_free kvs"
  shows "set (gr_missingSourceModels (modelMappingGuardrail mp (parseModelsString ms))) =
      fst ` mapped kvs - set (parseModelsString ms) \<and>
    set (gr_exposedTargetModels (modelMappingGuardrail mp (parseModelsString ms))) =
      snd ` mapped kvs \<inter> set (parseModelsString ms) \<and>
    set (parseModelsString (addMissingModels mp ms)) = set (parseModelsString ms) \<union> fst ` mapped kvs \<and>
    parseModelsString (removeMappedTargets mp ms) =
      filter (\<lambda>m. m \<notin> snd ` mapped kvs) (uniq (parseModelsString ms))"
proof -
  note g = guardrail_sets [OF assms(1), of "parseModelsString ms"]
  have "list_all clean_name (parseModelsString ms @ gr_missingSourceModels (modelMappingGuardrail mp (parseModelsString ms)))"
    using parseModelsString_clean [of ms] mapped_clean [OF assms(2)] g(1) by (auto simp: list_all_iff)
  then have a: "set (parseModelsString (addMissingModels mp ms)) = set (parseModelsString ms) \<union> fst ` mapped kvs"
    using g(1) by (auto simp: addMissingModels_def updateModels_def Let_def parse_formatted)
  have "filter (\<lambda>m. m \<notin> snd ` mapped kvs \<inter> set (parseModelsString ms)) (parseModelsString ms) =
      filter (\<lambda>m. m \<notin> snd ` mapped kvs) (parseModelsString ms)"
    by (intro filter_cong) auto
  moreover have "list_all clean_name (filter (\<lambda>m. m \<notin> snd ` mapped kvs) (parseModelsString ms))"
    using parseModelsString_clean [of ms] by (simp add: list_all_iff)
  ultimately have "parseModelsString (removeMappedTargets mp ms) =
      filter (\<lambda>m. m \<notin> snd ` mapped kvs) (uniq (parseModelsString ms))"
    by (simp only: removeMappedTargets_def updateModels_def Let_def g(2) if_False parse_formatted uniq_filter)
  then show ?thesis using g(1,2) a by blast
qed

lemma example_mapped: "mapped [(''a'', JStr ''b'')] = {(''a'', ''b'')}"
  by (simp add: mapped_def target_text_def trim_by_def is_space_code)

theorem mapping_repairs_witness:
  "set (parseModelsString (addMissingModels example_mapping ''b,c'')) = {''a'', ''b'', ''c''} \<and>
   parseModelsString (removeMappedTargets example_mapping ''b,c'') = [''c'']"
proof -
  have "parseModelsString ''b,c'' = [''b'', ''c'']"
    by (simp add: parseModelsString_def trim_by_def is_space_code)
  then show ?thesis
    using mapping_repairs [OF example_mapping_parses, of "''b,c''"] by (auto simp: comma_free_def example_mapped)
qed

lemma one_element: "set xs = {x} \<Longrightarrow> distinct xs \<Longrightarrow> xs = [x]"
  by (cases xs; cases "tl xs") auto

text \<open>A source with a comma is taken apart by the text of the list, so it stays missing.\<close>

lemma comma_source_stays_missing:
  assumes "JSON_parse mp = Some (JObj [(''a,b'', JStr ''c'')])"
  shows "gr_missingSourceModels (modelMappingGuardrail mp (parseModelsString (addMissingModels mp ms))) = [''a,b'']"
proof -
  have m: "mapped [(''a,b'', JStr ''c'')] = {(''a,b'', ''c'')}"
    by (simp add: mapped_def target_text_def trim_by_def is_space_code)
  have "''a,b'' \<notin> set (parseModelsString t)" for t
    using parseModelsString_clean [of t] by (auto simp: list_all_iff clean_name_def)
  then have "set (gr_missingSourceModels (modelMappingGuardrail mp (parseModelsString (addMissingModels mp ms)))) = {''a,b''}"
    unfolding guardrail_sets(1) [OF assms] m by auto
  then show ?thesis by (rule one_element [OF _ guardrail_sets(3) [OF assms]])
qed

section \<open>The submit handler\<close>













end
