(* ===== verification/Json_Indent.thy ===== *)
theory Json_Indent
  imports Json
begin

text \<open>
  \<open>JSON.stringify(value, null, 2)\<close>, the indented form in which the configuration editors keep
  their texts, and that \<open>JSON.parse\<close> reads it back: a second instance of the contract
  \<open>json_codec\<close>. A value starts after the whitespace that the parser skips, and what follows it is a
  comma or a new line.
\<close>

section \<open>The printer\<close>

definition new_line :: "nat \<Rightarrow> string" where
  "new_line d = CHR 0x0A # replicate (2 * d) CHR 0x20"

fun i_value :: "nat \<Rightarrow> json \<Rightarrow> string"
  and i_elems :: "nat \<Rightarrow> json list \<Rightarrow> string"
  and i_members :: "nat \<Rightarrow> (string \<times> json) list \<Rightarrow> string" where
  "i_value d JNull = ''null''"
| "i_value d (JBool b) = (if b then ''true'' else ''false'')"
| "i_value d (JNum x) = number_to_string x"
| "i_value d (JStr s) = quote_string s"
| "i_value d (JArr []) = ''[]''"
| "i_value d (JArr (v # vs)) = ''['' @ new_line (Suc d) @ i_value (Suc d) v @ i_elems d vs"
| "i_value d (JObj []) = ''{}''"
| "i_value d (JObj ((k, v) # ms)) =
     ''{'' @ new_line (Suc d) @ quote_string k @ '': '' @ i_value (Suc d) v @ i_members d ms"
| "i_elems d [] = new_line d @ '']''"
| "i_elems d (v # vs) = '','' @ new_line (Suc d) @ i_value (Suc d) v @ i_elems d vs"
| "i_members d [] = new_line d @ ''}''"
| "i_members d ((k, v) # ms) =
     '','' @ new_line (Suc d) @ quote_string k @ '': '' @ i_value (Suc d) v @ i_members d ms"

definition JSON_stringify_2 :: "json \<Rightarrow> string" where
  "JSON_stringify_2 j = i_value 0 j"

section \<open>Round trip\<close>

subsection \<open>Whitespace\<close>

lemma skip_ws_new_line [simp]: "skip_ws (new_line d @ s) = skip_ws s"
proof -
  have "dropWhile P (replicate n CHR 0x20 @ s) = dropWhile P s" if "P CHR 0x20" for P :: "char \<Rightarrow> bool" and n
    using that by (induction n) simp_all
  then show ?thesis by (simp add: skip_ws_def new_line_def)
qed

lemma skip_ws_blank [simp]: "skip_ws (CHR 0x20 # s) = skip_ws s"
  by (simp add: skip_ws_def)

lemma p_value_skip: "skip_ws s = skip_ws t \<Longrightarrow> p_value n s = p_value n t"
  by (cases n) simp_all

lemma p_member_skip: "skip_ws s = skip_ws t \<Longrightarrow> p_member n s = p_member n t"
  by (cases n) simp_all

lemmas p_value_new_line [simp] = p_value_skip [OF skip_ws_new_line]
lemmas p_member_new_line [simp] = p_member_skip [OF skip_ws_new_line]

subsection \<open>Values\<close>

definition line_stop :: "string \<Rightarrow> bool" where
  "line_stop s = (case s of [] \<Rightarrow> True | c # _ \<Rightarrow> c \<in> {CHR '','', CHR 0x0A})"

lemma line_stop_number: "line_stop s \<Longrightarrow> number_stop s"
  by (auto simp: line_stop_def number_stop_def is_digit_def is_e_def split: list.splits)

lemma line_stop_i [simp]: "line_stop (i_elems d vs @ r)" "line_stop (i_members d ms @ r)"
  by (cases vs; simp add: line_stop_def new_line_def)
     (cases ms rule: s_members.cases; simp add: line_stop_def new_line_def)

lemma i_value_head:
  assumes "printable j"
  shows "p_token '']'' x (skip_ws (i_value d j @ r)) = None"
proof (cases j rule: s_value.cases)
  case (6 v vs)
  then show ?thesis by (simp add: p_token_def skip_ws_id)
next
  case (8 k v ms)
  then show ?thesis by (simp add: p_token_def skip_ws_id)
qed (use s_value_head [OF assms, of x r] in simp_all)

lemma i_value_not_Nil: "printable j \<Longrightarrow> i_value d j \<noteq> []"
  by (cases j rule: s_value.cases) (auto simp: quote_string_def elim: number_to_string_head)

lemma p_member_i_print:
  assumes "p_value n (i_value d v @ r) = Some (v, r)"
  shows "p_member (Suc n) (quote_string k @ '': '' @ i_value d v @ r) = Some ((k, v), r)"
  using assms p_value_skip [OF skip_ws_blank]
  by (simp add: quote_string_def skip_ws_id p_chars_quote p_token_def)

lemma i_print_parse:
  "printable j \<Longrightarrow> line_stop r \<Longrightarrow> length (i_value d j) \<le> n \<Longrightarrow>
     p_value n (i_value d j @ r) = Some (j, r)"
  "list_all printable vs \<Longrightarrow> length (i_elems d vs) \<le> n \<Longrightarrow>
     p_elems n (i_elems d vs @ r) = Some (vs, r)"
  "list_all (\<lambda>m. printable (snd m)) ms \<Longrightarrow> length (i_members d ms) \<le> n \<Longrightarrow>
     p_members n (i_members d ms @ r) = Some (ms, r)"
proof (induction d j and d vs and d ms arbitrary: n r and n r and n r
    rule: i_value_i_elems_i_members.induct)
  case (3 d x)
  then have "n \<noteq> 0" using i_value_not_Nil [of "JNum x"] by (cases n) auto
  then obtain n' where "n = Suc n'" by (cases n) auto
  then show ?case using 3 p_value_number line_stop_number by (simp del: p_value.simps)
next
  case (6 d v vs)
  then obtain n' where n: "n = Suc n'" by (cases n) auto
  have v: "p_value n' (i_value (Suc d) v @ i_elems d vs @ r) = Some (v, i_elems d vs @ r)"
    using 6 n by simp
  have vs: "p_elems n' (i_elems d vs @ r) = Some (vs, r)" using 6 n by simp
  have h: "p_token '']'' (JArr []) (skip_ws (i_value (Suc d) v @ i_elems d vs @ r)) = None"
    using 6 by (intro i_value_head) simp
  show ?case using v vs h by (simp add: n skip_ws_id)
next
  case (8 d k v ms)
  obtain n' where n: "n = Suc (Suc n')"
    using 8 by (cases n; cases "n - 1") (auto simp: quote_string_def)
  have v: "p_value n' (i_value (Suc d) v @ i_members d ms @ r) = Some (v, i_members d ms @ r)"
    using 8 n by (simp add: quote_string_def)
  have ms: "p_members (Suc n') (i_members d ms @ r) = Some (ms, r)"
    using 8 n by (simp add: quote_string_def del: p_members.simps)
  have h: "p_token ''}'' (JObj []) (skip_ws (quote_string k @ '': '' @ i_value (Suc d) v @ i_members d ms @ r)) = None"
    by (simp add: p_token_def skip_ws_id quote_string_def)
  have o: "obj_of ((k, v) # ms) = (k, v) # ms" using 8 by (intro obj_of_distinct) simp
  show ?case using p_member_i_print [OF v, of k] ms h o
    by (simp add: n skip_ws_id del: p_member.simps p_members.simps)
next
  case (10 d v vs)
  then obtain n' where n: "n = Suc n'" by (cases n) auto
  have v: "p_value n' (i_value (Suc d) v @ i_elems d vs @ r) = Some (v, i_elems d vs @ r)"
    using 10 n by simp
  have vs: "p_elems n' (i_elems d vs @ r) = Some (vs, r)" using 10 n by simp
  show ?case using v vs by (simp add: n skip_ws_id)
next
  case (12 d k v ms)
  obtain n' where n: "n = Suc (Suc n')"
    using 12 by (cases n; cases "n - 1") (auto simp: quote_string_def)
  have v: "p_value n' (i_value (Suc d) v @ i_members d ms @ r) = Some (v, i_members d ms @ r)"
    using 12 n by (simp add: quote_string_def)
  have ms: "p_members (Suc n') (i_members d ms @ r) = Some (ms, r)"
    using 12 n by (simp add: quote_string_def del: p_members.simps)
  show ?case using p_member_i_print [OF v, of k] ms
    by (simp add: n skip_ws_id p_members.simps(2) [of "Suc n'"] del: p_member.simps p_members.simps)
next
  case (1 d)
  then show ?case by (cases n) (simp_all add: skip_ws_id p_token_def)
next
  case (2 d b)
  then show ?case by (cases n) (auto simp: skip_ws_id p_token_def split: if_splits)
next
  case (4 d s)
  then show ?case by (cases n) (simp_all add: quote_string_def skip_ws_id p_chars_quote)
next
  case (5 d)
  then show ?case by (cases n) (simp_all add: skip_ws_id p_token_def)
next
  case (7 d)
  then show ?case by (cases n) (simp_all add: skip_ws_id p_token_def)
next
  case (9 d)
  then show ?case by (cases n) (simp_all add: skip_ws_id)
next
  case (11 d)
  then show ?case by (cases n) (simp_all add: skip_ws_id)
qed

lemma JSON_parse_stringify_2: "printable j \<Longrightarrow> JSON_parse (JSON_stringify_2 j) = Some j"
  using i_print_parse(1) [of j "[]" 0 "Suc (length (i_value 0 j))"]
  by (simp add: JSON_parse_def JSON_stringify_2_def line_stop_def skip_ws_def)

interpretation js_json_2: json_codec JSON_parse JSON_stringify_2 printable
  by unfold_locales (rule JSON_parse_stringify_2)

end
