(* ===== verification/Advanced_Custom.thy ===== *)
theory Advanced_Custom
  imports Model_Mapping Json_Indent
begin

text \<open>
  \<open>features/channels/lib/advanced-custom.ts\<close>: the routes of a channel of type "advanced custom".
  The types are those of \<open>features/channels/types.ts\<close>; a converter and an authentication type are
  texts, because they come from JSON and the validation rejects unknown ones. \<open>new URL(value)\<close> is
  the argument \<open>url\<close>, which returns the protocol and the host, or \<open>None\<close> where it throws.
\<close>

section \<open>Types\<close>

record AdvancedCustomRouteAuth =
  au_type :: "string option"
  au_name :: "string option"
  au_value :: "string option"

record AdvancedCustomRoute =
  rt_incoming_path :: "string option"
  rt_upstream_path :: "string option"
  rt_converter :: "string option"
  rt_models :: "string list option"
  rt_auth :: "AdvancedCustomRouteAuth option"

record AdvancedCustomConfig =
  advanced_routes :: "AdvancedCustomRoute list option"

record AdvancedCustomConverterOption =
  co_value :: string
  co_label :: string
  co_triggerLabel :: string

record AdvancedCustomIncomingPathOption =
  po_value :: string
  po_label :: string

record AdvancedCustomTemplateOption =
  to_value :: string
  to_label :: string
  to_config :: AdvancedCustomConfig

record AdvancedCustomConverterDefaults =
  cd_upstream_path :: string
  cd_auth :: "AdvancedCustomRouteAuth option"

record AdvancedCustomValidationError =
  ve_message :: string
  ve_routeIndex :: "nat option"

datatype AdvancedCustomModelRuleKind = ExactRule | RegexRule

section \<open>Tables\<close>

definition ADVANCED_CUSTOM_CONVERTER_OPTIONS :: "AdvancedCustomConverterOption list" where
  "ADVANCED_CUSTOM_CONVERTER_OPTIONS =
    [\<lparr>co_value = ''none'',
      co_label = ''Native forwarding'', co_triggerLabel = ''Native forwarding''\<rparr>,
     \<lparr>co_value = ''anthropic_messages_to_openai_chat_completions'',
      co_label = ''Anthropic Messages to OpenAI Chat'', co_triggerLabel = ''To OpenAI Chat''\<rparr>,
     \<lparr>co_value = ''openai_chat_completions_to_anthropic_messages'',
      co_label = ''OpenAI Chat to Anthropic Messages'', co_triggerLabel = ''To Anthropic Messages''\<rparr>,
     \<lparr>co_value = ''openai_chat_completions_to_openai_responses'',
      co_label = ''OpenAI Chat to OpenAI Responses'', co_triggerLabel = ''To OpenAI Responses''\<rparr>,
     \<lparr>co_value = ''openai_responses_to_openai_chat_completions'',
      co_label = ''OpenAI Responses to OpenAI Chat'', co_triggerLabel = ''To OpenAI Chat''\<rparr>,
     \<lparr>co_value = ''openai_responses_to_gemini_generate_content'',
      co_label = ''OpenAI Responses to Gemini Generate Content'', co_triggerLabel = ''To Gemini Generate Content''\<rparr>,
     \<lparr>co_value = ''gemini_generate_content_to_openai_chat_completions'',
      co_label = ''Gemini Generate Content to OpenAI Chat'', co_triggerLabel = ''To OpenAI Chat''\<rparr>,
     \<lparr>co_value = ''openai_chat_completions_to_gemini_generate_content'',
      co_label = ''OpenAI Chat to Gemini Generate Content'', co_triggerLabel = ''To Gemini Generate Content''\<rparr>]"

definition ADVANCED_CUSTOM_INCOMING_PATH_OPTIONS :: "AdvancedCustomIncomingPathOption list" where
  "ADVANCED_CUSTOM_INCOMING_PATH_OPTIONS =
    [\<lparr>po_value = ''/v1/chat/completions'', po_label = ''OpenAI Chat''\<rparr>,
     \<lparr>po_value = ''/v1/responses'', po_label = ''OpenAI Responses''\<rparr>,
     \<lparr>po_value = ''/v1/responses/compact'', po_label = ''OpenAI Responses Compact''\<rparr>,
     \<lparr>po_value = ''/v1/embeddings'', po_label = ''OpenAI Embeddings''\<rparr>,
     \<lparr>po_value = ''/v1/images/generations'', po_label = ''OpenAI Image Generations''\<rparr>,
     \<lparr>po_value = ''/v1/images/edits'', po_label = ''OpenAI Image Edits''\<rparr>,
     \<lparr>po_value = ''/v1/completions'', po_label = ''OpenAI Completions''\<rparr>,
     \<lparr>po_value = ''/v1/audio/speech'', po_label = ''OpenAI Audio Speech''\<rparr>,
     \<lparr>po_value = ''/v1/audio/transcriptions'', po_label = ''OpenAI Audio Transcriptions''\<rparr>,
     \<lparr>po_value = ''/v1/audio/translations'', po_label = ''OpenAI Audio Translations''\<rparr>,
     \<lparr>po_value = ''/v1/rerank'', po_label = ''OpenAI Rerank''\<rparr>,
     \<lparr>po_value = ''/v1/realtime'', po_label = ''OpenAI Realtime''\<rparr>,
     \<lparr>po_value = ''/v1/messages'', po_label = ''Claude Messages''\<rparr>,
     \<lparr>po_value = ''/v1beta/models/{model}:generateContent'', po_label = ''Gemini Generate Content''\<rparr>,
     \<lparr>po_value = ''/v1beta/models/{model}:embedContent'', po_label = ''Gemini Embed Content''\<rparr>,
     \<lparr>po_value = ''/v1beta/models/{model}:batchEmbedContents'', po_label = ''Gemini Batch Embed Contents''\<rparr>]"

definition ADVANCED_CUSTOM_ROUTE_SUMMARY_LABELS :: "string \<rightharpoonup> string" where
  "ADVANCED_CUSTOM_ROUTE_SUMMARY_LABELS = [''/v1/chat/completions'' \<mapsto> ''OpenAI Chat'']"

definition ADVANCED_CUSTOM_MODEL_REGEX_PREFIX :: string where
  "ADVANCED_CUSTOM_MODEL_REGEX_PREFIX = ''re:''"

definition openAIChatPath :: string where "openAIChatPath = ''/v1/chat/completions''"
definition openAIResponsesPath :: string where "openAIResponsesPath = ''/v1/responses''"
definition claudeMessagesPath :: string where "claudeMessagesPath = ''/v1/messages''"
definition geminiGenerateContentPath :: string where
  "geminiGenerateContentPath = ''/v1beta/models/{model}:generateContent''"

definition bearerHeaderAuth :: AdvancedCustomRouteAuth where
  "bearerHeaderAuth =
     \<lparr>au_type = Some ''header'', au_name = Some ''Authorization'', au_value = Some ''Bearer {api_key}''\<rparr>"

definition apiKeyHeaderAuth :: AdvancedCustomRouteAuth where
  "apiKeyHeaderAuth = \<lparr>au_type = Some ''header'', au_name = Some ''x-api-key'', au_value = Some ''{api_key}''\<rparr>"

definition geminiQueryAuth :: AdvancedCustomRouteAuth where
  "geminiQueryAuth = \<lparr>au_type = Some ''query'', au_name = Some ''key'', au_value = Some ''{api_key}''\<rparr>"

text \<open>A route of a template: its paths, its converter and its authentication.\<close>

definition template_route :: "string \<Rightarrow> string \<Rightarrow> string \<Rightarrow> AdvancedCustomRouteAuth \<Rightarrow> AdvancedCustomRoute" where
  "template_route incoming upstream converter auth =
     \<lparr>rt_incoming_path = Some incoming, rt_upstream_path = Some upstream, rt_converter = Some converter,
      rt_models = None, rt_auth = Some auth\<rparr>"

definition ADVANCED_CUSTOM_TEMPLATE_OPTIONS :: "AdvancedCustomTemplateOption list" where
  "ADVANCED_CUSTOM_TEMPLATE_OPTIONS =
    [\<lparr>to_value = ''official_openai_chat'', to_label = ''Official OpenAI Chat'',
      to_config = \<lparr>advanced_routes = Some
       [template_route ''/v1/chat/completions'' ''/v1/chat/completions''
          ''none'' bearerHeaderAuth]\<rparr>\<rparr>,
     \<lparr>to_value = ''official_openai_responses'', to_label = ''Official OpenAI Responses'',
      to_config = \<lparr>advanced_routes = Some
       [template_route ''/v1/responses'' ''/v1/responses''
          ''none'' bearerHeaderAuth]\<rparr>\<rparr>,
     \<lparr>to_value = ''official_openai_embeddings'', to_label = ''Official OpenAI Embeddings'',
      to_config = \<lparr>advanced_routes = Some
       [template_route ''/v1/embeddings'' ''/v1/embeddings''
          ''none'' bearerHeaderAuth]\<rparr>\<rparr>,
     \<lparr>to_value = ''official_openai_images'', to_label = ''Official OpenAI Images'',
      to_config = \<lparr>advanced_routes = Some
       [template_route ''/v1/images/generations'' ''/v1/images/generations''
          ''none'' bearerHeaderAuth,
        template_route ''/v1/images/edits'' ''/v1/images/edits''
          ''none'' bearerHeaderAuth]\<rparr>\<rparr>,
     \<lparr>to_value = ''official_claude_messages'', to_label = ''Official Claude Messages'',
      to_config = \<lparr>advanced_routes = Some
       [template_route ''/v1/messages'' ''/v1/messages''
          ''none'' apiKeyHeaderAuth]\<rparr>\<rparr>,
     \<lparr>to_value = ''official_gemini_native'', to_label = ''Official Gemini Native'',
      to_config = \<lparr>advanced_routes = Some
       [template_route ''/v1beta/models/{model}:generateContent'' ''/v1beta/models/{model}:generateContent''
          ''none'' geminiQueryAuth,
        template_route ''/v1beta/models/{model}:embedContent'' ''/v1beta/models/{model}:embedContent''
          ''none'' geminiQueryAuth,
        template_route ''/v1beta/models/{model}:batchEmbedContents'' ''/v1beta/models/{model}:batchEmbedContents''
          ''none'' geminiQueryAuth]\<rparr>\<rparr>,
     \<lparr>to_value = ''official_gemini_from_openai_chat'', to_label = ''Official Gemini from OpenAI Chat'',
      to_config = \<lparr>advanced_routes = Some
       [template_route ''/v1/chat/completions'' ''/v1beta/models/{model}:generateContent''
          ''openai_chat_completions_to_gemini_generate_content'' geminiQueryAuth]\<rparr>\<rparr>]"

section \<open>Operations\<close>

definition isConverterPathAllowed :: "string \<Rightarrow> string \<Rightarrow> bool" where
  "isConverterPathAllowed incomingPath converter =
     (if converter = ''none'' then True
      else if converter = ''anthropic_messages_to_openai_chat_completions''
      then incomingPath = ''/v1/messages''
      else if converter = ''openai_chat_completions_to_anthropic_messages'' \<or>
              converter = ''openai_chat_completions_to_openai_responses'' \<or>
              converter = ''openai_chat_completions_to_gemini_generate_content''
      then incomingPath = ''/v1/chat/completions''
      else if converter = ''openai_responses_to_openai_chat_completions''
      then incomingPath = ''/v1/responses''
      else if converter = ''openai_responses_to_gemini_generate_content''
      then incomingPath = ''/v1/responses''
      else contains incomingPath '':generateContent'' \<or> contains incomingPath '':streamGenerateContent'')"

definition isAdvancedCustomConverter :: "string \<Rightarrow> bool" where
  "isAdvancedCustomConverter value =
     list_ex (\<lambda>option. co_value option = value) ADVANCED_CUSTOM_CONVERTER_OPTIONS"

definition getAdvancedCustomNativeAuth :: "string \<Rightarrow> AdvancedCustomRouteAuth" where
  "getAdvancedCustomNativeAuth incomingPath =
     (if incomingPath = claudeMessagesPath then apiKeyHeaderAuth
      else if contains incomingPath '':generateContent'' \<or> contains incomingPath '':streamGenerateContent'' \<or>
              contains incomingPath '':embedContent'' \<or> contains incomingPath '':batchEmbedContents''
      then geminiQueryAuth else bearerHeaderAuth)"

definition getAdvancedCustomIncomingPathOptions :: "string \<Rightarrow> AdvancedCustomIncomingPathOption list" where
  "getAdvancedCustomIncomingPathOptions converter =
     filter (\<lambda>option. isConverterPathAllowed (po_value option) converter)
       ADVANCED_CUSTOM_INCOMING_PATH_OPTIONS"

definition getDefaultAdvancedCustomIncomingPath :: "string \<Rightarrow> string" where
  "getDefaultAdvancedCustomIncomingPath converter =
     (case getAdvancedCustomIncomingPathOptions converter of
        [] \<Rightarrow> ''/v1/chat/completions''
      | option # _ \<Rightarrow> or_string (po_value option) ''/v1/chat/completions'')"

definition isAdvancedCustomIncomingPathAllowed :: "string \<Rightarrow> string \<Rightarrow> bool" where
  "isAdvancedCustomIncomingPathAllowed incomingPath converter = isConverterPathAllowed incomingPath converter"

definition getAdvancedCustomConverterOptions :: "string \<Rightarrow> AdvancedCustomConverterOption list" where
  "getAdvancedCustomConverterOptions incomingPath =
     (let normalizedIncomingPath = trim incomingPath
      in filter (\<lambda>option. co_value option = ''none'' \<or>
             isConverterPathAllowed normalizedIncomingPath (co_value option))
           ADVANCED_CUSTOM_CONVERTER_OPTIONS)"

definition getAdvancedCustomIncomingPathLabel :: "string \<Rightarrow> string" where
  "getAdvancedCustomIncomingPathLabel value =
     (case find (\<lambda>option. po_value option = value) ADVANCED_CUSTOM_INCOMING_PATH_OPTIONS of
        None \<Rightarrow> value
      | Some option \<Rightarrow> or_string (po_label option) value)"

definition getAdvancedCustomConverterDefaults :: "string \<Rightarrow> string \<Rightarrow> AdvancedCustomConverterDefaults" where
  "getAdvancedCustomConverterDefaults converter incomingPath =
     (let normalizedIncomingPath = or_string (trim incomingPath) (getDefaultAdvancedCustomIncomingPath converter)
      in if converter = ''none''
         then \<lparr>cd_upstream_path = normalizedIncomingPath,
               cd_auth = Some (getAdvancedCustomNativeAuth normalizedIncomingPath)\<rparr>
         else if converter = ''anthropic_messages_to_openai_chat_completions'' \<or>
                 converter = ''gemini_generate_content_to_openai_chat_completions'' \<or>
                 converter = ''openai_responses_to_openai_chat_completions''
         then \<lparr>cd_upstream_path = openAIChatPath, cd_auth = Some bearerHeaderAuth\<rparr>
         else if converter = ''openai_chat_completions_to_openai_responses''
         then \<lparr>cd_upstream_path = openAIResponsesPath, cd_auth = Some bearerHeaderAuth\<rparr>
         else if converter = ''openai_chat_completions_to_anthropic_messages''
         then \<lparr>cd_upstream_path = claudeMessagesPath, cd_auth = Some apiKeyHeaderAuth\<rparr>
         else if converter = ''openai_chat_completions_to_gemini_generate_content'' \<or>
                 converter = ''openai_responses_to_gemini_generate_content''
         then \<lparr>cd_upstream_path = geminiGenerateContentPath, cd_auth = Some geminiQueryAuth\<rparr>
         else \<lparr>cd_upstream_path = or_string normalizedIncomingPath openAIChatPath,
               cd_auth = Some (getAdvancedCustomNativeAuth normalizedIncomingPath)\<rparr>)"

text \<open>An omitted incoming path is the default one of the converter.\<close>

definition getAdvancedCustomUpstreamPathPlaceholder :: "string \<Rightarrow> string option \<Rightarrow> string" where
  "getAdvancedCustomUpstreamPathPlaceholder converter incomingPath =
     cd_upstream_path (getAdvancedCustomConverterDefaults converter
       (nullish incomingPath (getDefaultAdvancedCustomIncomingPath converter)))"

definition createAdvancedCustomRoute :: AdvancedCustomRoute where
  "createAdvancedCustomRoute =
     \<lparr>rt_incoming_path = Some openAIChatPath, rt_upstream_path = Some openAIChatPath,
      rt_converter = Some ''none'', rt_models = None, rt_auth = None\<rparr>"

definition createAdvancedCustomConfig :: AdvancedCustomConfig where
  "createAdvancedCustomConfig = \<lparr>advanced_routes = Some [createAdvancedCustomRoute]\<rparr>"

subsection \<open>Normalising\<close>

definition getAdvancedCustomRouteUpstreamPath :: "AdvancedCustomRoute \<Rightarrow> string" where
  "getAdvancedCustomRouteUpstreamPath route = trim (nullish (rt_upstream_path route) [])"

definition normalizeAdvancedCustomRouteModels :: "string list option \<Rightarrow> string list" where
  "normalizeAdvancedCustomRouteModels models =
     (case models of None \<Rightarrow> [] | Some ms \<Rightarrow> filter (\<lambda>m. m \<noteq> []) (map trim ms))"

text \<open>\<open>route.converter || 'none'\<close>\<close>

definition converter_of :: "AdvancedCustomRoute \<Rightarrow> string" where
  "converter_of route = or_string (nullish (rt_converter route) []) ''none''"

definition normalizeAdvancedCustomRoute :: "AdvancedCustomRoute \<Rightarrow> AdvancedCustomRoute" where
  "normalizeAdvancedCustomRoute route =
     (let models = normalizeAdvancedCustomRouteModels (rt_models route)
      in \<lparr>rt_incoming_path = Some (nullish (rt_incoming_path route) []),
          rt_upstream_path = Some (getAdvancedCustomRouteUpstreamPath route),
          rt_converter = Some (converter_of route),
          rt_models = (if 0 < length models then Some models else None),
          rt_auth = (case rt_auth route of None \<Rightarrow> None
            | Some auth \<Rightarrow> Some \<lparr>au_type = au_type auth, au_name = Some (nullish (au_name auth) []),
                               au_value = Some (nullish (au_value auth) [])\<rparr>)\<rparr>)"

definition normalizeAdvancedCustomConfig :: "AdvancedCustomConfig \<Rightarrow> AdvancedCustomConfig" where
  "normalizeAdvancedCustomConfig config =
     \<lparr>advanced_routes = Some (case advanced_routes config of
        None \<Rightarrow> [] | Some routes \<Rightarrow> map normalizeAdvancedCustomRoute routes)\<rparr>"

definition parseAdvancedCustomRouteModels :: "string \<Rightarrow> string list" where
  "parseAdvancedCustomRouteModels value =
     uniq (filter (\<lambda>m. m \<noteq> []) (map trim (split_on CHR '','' value)))"

definition getAdvancedCustomModelRuleKind :: "string \<Rightarrow> AdvancedCustomModelRuleKind" where
  "getAdvancedCustomModelRuleKind modelRule =
     (if startsWith modelRule ADVANCED_CUSTOM_MODEL_REGEX_PREFIX then RegexRule else ExactRule)"

definition getAdvancedCustomRegexModelPattern :: "string \<Rightarrow> string" where
  "getAdvancedCustomRegexModelPattern modelRule =
     sliceFrom modelRule (length ADVANCED_CUSTOM_MODEL_REGEX_PREFIX)"

definition getAdvancedCustomAuthMode :: "AdvancedCustomRoute \<Rightarrow> string" where
  "getAdvancedCustomAuthMode route =
     or_string (nullish (Option.bind (rt_auth route) au_type) []) ''default''"

definition buildAdvancedCustomAuth ::
  "string \<Rightarrow> AdvancedCustomRouteAuth option \<Rightarrow> AdvancedCustomRouteAuth option" where
  "buildAdvancedCustomAuth mode previousAuth =
     (let prev = (\<lambda>f d. Some (or_string (nullish (Option.bind previousAuth f) []) d))
      in if mode = ''default'' then None
         else if mode = ''none'' then Some \<lparr>au_type = Some ''none'', au_name = None, au_value = None\<rparr>
         else if mode = ''header''
         then Some \<lparr>au_type = Some ''header'', au_name = prev au_name ''Authorization'',
                    au_value = prev au_value ''Bearer {api_key}''\<rparr>
         else Some \<lparr>au_type = Some ''query'', au_name = prev au_name ''api_key'',
                    au_value = prev au_value ''{api_key}''\<rparr>)"

subsection \<open>Validating\<close>

type_synonym url_parser = "string \<Rightarrow> (string \<times> string) option"

definition isFullHttpURLOrAbsolutePath :: "url_parser \<Rightarrow> string \<Rightarrow> bool" where
  "isFullHttpURLOrAbsolutePath url value =
     (if startsWith value ''/'' then \<not> startsWith value ''//''
      else case url value of
             None \<Rightarrow> False
           | Some (protocol, host) \<Rightarrow> host \<noteq> [] \<and> (protocol = ''http:'' \<or> protocol = ''https:''))"

definition validateRouteAuth :: "AdvancedCustomRouteAuth option \<Rightarrow> string option" where
  "validateRouteAuth auth =
     (case auth of
        None \<Rightarrow> None
      | Some a \<Rightarrow>
          if au_type a = Some ''none'' then None
          else if au_type a \<noteq> Some ''header'' \<and> au_type a \<noteq> Some ''query'' then Some ''Auth type is invalid''
          else if trim (nullish (au_name a) []) = [] then Some ''Auth name is required''
          else if trim (nullish (au_value a) []) = [] then Some ''Auth value is required''
          else None)"

record PathState =
  catchAllIndex :: "nat option"
  ps_models :: "string \<rightharpoonup> nat"

definition route_error :: "nat \<Rightarrow> string \<Rightarrow> AdvancedCustomValidationError" where
  "route_error index message = \<lparr>ve_message = message, ve_routeIndex = Some index\<rparr>"

text \<open>The loop over the models of a route; \<open>seenInRoute\<close> is the set of those before.\<close>

fun route_models_loop ::
  "nat \<Rightarrow> string list \<Rightarrow> string set \<Rightarrow> (string \<rightharpoonup> nat) \<Rightarrow> AdvancedCustomValidationError + (string \<rightharpoonup> nat)" where
  "route_models_loop routeIndex [] seenInRoute stateModels = Inr stateModels"
| "route_models_loop routeIndex (model # models) seenInRoute stateModels =
     (if getAdvancedCustomModelRuleKind model = RegexRule \<and> getAdvancedCustomRegexModelPattern model = []
      then Inl (route_error routeIndex ''Model regex cannot be empty'')
      else if model \<in> seenInRoute then Inl (route_error routeIndex ''Duplicate model in route models'')
      else if stateModels model \<noteq> None
      then Inl (route_error routeIndex ''Route models must be unique for the same incoming path'')
      else route_models_loop routeIndex models (insert model seenInRoute) (stateModels(model \<mapsto> routeIndex)))"

text \<open>
  The error, if any, and the map with the state of the path updated; after an error the map is not
  read again.
\<close>

definition validateAdvancedCustomRouteModels ::
  "nat \<Rightarrow> string \<Rightarrow> string list \<Rightarrow> (string \<rightharpoonup> PathState) \<Rightarrow>
    AdvancedCustomValidationError + (string \<rightharpoonup> PathState)" where
  "validateAdvancedCustomRouteModels routeIndex incomingPath models routeModelsByPath =
     (let state = nullish (routeModelsByPath incomingPath) \<lparr>catchAllIndex = None, ps_models = Map.empty\<rparr>
      in if length models = 0
         then if catchAllIndex state \<noteq> None
              then Inl (route_error routeIndex ''Only one catch-all route is allowed for the same incoming path'')
              else Inr (routeModelsByPath(incomingPath \<mapsto> state\<lparr>catchAllIndex := Some routeIndex\<rparr>))
         else if catchAllIndex state \<noteq> None
         then Inl (route_error routeIndex ''Catch-all route must be last for the same incoming path'')
         else case route_models_loop routeIndex models {} (ps_models state) of
                Inl e \<Rightarrow> Inl e
              | Inr ms \<Rightarrow> Inr (routeModelsByPath(incomingPath \<mapsto> state\<lparr>ps_models := ms\<rparr>)))"

text \<open>One round of the loop of \<open>validateAdvancedCustomConfig\<close>.\<close>

definition incoming_of :: "AdvancedCustomRoute \<Rightarrow> string" where
  "incoming_of route = trim (nullish (rt_incoming_path route) [])"

definition validate_route ::
  "url_parser \<Rightarrow> nat \<Rightarrow> AdvancedCustomRoute \<Rightarrow> (string \<rightharpoonup> PathState) \<Rightarrow>
    AdvancedCustomValidationError + (string \<rightharpoonup> PathState)" where
  "validate_route url index route routeModelsByPath =
     (let incomingPath = incoming_of route;
          upstreamPath = getAdvancedCustomRouteUpstreamPath route;
          converter = converter_of route;
          routeModels = normalizeAdvancedCustomRouteModels (rt_models route)
      in if incomingPath = [] then Inl (route_error index ''Incoming path is required'')
         else if \<not> startsWith incomingPath ''/'' then Inl (route_error index ''Incoming path must start with /'')
         else if contains incomingPath ''?'' then Inl (route_error index ''Incoming path must not include query'')
         else case validateAdvancedCustomRouteModels index incomingPath routeModels routeModelsByPath of
           Inl e \<Rightarrow> Inl e
         | Inr next \<Rightarrow>
             if upstreamPath = [] then Inl (route_error index ''Upstream path is required'')
             else if \<not> isFullHttpURLOrAbsolutePath url upstreamPath
             then Inl (route_error index ''Upstream path must be a full URL or a path starting with /'')
             else if \<not> isAdvancedCustomConverter converter
             then Inl (route_error index ''Converter is not registered'')
             else if \<not> isConverterPathAllowed incomingPath converter
             then Inl (route_error index ''Converter does not match incoming path'')
             else case validateRouteAuth (rt_auth route) of
               Some authError \<Rightarrow> Inl (route_error index authError)
             | None \<Rightarrow> Inr next)"

fun validate_routes ::
  "url_parser \<Rightarrow> nat \<Rightarrow> AdvancedCustomRoute list \<Rightarrow> (string \<rightharpoonup> PathState) \<Rightarrow>
    AdvancedCustomValidationError option" where
  "validate_routes url index [] routeModelsByPath = None"
| "validate_routes url index (route # routes) routeModelsByPath =
     (case validate_route url index route routeModelsByPath of
        Inl e \<Rightarrow> Some e
      | Inr next \<Rightarrow> validate_routes url (index + 1) routes next)"

definition validateAdvancedCustomConfig ::
  "url_parser \<Rightarrow> AdvancedCustomConfig option \<Rightarrow> AdvancedCustomValidationError option" where
  "validateAdvancedCustomConfig url config =
     (case config of
        None \<Rightarrow> Some \<lparr>ve_message = ''Advanced custom configuration is required'', ve_routeIndex = None\<rparr>
      | Some c \<Rightarrow>
          (let routes = nullish (advanced_routes (normalizeAdvancedCustomConfig c)) []
           in if length routes = 0
              then Some \<lparr>ve_message = ''Advanced custom configuration requires at least one route'',
                         ve_routeIndex = None\<rparr>
              else validate_routes url 0 routes Map.empty))"

definition advancedCustomConfigUsesRelativeUpstreamPath :: "AdvancedCustomConfig option \<Rightarrow> bool" where
  "advancedCustomConfigUsesRelativeUpstreamPath config =
     (case config of
        None \<Rightarrow> False
      | Some c \<Rightarrow> list_ex (\<lambda>route. startsWith (getAdvancedCustomRouteUpstreamPath route) ''/'')
          (nullish (advanced_routes (normalizeAdvancedCustomConfig c)) []))"

subsection \<open>Texts\<close>

definition enc_auth :: "AdvancedCustomRouteAuth \<Rightarrow> json" where
  "enc_auth a = JObj (opt_field ''type'' JStr (au_type a) @ opt_field ''name'' JStr (au_name a) @
     opt_field ''value'' JStr (au_value a))"

definition enc_route :: "AdvancedCustomRoute \<Rightarrow> json" where
  "enc_route r = JObj (opt_field ''incoming_path'' JStr (rt_incoming_path r) @
     opt_field ''upstream_path'' JStr (rt_upstream_path r) @ opt_field ''converter'' JStr (rt_converter r) @
     opt_field ''models'' (\<lambda>ms. JArr (map JStr ms)) (rt_models r) @ opt_field ''auth'' enc_auth (rt_auth r))"

definition enc_custom :: "AdvancedCustomConfig \<Rightarrow> json" where
  "enc_custom c = JObj (opt_field ''advanced_routes'' (\<lambda>rs. JArr (map enc_route rs)) (advanced_routes c))"

definition stringifyAdvancedCustomConfig :: "AdvancedCustomConfig \<Rightarrow> string" where
  "stringifyAdvancedCustomConfig config = JSON_stringify_2 (enc_custom (normalizeAdvancedCustomConfig config))"

text \<open>
  Reading back. A field that is absent or \<open>null\<close> is \<open>None\<close>, and so is a value of \<open>models\<close> or
  \<open>advanced_routes\<close> that is no array; the readers return \<open>None\<close> for any other value that does not
  have its declared type.
\<close>

definition read_text :: "json option \<Rightarrow> string option option" where
  "read_text v = (case v of None \<Rightarrow> Some None | Some JNull \<Rightarrow> Some None | Some (JStr s) \<Rightarrow> Some (Some s) | _ \<Rightarrow> None)"

fun read_all :: "('a \<Rightarrow> 'b option) \<Rightarrow> 'a list \<Rightarrow> 'b list option" where
  "read_all f [] = Some []"
| "read_all f (x # xs) = Option.bind (f x) (\<lambda>y. map_option (\<lambda>ys. y # ys) (read_all f xs))"

definition read_models :: "json option \<Rightarrow> string list option option" where
  "read_models v = (case v of
     Some (JArr vs) \<Rightarrow> map_option Some (read_all (\<lambda>j. case j of JStr s \<Rightarrow> Some s | _ \<Rightarrow> None) vs)
   | _ \<Rightarrow> Some None)"

definition read_auth :: "json option \<Rightarrow> AdvancedCustomRouteAuth option option" where
  "read_auth v = (case v of None \<Rightarrow> Some None | Some JNull \<Rightarrow> Some None
   | Some (JObj kvs) \<Rightarrow>
       Option.bind (read_text (map_of kvs ''type'')) (\<lambda>ty.
       Option.bind (read_text (map_of kvs ''name'')) (\<lambda>nm.
       Option.bind (read_text (map_of kvs ''value'')) (\<lambda>vl.
         Some (Some \<lparr>au_type = ty, au_name = nm, au_value = vl\<rparr>))))
   | _ \<Rightarrow> None)"

definition read_route :: "json \<Rightarrow> AdvancedCustomRoute option" where
  "read_route v = (case v of
     JObj kvs \<Rightarrow>
       Option.bind (read_text (map_of kvs ''incoming_path'')) (\<lambda>ip.
       Option.bind (read_text (map_of kvs ''upstream_path'')) (\<lambda>up.
       Option.bind (read_text (map_of kvs ''converter'')) (\<lambda>cv.
       Option.bind (read_models (map_of kvs ''models'')) (\<lambda>ms.
       Option.bind (read_auth (map_of kvs ''auth'')) (\<lambda>au.
         Some \<lparr>rt_incoming_path = ip, rt_upstream_path = up, rt_converter = cv, rt_models = ms, rt_auth = au\<rparr>)))))
   | _ \<Rightarrow> None)"

definition read_custom :: "(string \<times> json) list \<Rightarrow> AdvancedCustomConfig option" where
  "read_custom kvs = (case map_of kvs ''advanced_routes'' of
     Some (JArr vs) \<Rightarrow> map_option (\<lambda>rs. \<lparr>advanced_routes = Some rs\<rparr>) (read_all read_route vs)
   | _ \<Rightarrow> Some \<lparr>advanced_routes = None\<rparr>)"

text \<open>\<open>NoConfig\<close> is the result \<open>null\<close>; \<open>IllTyped\<close> stands for a text whose fields lack their declared types.\<close>

datatype ParsedConfig = NoConfig | ParsedConfig AdvancedCustomConfig | IllTyped

definition parseAdvancedCustomConfig :: "string option \<Rightarrow> ParsedConfig" where
  "parseAdvancedCustomConfig value =
     (if trim (nullish value []) = [] then NoConfig
      else case JSON_parse (nullish value []) of
             Some (JObj kvs) \<Rightarrow>
               (case read_custom kvs of
                  Some c \<Rightarrow> ParsedConfig (normalizeAdvancedCustomConfig c)
                | None \<Rightarrow> IllTyped)
           | _ \<Rightarrow> NoConfig)"

text \<open>A copy through JSON.\<close>

definition cloneAdvancedCustomConfig :: "AdvancedCustomConfig \<Rightarrow> AdvancedCustomConfig option" where
  "cloneAdvancedCustomConfig config =
     (case JSON_parse (JSON_stringify (enc_custom config)) of Some (JObj kvs) \<Rightarrow> read_custom kvs | _ \<Rightarrow> None)"

definition getAdvancedCustomTemplateConfig :: "string \<Rightarrow> AdvancedCustomConfig option" where
  "getAdvancedCustomTemplateConfig templateKey =
     (let template = (case find (\<lambda>option. to_value option = templateKey) ADVANCED_CUSTOM_TEMPLATE_OPTIONS of
            Some option \<Rightarrow> option | None \<Rightarrow> ADVANCED_CUSTOM_TEMPLATE_OPTIONS ! 0)
      in cloneAdvancedCustomConfig (to_config template))"

definition getAdvancedCustomRouteSummaryLabel :: "AdvancedCustomRoute \<Rightarrow> string option" where
  "getAdvancedCustomRouteSummaryLabel route =
     (let incomingPath = incoming_of route
      in if incomingPath = [] then None
         else Some (or_string (nullish (ADVANCED_CUSTOM_ROUTE_SUMMARY_LABELS incomingPath) [])
                (getAdvancedCustomIncomingPathLabel incomingPath)))"

record AdvancedCustomStats =
  routeCount :: nat
  st_valid :: bool
  routeTypeLabels :: "string list"

definition add_label :: "string list \<Rightarrow> AdvancedCustomRoute \<Rightarrow> string list" where
  "add_label labels route =
     (case getAdvancedCustomRouteSummaryLabel route of
        None \<Rightarrow> labels
      | Some label \<Rightarrow> if label = [] \<or> label \<in> set labels then labels else labels @ [label])"

definition getAdvancedCustomStats :: "url_parser \<Rightarrow> string option \<Rightarrow> AdvancedCustomStats option" where
  "getAdvancedCustomStats url value =
     (case parseAdvancedCustomConfig value of
        IllTyped \<Rightarrow> None
      | NoConfig \<Rightarrow> Some \<lparr>routeCount = 0, st_valid = False, routeTypeLabels = []\<rparr>
      | ParsedConfig config \<Rightarrow>
          (let normalized = normalizeAdvancedCustomConfig config;
               routes = nullish (advanced_routes normalized) []
           in Some \<lparr>routeCount = length routes,
                    st_valid = (validateAdvancedCustomConfig url (Some normalized) = None),
                    routeTypeLabels = foldl add_label [] routes\<rparr>))"

section \<open>Validation\<close>

subsection \<open>What a valid configuration is\<close>

definition rules :: "AdvancedCustomRoute \<Rightarrow> string list" where
  "rules r = normalizeAdvancedCustomRouteModels (rt_models r)"

definition route_ok :: "url_parser \<Rightarrow> AdvancedCustomRoute \<Rightarrow> bool" where
  "route_ok url r \<longleftrightarrow> startsWith (incoming_of r) ''/'' \<and> \<not> contains (incoming_of r) ''?'' \<and>
     getAdvancedCustomRouteUpstreamPath r \<noteq> [] \<and>
     isFullHttpURLOrAbsolutePath url (getAdvancedCustomRouteUpstreamPath r) \<and>
     isAdvancedCustomConverter (converter_of r) \<and> isConverterPathAllowed (incoming_of r) (converter_of r) \<and>
     validateRouteAuth (rt_auth r) = None \<and> distinct (rules r) \<and> ''re:'' \<notin> set (rules r)"

text \<open>
  Two routes of one incoming path, in this order: the first one is no catch-all and they have no
  rule in common.
\<close>

definition coexist :: "AdvancedCustomRoute \<Rightarrow> AdvancedCustomRoute \<Rightarrow> bool" where
  "coexist q r \<longleftrightarrow> incoming_of q \<noteq> incoming_of r \<or> rules q \<noteq> [] \<and> set (rules q) \<inter> set (rules r) = {}"

definition valid_routes :: "url_parser \<Rightarrow> AdvancedCustomRoute list \<Rightarrow> bool" where
  "valid_routes url rs \<longleftrightarrow> list_all (route_ok url) rs \<and> sorted_wrt coexist rs"

lemma valid_routes_snoc:
  "valid_routes url (rs @ [r]) \<longleftrightarrow> valid_routes url rs \<and> route_ok url r \<and> (\<forall>q\<in>set rs. coexist q r)"
  by (auto simp: valid_routes_def sorted_wrt_append)

lemma valid_routes_prefix: "valid_routes url (rs @ rs') \<Longrightarrow> valid_routes url rs"
  by (auto simp: valid_routes_def sorted_wrt_append)

subsection \<open>The state of the loop\<close>

definition path_state :: "(string \<rightharpoonup> PathState) \<Rightarrow> string \<Rightarrow> PathState" where
  "path_state st p = nullish (st p) \<lparr>catchAllIndex = None, ps_models = Map.empty\<rparr>"

lemma path_state_upd [simp]: "path_state (st(p \<mapsto> s)) q = (if q = p then s else path_state st q)"
  by (simp add: path_state_def)

definition agrees :: "(string \<rightharpoonup> PathState) \<Rightarrow> AdvancedCustomRoute list \<Rightarrow> bool" where
  "agrees st ps \<longleftrightarrow> (\<forall>p. (catchAllIndex (path_state st p) \<noteq> None) = (\<exists>q\<in>set ps. incoming_of q = p \<and> rules q = []) \<and>
     dom (ps_models (path_state st p)) = (\<Union>q\<in>{q \<in> set ps. incoming_of q = p}. set (rules q)))"

lemma agrees_empty: "agrees Map.empty []"
  by (simp add: agrees_def path_state_def)

lemma empty_regex_iff:
  "getAdvancedCustomModelRuleKind m = RegexRule \<and> getAdvancedCustomRegexModelPattern m = [] \<longleftrightarrow> m = ''re:''"
  by (auto simp: getAdvancedCustomModelRuleKind_def getAdvancedCustomRegexModelPattern_def
      ADVANCED_CUSTOM_MODEL_REGEX_PREFIX_def startsWith_def sliceFrom_def prefix_def)

lemma route_models_loop_spec:
  "case route_models_loop i ms seen st of
     Inl e \<Rightarrow> ve_routeIndex e = Some i \<and>
       \<not> (''re:'' \<notin> set ms \<and> distinct ms \<and> set ms \<inter> seen = {} \<and> set ms \<inter> dom st = {})
   | Inr st' \<Rightarrow> ''re:'' \<notin> set ms \<and> distinct ms \<and> set ms \<inter> seen = {} \<and> set ms \<inter> dom st = {} \<and>
       dom st' = dom st \<union> set ms"
proof (induction ms arbitrary: seen st)
  case (Cons m ms)
  consider "m = ''re:''" | "m \<noteq> ''re:''" "m \<in> seen" | "m \<noteq> ''re:''" "m \<notin> seen" "m \<in> dom st"
    | "m \<noteq> ''re:''" "m \<notin> seen" "m \<notin> dom st" by blast
  then show ?case
  proof cases
    case 4
    then have eq: "route_models_loop i (m # ms) seen st = route_models_loop i ms (insert m seen) (st(m \<mapsto> i))"
      using empty_regex_iff [of m] by auto
    show ?thesis
      unfolding eq using Cons [of "insert m seen" "st(m \<mapsto> i)"] 4
      by (cases "route_models_loop i ms (insert m seen) (st(m \<mapsto> i))") (auto simp del: fun_upd_apply)
  qed (use empty_regex_iff [of m] in \<open>auto simp: route_error_def\<close>)
qed simp

lemma validate_models_spec:
  assumes "agrees st ps"
  shows "case validateAdvancedCustomRouteModels i (incoming_of r) (rules r) st of
     Inl e \<Rightarrow> ve_routeIndex e = Some i \<and> \<not> (distinct (rules r) \<and> ''re:'' \<notin> set (rules r) \<and> (\<forall>q\<in>set ps. coexist q r))
   | Inr st' \<Rightarrow> distinct (rules r) \<and> ''re:'' \<notin> set (rules r) \<and> (\<forall>q\<in>set ps. coexist q r) \<and> agrees st' (ps @ [r])"
proof -
  let ?p = "incoming_of r" let ?s = "path_state st ?p"
  have ca: "catchAllIndex ?s \<noteq> None \<longleftrightarrow> (\<exists>q\<in>set ps. incoming_of q = ?p \<and> rules q = [])"
    and dm: "dom (ps_models ?s) = (\<Union>q\<in>{q \<in> set ps. incoming_of q = ?p}. set (rules q))"
    using assms by (auto simp: agrees_def)
  have co: "(\<forall>q\<in>set ps. coexist q r) \<longleftrightarrow> catchAllIndex ?s = None \<and> set (rules r) \<inter> dom (ps_models ?s) = {}"
    using ca unfolding dm coexist_def by blast
  show ?thesis
  proof (cases "catchAllIndex ?s = None")
    case True
    then have none: "\<not> (\<exists>q\<in>set ps. incoming_of q = ?p \<and> rules q = [])" using ca by blast
    then show ?thesis
    proof (cases "rules r = []")
      case False
      then show ?thesis
        using True co assms none route_models_loop_spec [of i "rules r" "{}" "ps_models ?s"]
        by (auto simp: validateAdvancedCustomRouteModels_def Let_def agrees_def path_state_def [symmetric]
            split: sum.splits)
    qed (use co assms in \<open>auto simp: validateAdvancedCustomRouteModels_def Let_def agrees_def path_state_def [symmetric]\<close>)
  qed (use co in \<open>auto simp: validateAdvancedCustomRouteModels_def Let_def route_error_def path_state_def [symmetric]\<close>)
qed

lemma validate_route_spec:
  assumes "agrees st ps"
  shows "case validate_route url i r st of
     Inl e \<Rightarrow> ve_routeIndex e = Some i \<and> \<not> (route_ok url r \<and> (\<forall>q\<in>set ps. coexist q r))
   | Inr st' \<Rightarrow> route_ok url r \<and> (\<forall>q\<in>set ps. coexist q r) \<and> agrees st' (ps @ [r])"
proof -
  have "startsWith [] ''/'' = False" by (simp add: startsWith_def)
  then show ?thesis
    using validate_models_spec [OF assms, of i r]
    by (auto simp: validate_route_def Let_def route_ok_def rules_def [symmetric] route_error_def
        split: sum.splits option.splits)
qed

text \<open>The loop stops at the first route that cannot follow the routes before it.\<close>

lemma validate_routes_spec:
  assumes "agrees st ps" "valid_routes url ps"
  shows "case validate_routes url (length ps) rs st of
     None \<Rightarrow> valid_routes url (ps @ rs)
   | Some e \<Rightarrow> \<exists>k<length rs. ve_routeIndex e = Some (length ps + k) \<and>
       valid_routes url (ps @ take k rs) \<and> \<not> valid_routes url (ps @ take (Suc k) rs)"
  using assms
proof (induction rs arbitrary: st ps)
  case (Cons r rs)
  show ?case
  proof (cases "validate_route url (length ps) r st")
    case (Inl e)
    then have "ve_routeIndex e = Some (length ps)" "\<not> valid_routes url (ps @ [r])"
      using validate_route_spec [OF Cons.prems(1), where url = url and i = "length ps" and r = r] by (auto simp: valid_routes_snoc)
    then show ?thesis using Inl Cons.prems by (auto intro!: exI [of _ 0])
  next
    case (Inr st')
    then have ok: "valid_routes url (ps @ [r])" "agrees st' (ps @ [r])"
      using validate_route_spec [OF Cons.prems(1), where url = url and i = "length ps" and r = r] Cons.prems(2)
      by (auto simp: valid_routes_snoc)
    have "validate_routes url (length ps) (r # rs) st = validate_routes url (length (ps @ [r])) rs st'"
      using Inr by simp
    then show ?thesis
      using Cons.IH [OF ok(2,1)] by (fastforce split: option.splits intro: exI [of _ "Suc k" for k])
  qed
qed simp

section \<open>Normal forms and texts\<close>

definition config_routes :: "AdvancedCustomConfig \<Rightarrow> AdvancedCustomRoute list" where
  "config_routes c = nullish (advanced_routes c) []"

lemma normalize_models_idem:
  "normalizeAdvancedCustomRouteModels (Some (normalizeAdvancedCustomRouteModels ms)) =
    normalizeAdvancedCustomRouteModels ms"
  by (cases ms) (simp_all add: normalizeAdvancedCustomRouteModels_def filter_map comp_def)

lemma or_string_or: "or_string (or_string s d) d = or_string s d"
  by (simp add: or_string_def)

lemma normalize_route_fields [simp]:
  "incoming_of (normalizeAdvancedCustomRoute r) = incoming_of r"
  "getAdvancedCustomRouteUpstreamPath (normalizeAdvancedCustomRoute r) = getAdvancedCustomRouteUpstreamPath r"
  "converter_of (normalizeAdvancedCustomRoute r) = converter_of r"
  "rules (normalizeAdvancedCustomRoute r) = rules r"
  "validateRouteAuth (rt_auth (normalizeAdvancedCustomRoute r)) = validateRouteAuth (rt_auth r)"
  using normalize_models_idem [of "rt_models r"]
  by (auto simp: normalizeAdvancedCustomRoute_def incoming_of_def getAdvancedCustomRouteUpstreamPath_def
      converter_of_def rules_def or_string_or validateRouteAuth_def Let_def normalizeAdvancedCustomRouteModels_def
      split: option.splits)

lemma normalize_route_idem [simp]:
  "normalizeAdvancedCustomRoute (normalizeAdvancedCustomRoute r) = normalizeAdvancedCustomRoute r"
  using normalize_models_idem [of "rt_models r"]
  by (auto simp: normalizeAdvancedCustomRoute_def getAdvancedCustomRouteUpstreamPath_def converter_of_def
      or_string_or Let_def split: option.splits) (simp_all add: normalizeAdvancedCustomRouteModels_def)

lemma routes_normalize [simp]:
  "nullish (advanced_routes (normalizeAdvancedCustomConfig c)) [] = map normalizeAdvancedCustomRoute (config_routes c)"
  by (simp add: normalizeAdvancedCustomConfig_def config_routes_def split: option.split)

lemma normalize_config_idem [simp]:
  "normalizeAdvancedCustomConfig (normalizeAdvancedCustomConfig c) = normalizeAdvancedCustomConfig c"
  by (simp add: normalizeAdvancedCustomConfig_def comp_def split: option.split)

lemma route_ok_normalize [simp]: "route_ok url (normalizeAdvancedCustomRoute r) = route_ok url r"
  by (simp add: route_ok_def)

lemma valid_routes_normalize [simp]:
  "valid_routes url (map normalizeAdvancedCustomRoute rs) = valid_routes url rs"
  by (simp add: valid_routes_def list.pred_map comp_def sorted_wrt_map coexist_def [abs_def])

lemma validate_eq:
  "validateAdvancedCustomConfig url (Some c) =
    (if config_routes c = []
     then Some \<lparr>ve_message = ''Advanced custom configuration requires at least one route'', ve_routeIndex = None\<rparr>
     else validate_routes url 0 (map normalizeAdvancedCustomRoute (config_routes c)) Map.empty)"
  by (simp add: validateAdvancedCustomConfig_def Let_def)

lemma valid_routes_take: "valid_routes url rs \<Longrightarrow> valid_routes url (take k rs)"
  using valid_routes_prefix [of url "take k rs" "drop k rs"] by simp

lemma validate_case:
  "case validateAdvancedCustomConfig url (Some c) of
     None \<Rightarrow> config_routes c \<noteq> [] \<and> valid_routes url (config_routes c)
   | Some e \<Rightarrow> (case ve_routeIndex e of
        None \<Rightarrow> config_routes c = []
      | Some k \<Rightarrow> k < length (config_routes c) \<and> valid_routes url (take k (config_routes c)) \<and>
          \<not> valid_routes url (take (Suc k) (config_routes c)))"
proof -
  have "valid_routes url []" by (simp add: valid_routes_def)
  from validate_routes_spec [OF agrees_empty this, of "map normalizeAdvancedCustomRoute (config_routes c)"]
  show ?thesis by (auto simp: validate_eq take_map split: option.splits)
qed

lemma validate_None_iff:
  "validateAdvancedCustomConfig url (Some c) = None \<longleftrightarrow> config_routes c \<noteq> [] \<and> valid_routes url (config_routes c)"
  using validate_case [where url = url and c = c] valid_routes_take [of url "config_routes c"] by (auto split: option.splits)

subsection \<open>Reading back\<close>

lemma read_text_some [simp]: "read_text None = Some None" "read_text (Some (JStr s)) = Some (Some s)"
  by (simp_all add: read_text_def)

lemma read_all_map: "(\<And>x. x \<in> set xs \<Longrightarrow> f (g x) = Some x) \<Longrightarrow> read_all f (map g xs) = Some xs"
  by (induction xs) auto

lemma read_models_enc: "read_models (Some (JArr (map JStr ms))) = Some (Some ms)"
  by (simp add: read_models_def read_all_map)

lemma read_auth_enc: "read_auth (Some (enc_auth a)) = Some (Some a)"
  by (cases a) (auto simp: read_auth_def enc_auth_def opt_field_def split: option.splits)

lemma read_route_enc: "read_route (enc_route r) = Some r"
proof -
  have none: "read_models None = Some None" "read_auth None = Some None"
    by (simp_all add: read_models_def read_auth_def)
  show ?thesis
    by (cases r) (auto simp: read_route_def enc_route_def opt_field_def none read_models_enc read_auth_enc
      split: option.splits)
qed

lemma read_custom_enc: "enc_custom c = JObj kvs \<Longrightarrow> read_custom kvs = Some c"
  by (cases c) (auto simp: read_custom_def enc_custom_def opt_field_def read_all_map read_route_enc
      split: option.splits)

lemma printable_custom: "printable (enc_custom c)"
proof -
  have a: "printable (enc_auth x)" for x by (auto simp: enc_auth_def opt_field_def split: option.splits)
  have "printable (enc_route r)" for r
    by (auto simp: enc_route_def opt_field_def a list_all_iff split: option.splits)
  then show ?thesis by (auto simp: enc_custom_def opt_field_def list_all_iff split: option.splits)
qed

lemma clone_id: "cloneAdvancedCustomConfig c = Some c"
  using read_custom_enc [of c] js_json.parse_stringify [OF printable_custom, of c]
  by (auto simp: cloneAdvancedCustomConfig_def enc_custom_def)

lemma parse_stringify_custom:
  "parseAdvancedCustomConfig (Some (stringifyAdvancedCustomConfig c)) = ParsedConfig (normalizeAdvancedCustomConfig c)"
proof -
  let ?n = "normalizeAdvancedCustomConfig c" let ?s = "JSON_stringify_2 (enc_custom ?n)"
  obtain kvs where kvs: "enc_custom ?n = JObj kvs" by (simp add: enc_custom_def)
  then obtain r where "?s = CHR ''{'' # r"
    by (cases kvs rule: s_members.cases) (auto simp: JSON_stringify_2_def)
  then have "trim ?s \<noteq> []"
    by (simp add: trim_by_eq_Nil_iff is_space_def is_space_unit_def)
  moreover have "JSON_parse ?s = Some (JObj kvs)"
    unfolding kvs [symmetric] by (rule js_json_2.parse_stringify) (rule printable_custom)
  ultimately show ?thesis
    using read_custom_enc [OF kvs] by (simp add: parseAdvancedCustomConfig_def stringifyAdvancedCustomConfig_def)
qed

section \<open>What the form offers\<close>

lemma relative_upstream: "startsWith v ''/'' \<Longrightarrow> \<not> startsWith v ''//'' \<Longrightarrow> isFullHttpURLOrAbsolutePath url v"
  by (simp add: isFullHttpURLOrAbsolutePath_def)

text \<open>The route that the form builds for a path with the defaults of a converter.\<close>

definition default_route :: "string \<Rightarrow> string \<Rightarrow> AdvancedCustomRoute" where
  "default_route converter path =
     (let d = getAdvancedCustomConverterDefaults converter path
      in \<lparr>rt_incoming_path = Some path, rt_upstream_path = Some (cd_upstream_path d),
          rt_converter = Some converter, rt_models = None, rt_auth = cd_auth d\<rparr>)"

lemma templates_ok:
  "list_all (\<lambda>option. config_routes (to_config option) \<noteq> [] \<and> valid_routes url (config_routes (to_config option)))
    ADVANCED_CUSTOM_TEMPLATE_OPTIONS"
  by code_simp

lemma default_auths_ok:
  "validateRouteAuth (cd_auth (getAdvancedCustomConverterDefaults converter path)) = None"
proof -
  have "validateRouteAuth (Some bearerHeaderAuth) = None" "validateRouteAuth (Some apiKeyHeaderAuth) = None"
    "validateRouteAuth (Some geminiQueryAuth) = None" by code_simp+
  then show ?thesis by (simp add: getAdvancedCustomConverterDefaults_def getAdvancedCustomNativeAuth_def Let_def)
qed

lemma default_upstream:
  assumes "trim path \<noteq> []"
  shows "cd_upstream_path (getAdvancedCustomConverterDefaults converter path) \<in>
    {trim path, openAIChatPath, openAIResponsesPath, claudeMessagesPath, geminiGenerateContentPath}"
  using assms by (auto simp: getAdvancedCustomConverterDefaults_def Let_def or_string_def)

lemma default_route_ok:
  assumes "startsWith (trim path) ''/''" "\<not> startsWith (trim path) ''//''" "\<not> contains (trim path) ''?''"
    "isAdvancedCustomConverter converter" "isConverterPathAllowed (trim path) converter"
  shows "route_ok url (default_route converter path)"
proof -
  have ne: "trim path \<noteq> []" using assms(1) by (auto simp: startsWith_def)
  let ?u = "cd_upstream_path (getAdvancedCustomConverterDefaults converter path)"
  have fixed: "u \<noteq> [] \<and> trim u = u \<and> isFullHttpURLOrAbsolutePath url u"
    if "u \<in> set [openAIChatPath, openAIResponsesPath, claudeMessagesPath, geminiGenerateContentPath]" for u
  proof -
    have "list_all (\<lambda>u. u \<noteq> [] \<and> trim u = u \<and> startsWith u ''/'' \<and> \<not> startsWith u ''//'')
        [openAIChatPath, openAIResponsesPath, claudeMessagesPath, geminiGenerateContentPath]" by code_simp
    then show ?thesis using that relative_upstream by (simp only: list_all_iff) blast
  qed
  have up: "?u \<noteq> [] \<and> trim ?u = ?u \<and> isFullHttpURLOrAbsolutePath url ?u"
    using default_upstream [OF ne, of converter] fixed relative_upstream [OF assms(1,2)] ne by fastforce
  have "converter \<noteq> []" using assms(4) by (auto simp: isAdvancedCustomConverter_def ADVANCED_CUSTOM_CONVERTER_OPTIONS_def)
  then have "converter_of (default_route converter path) = converter"
    by (simp add: default_route_def converter_of_def Let_def or_string_def)
  then show ?thesis
    using assms up default_auths_ok
    by (simp add: route_ok_def default_route_def incoming_of_def getAdvancedCustomRouteUpstreamPath_def rules_def
        normalizeAdvancedCustomRouteModels_def Let_def)
qed

lemma path_options_ok:
  "list_all (\<lambda>p. trim (po_value p) = po_value p \<and> startsWith (po_value p) ''/'' \<and> \<not> startsWith (po_value p) ''//'' \<and>
     \<not> contains (po_value p) ''?'') ADVANCED_CUSTOM_INCOMING_PATH_OPTIONS"
  by code_simp

section \<open>Properties\<close>

text \<open>
  C33: validation decides a declarative condition. A configuration is accepted exactly when it has a
  route, every route is well-formed on its own, and of two routes with the same incoming path the
  earlier one is no catch-all and shares no model rule with the later one. A reported route is the
  first one at which the condition breaks.\<close>

theorem validateAdvancedCustomConfig_iff:
  "(validateAdvancedCustomConfig url (Some c) = None) =
     (0 < length (config_routes c) \<and> valid_routes url (config_routes c)) \<and>
   (case validateAdvancedCustomConfig url (Some c) of
      None \<Rightarrow> True
    | Some e \<Rightarrow> (case ve_routeIndex e of
         None \<Rightarrow> config_routes c = []
       | Some k \<Rightarrow> k < length (config_routes c) \<and> valid_routes url (take k (config_routes c)) \<and>
           \<not> valid_routes url (take (Suc k) (config_routes c))))"
  by (intro conjI, simp add: validate_None_iff)
    (use validate_case [where url = url and c = c] in \<open>auto split: option.splits\<close>)

text \<open>
  C34: a configuration survives the editor. Its text parses to its normal form, normalising again
  changes nothing, the normal form is valid exactly when the configuration is and with the same
  error, and a copy through JSON is the same configuration.\<close>

theorem advanced_custom_round_trip:
  "parseAdvancedCustomConfig (Some (stringifyAdvancedCustomConfig c)) =
     ParsedConfig (normalizeAdvancedCustomConfig c) \<and>
   normalizeAdvancedCustomConfig (normalizeAdvancedCustomConfig c) = normalizeAdvancedCustomConfig c \<and>
   validateAdvancedCustomConfig url (Some (normalizeAdvancedCustomConfig c)) =
     validateAdvancedCustomConfig url (Some c) \<and>
   cloneAdvancedCustomConfig c = Some c"
  by (simp add: parse_stringify_custom clone_id validateAdvancedCustomConfig_def)

text \<open>
  Whatever the form offers is valid. Every template is, for every template key; so is the new
  configuration; and so is the route that the form fills in with the defaults of a registered
  converter for each path it offers with it. The converters offered for such a path include it.\<close>

theorem offered_configs_valid:
  assumes "isAdvancedCustomConverter converter"
  shows "(case getAdvancedCustomTemplateConfig key of None \<Rightarrow> False
      | Some c \<Rightarrow> validateAdvancedCustomConfig url (Some c) = None) \<and>
    validateAdvancedCustomConfig url (Some createAdvancedCustomConfig) = None \<and>
    list_all (\<lambda>p. validateAdvancedCustomConfig url
          (Some \<lparr>advanced_routes = Some [default_route converter (po_value p)]\<rparr>) = None \<and>
        converter \<in> co_value ` set (getAdvancedCustomConverterOptions (po_value p)))
      (getAdvancedCustomIncomingPathOptions converter)"
proof -
  have "(case find P ADVANCED_CUSTOM_TEMPLATE_OPTIONS of Some option \<Rightarrow> option
      | None \<Rightarrow> ADVANCED_CUSTOM_TEMPLATE_OPTIONS ! 0) \<in> set ADVANCED_CUSTOM_TEMPLATE_OPTIONS" for P
    by (auto simp: find_Some_iff split: option.split) (simp add: ADVANCED_CUSTOM_TEMPLATE_OPTIONS_def)
  then have "case getAdvancedCustomTemplateConfig key of None \<Rightarrow> False
      | Some c \<Rightarrow> validateAdvancedCustomConfig url (Some c) = None"
    using templates_ok [of url]
    by (simp add: getAdvancedCustomTemplateConfig_def Let_def clone_id validate_None_iff list_all_iff)
  moreover have "valid_routes url [createAdvancedCustomRoute]" by code_simp
  then have "validateAdvancedCustomConfig url (Some createAdvancedCustomConfig) = None"
    by (simp add: validate_None_iff config_routes_def createAdvancedCustomConfig_def)
  moreover have "validateAdvancedCustomConfig url
        (Some \<lparr>advanced_routes = Some [default_route converter (po_value p)]\<rparr>) = None \<and>
      converter \<in> co_value ` set (getAdvancedCustomConverterOptions (po_value p))"
    if "p \<in> set (getAdvancedCustomIncomingPathOptions converter)" for p
  proof -
    have p: "p \<in> set ADVANCED_CUSTOM_INCOMING_PATH_OPTIONS" "isConverterPathAllowed (po_value p) converter"
      using that by (auto simp: getAdvancedCustomIncomingPathOptions_def)
    then have "route_ok url (default_route converter (po_value p))"
      using path_options_ok assms by (intro default_route_ok) (auto simp: list_all_iff)
    moreover have "trim (po_value p) = po_value p" using p path_options_ok by (simp add: list_all_iff)
    ultimately show ?thesis
      using assms p(2) by (auto simp: validate_None_iff config_routes_def valid_routes_def
          getAdvancedCustomConverterOptions_def isAdvancedCustomConverter_def list_ex_iff image_iff)
  qed
  ultimately show ?thesis by (auto simp: list_all_iff)
qed

theorem offered_configs_valid_witness:
  "validateAdvancedCustomConfig (\<lambda>_. None)
     (Some \<lparr>advanced_routes = Some [default_route ''none'' ''/v1/chat/completions'']\<rparr>) = None"
proof -
  have "isAdvancedCustomConverter ''none''" by code_simp
  from offered_configs_valid [OF this, where url = "\<lambda>_. None"]
  have "\<forall>p\<in>set (getAdvancedCustomIncomingPathOptions ''none''). validateAdvancedCustomConfig (\<lambda>_. None)
      (Some \<lparr>advanced_routes = Some [default_route ''none'' (po_value p)]\<rparr>) = None"
    by (simp add: list_all_iff)
  moreover have "\<lparr>po_value = ''/v1/chat/completions'', po_label = ''OpenAI Chat''\<rparr> \<in>
      set (getAdvancedCustomIncomingPathOptions ''none'')"
    by (simp add: getAdvancedCustomIncomingPathOptions_def ADVANCED_CUSTOM_INCOMING_PATH_OPTIONS_def
        isConverterPathAllowed_def)
  ultimately show ?thesis by fastforce
qed

end
