(* ===== verification/Custom_Editor.thy ===== *)
theory Custom_Editor
  imports Advanced_Custom Grouping "HOL-Library.Multiset"
begin

text \<open>
  The editor of the routes of an advanced custom channel
  (\<open>features/channels/components/dialogs/advanced-custom-editor-dialog.tsx\<close>): its React state as a
  record, one definition per handler, and the handlers a user can trigger as a step relation. A
  handler runs on the state of the last render. \<open>t\<close> translates messages and \<open>url\<close> is the URL
  parser; \<open>onSave\<close> and \<open>toast.error\<close> append to lists. The handlers that parse the JSON text return
  \<open>None\<close> on a text whose fields lack their declared types.
\<close>

section \<open>State\<close>

datatype AdvancedCustomEditMode = Visual | JsonText

record AdvancedCustomRouteRow =
  row_route :: AdvancedCustomRoute
  row_routeKey :: string
  row_index :: nat

record AdvancedCustomRouteGroup =
  gr_incomingPath :: string
  gr_routeRows :: "AdvancedCustomRouteRow list"

record EditorState =
  ed_config :: AdvancedCustomConfig
  ed_routeKeys :: "string list"
  ed_editMode :: AdvancedCustomEditMode
  ed_jsonText :: string
  ed_jsonError :: string
  ed_templateKey :: string
  ed_routeKeyCounter :: nat
  ed_open :: bool
  ed_saved :: "string list"
  ed_toasts :: "string list"

definition catchAllOrderErrorMessage :: string where
  "catchAllOrderErrorMessage = ''Catch-all route must be last for the same incoming path''"

definition isCatchAllRoute :: "AdvancedCustomRoute \<Rightarrow> bool" where
  "isCatchAllRoute route = (case rt_models route of None \<Rightarrow> True | Some models \<Rightarrow> length models = 0)"

text \<open>\<open>getRouteIncomingPath\<close> is \<open>incoming_of\<close>. A group is created at its first row.\<close>

definition add_row :: "AdvancedCustomRouteGroup list \<Rightarrow> AdvancedCustomRouteRow \<Rightarrow> AdvancedCustomRouteGroup list" where
  "add_row groups routeRow =
     (let incomingPath = incoming_of (row_route routeRow);
          groups' = (if list_ex (\<lambda>g. gr_incomingPath g = incomingPath) groups then groups
                     else groups @ [\<lparr>gr_incomingPath = incomingPath, gr_routeRows = []\<rparr>])
      in map (\<lambda>g. if gr_incomingPath g = incomingPath
           then g\<lparr>gr_routeRows := gr_routeRows g @ [routeRow]\<rparr> else g) groups')"

definition buildRouteGroups :: "AdvancedCustomRouteRow list \<Rightarrow> AdvancedCustomRouteGroup list" where
  "buildRouteGroups routeRows = foldl add_row [] routeRows"

definition initial_key :: "nat \<Rightarrow> string" where
  "initial_key i = ''advanced-custom-route-initial-'' @ nat_digits i"

definition createRouteKey :: "nat \<Rightarrow> string" where
  "createRouteKey n = ''advanced-custom-route-'' @ nat_digits n"

text \<open>The parsed configuration, or a new one where there is none.\<close>

definition initial_config :: "string option \<Rightarrow> AdvancedCustomConfig option" where
  "initial_config value =
     (case parseAdvancedCustomConfig value of
        ParsedConfig c \<Rightarrow> Some c | NoConfig \<Rightarrow> Some createAdvancedCustomConfig | IllTyped \<Rightarrow> None)"

definition open_editor :: "string option \<Rightarrow> EditorState option" where
  "open_editor value =
     map_option (\<lambda>config.
       \<lparr>ed_config = config,
        ed_routeKeys = map initial_key
          [0..<length (nullish (advanced_routes (normalizeAdvancedCustomConfig config)) [])],
        ed_editMode = Visual, ed_jsonText = stringifyAdvancedCustomConfig config, ed_jsonError = [],
        ed_templateKey = to_value (ADVANCED_CUSTOM_TEMPLATE_OPTIONS ! 0), ed_routeKeyCounter = 0,
        ed_open = True, ed_saved = [], ed_toasts = []\<rparr>) (initial_config value)"

section \<open>What a render computes\<close>

definition normalizedConfig :: "EditorState \<Rightarrow> AdvancedCustomConfig" where
  "normalizedConfig s = normalizeAdvancedCustomConfig (ed_config s)"

definition ed_routes :: "EditorState \<Rightarrow> AdvancedCustomRoute list" where
  "ed_routes s = nullish (advanced_routes (normalizedConfig s)) []"

definition row_key :: "string list \<Rightarrow> nat \<Rightarrow> AdvancedCustomRoute \<Rightarrow> string" where
  "row_key routeKeys index route =
     or_string (if index < length routeKeys then routeKeys ! index else [])
      (or_string (nullish (rt_incoming_path route) [])
       (or_string (nullish (rt_upstream_path route) [])
        (or_string (nullish (rt_converter route) []) ''advanced-custom-route'')))"

definition ed_routeRows :: "EditorState \<Rightarrow> AdvancedCustomRouteRow list" where
  "ed_routeRows s =
     map (\<lambda>(index, route). \<lparr>row_route = route, row_routeKey = row_key (ed_routeKeys s) index route, row_index = index\<rparr>)
       (enumerate 0 (ed_routes s))"

definition validationError :: "url_parser \<Rightarrow> EditorState \<Rightarrow> AdvancedCustomValidationError option" where
  "validationError url s = validateAdvancedCustomConfig url (Some (normalizedConfig s))"

definition canFixCatchAllOrder :: "url_parser \<Rightarrow> EditorState \<Rightarrow> bool" where
  "canFixCatchAllOrder url s \<longleftrightarrow> map_option ve_message (validationError url s) = Some catchAllOrderErrorMessage"

section \<open>Handlers of the visual mode\<close>

definition set_routes :: "AdvancedCustomRoute list \<Rightarrow> EditorState \<Rightarrow> EditorState" where
  "set_routes routes s = s\<lparr>ed_config := (normalizedConfig s)\<lparr>advanced_routes := Some routes\<rparr>\<rparr>"

text \<open>A patch is the record update that the spread of a partial route performs.\<close>

definition updateRoute :: "nat \<Rightarrow> (AdvancedCustomRoute \<Rightarrow> AdvancedCustomRoute) \<Rightarrow> EditorState \<Rightarrow> EditorState" where
  "updateRoute index patch s =
     (let nextRoutes = ed_routes s in set_routes (nextRoutes[index := patch (nextRoutes ! index)]) s)"

definition replaceRoutes :: "AdvancedCustomRoute list \<Rightarrow> string list \<Rightarrow> EditorState \<Rightarrow> EditorState" where
  "replaceRoutes nextRoutes nextRouteKeys s = (set_routes nextRoutes s)\<lparr>ed_routeKeys := nextRouteKeys\<rparr>"

definition push_key :: "EditorState \<Rightarrow> EditorState" where
  "push_key s = s\<lparr>ed_routeKeyCounter := ed_routeKeyCounter s + 1,
     ed_routeKeys := ed_routeKeys s @ [createRouteKey (ed_routeKeyCounter s + 1)]\<rparr>"

definition addRoute :: "EditorState \<Rightarrow> EditorState" where
  "addRoute s = push_key (set_routes (ed_routes s @ [createAdvancedCustomRoute]) s)"

definition addRouteForIncomingPath :: "string \<Rightarrow> EditorState \<Rightarrow> EditorState" where
  "addRouteForIncomingPath incomingPath s =
     (let resolvedIncomingPath = or_string incomingPath ''/v1/chat/completions''
      in push_key (set_routes (ed_routes s @ [createAdvancedCustomRoute
           \<lparr>rt_incoming_path := Some resolvedIncomingPath, rt_upstream_path := Some resolvedIncomingPath\<rparr>]) s))"

definition remove_at :: "nat \<Rightarrow> 'a list \<Rightarrow> 'a list" where
  "remove_at i xs = take i xs @ drop (Suc i) xs"

definition insert_at :: "nat \<Rightarrow> 'a \<Rightarrow> 'a list \<Rightarrow> 'a list" where
  "insert_at i x xs = take i xs @ x # drop i xs"

definition removeRoute :: "nat \<Rightarrow> EditorState \<Rightarrow> EditorState" where
  "removeRoute index s =
     (set_routes (remove_at index (ed_routes s)) s)\<lparr>ed_routeKeys := remove_at index (ed_routeKeys s)\<rparr>"

definition updateGroupIncomingPath ::
  "AdvancedCustomRouteGroup \<Rightarrow> string option \<Rightarrow> EditorState \<Rightarrow> EditorState" where
  "updateGroupIncomingPath grp nextIncomingPath s =
     (let resolvedIncomingPath = or_string (nullish nextIncomingPath []) ''/v1/chat/completions'';
          groupRouteIndexes = map row_index (gr_routeRows grp);
          nextRoutes = map (\<lambda>(routeIndex, route).
            if routeIndex \<notin> set groupRouteIndexes then route
            else route\<lparr>rt_incoming_path := Some resolvedIncomingPath,
                       rt_converter := Some (if isAdvancedCustomIncomingPathAllowed resolvedIncomingPath (converter_of route)
                                             then converter_of route else ''none'')\<rparr>) (enumerate 0 (ed_routes s))
      in replaceRoutes nextRoutes (map row_routeKey (ed_routeRows s)) s)"

definition swap :: "nat \<Rightarrow> nat \<Rightarrow> 'a list \<Rightarrow> 'a list" where
  "swap i j xs = xs[i := xs ! j, j := xs ! i]"

definition swapRoutes :: "nat \<Rightarrow> nat \<Rightarrow> EditorState \<Rightarrow> EditorState" where
  "swapRoutes fromIndex toIndex s =
     (if fromIndex = toIndex then s
      else replaceRoutes (swap fromIndex toIndex (ed_routes s))
             (swap fromIndex toIndex (map row_routeKey (ed_routeRows s))) s)"

text \<open>\<open>xs.at(i)\<close>: a negative index counts from the end.\<close>

definition array_at :: "'a list \<Rightarrow> int \<Rightarrow> 'a option" where
  "array_at xs i = (let k = (if i < 0 then i + int (length xs) else i)
     in if 0 \<le> k \<and> k < int (length xs) then Some (xs ! nat k) else None)"

definition samePathIndexes :: "AdvancedCustomRoute list \<Rightarrow> string \<Rightarrow> nat list" where
  "samePathIndexes routes incomingPath =
     map fst (filter (\<lambda>(_, route). incoming_of route = incomingPath) (enumerate 0 routes))"

definition moveRouteWithinGroup :: "nat \<Rightarrow> int \<Rightarrow> EditorState \<Rightarrow> EditorState" where
  "moveRouteWithinGroup index direction s =
     (let routes = ed_routes s;
          indexes = samePathIndexes routes (incoming_of (routes ! index));
          position = (case findIndex (\<lambda>i. i = index) indexes of None \<Rightarrow> -1 | Some p \<Rightarrow> int p)
      in case array_at indexes (position + direction) of
           None \<Rightarrow> s
         | Some nextIndex \<Rightarrow> swapRoutes index nextIndex s)"

text \<open>The downward loop stops at the last route of the path.\<close>

fun last_same_path :: "AdvancedCustomRoute list \<Rightarrow> string \<Rightarrow> nat \<Rightarrow> nat option" where
  "last_same_path routes incomingPath 0 = None"
| "last_same_path routes incomingPath (Suc routeIndex) =
     (if incoming_of (routes ! routeIndex) = incomingPath then Some routeIndex
      else last_same_path routes incomingPath routeIndex)"

definition moveRouteToGroupEnd :: "nat \<Rightarrow> EditorState \<Rightarrow> EditorState" where
  "moveRouteToGroupEnd index s =
     (let routes = ed_routes s; nextRouteKeys = map row_routeKey (ed_routeRows s)
      in case last_same_path routes (incoming_of (routes ! index)) (length routes) of
           None \<Rightarrow> s
         | Some lastSamePathIndex \<Rightarrow>
             if index = lastSamePathIndex then s
             else replaceRoutes (insert_at lastSamePathIndex (routes ! index) (remove_at index routes))
                    (insert_at lastSamePathIndex (nextRouteKeys ! index) (remove_at index nextRouteKeys)) s)"

definition row_path :: "AdvancedCustomRouteRow \<Rightarrow> string" where
  "row_path r = incoming_of (row_route r)"

text \<open>\<open>routeRowsByPath\<close> and \<open>orderedRowsByPath\<close>; a path that the map lacks has no rows.\<close>

definition rows_by_path :: "AdvancedCustomRouteRow list \<Rightarrow> string \<Rightarrow> AdvancedCustomRouteRow list" where
  "rows_by_path rows = foldl (\<lambda>m row. m(row_path row := m (row_path row) @ [row])) (\<lambda>_. []) rows"

definition catch_all_last :: "AdvancedCustomRouteRow list \<Rightarrow> AdvancedCustomRouteRow list" where
  "catch_all_last rows =
     filter (\<lambda>r. \<not> isCatchAllRoute (row_route r)) rows @ filter (\<lambda>r. isCatchAllRoute (row_route r)) rows"

text \<open>Every row takes the next row of its path: \<open>orderedRows.shift()\<close>.\<close>

fun shift_rows ::
  "(string \<Rightarrow> AdvancedCustomRouteRow list) \<Rightarrow> AdvancedCustomRouteRow list \<Rightarrow> AdvancedCustomRouteRow list" where
  "shift_rows ordered [] = []"
| "shift_rows ordered (row # rows) =
     (case ordered (row_path row) of
        [] \<Rightarrow> row # shift_rows ordered rows
      | r # rs \<Rightarrow> r # shift_rows (ordered(row_path row := rs)) rows)"

definition fixed_rows :: "AdvancedCustomRouteRow list \<Rightarrow> AdvancedCustomRouteRow list" where
  "fixed_rows rows = shift_rows (\<lambda>p. catch_all_last (rows_by_path rows p)) rows"

definition fixCatchAllOrder :: "EditorState \<Rightarrow> EditorState" where
  "fixCatchAllOrder s =
     (let nextRows = fixed_rows (ed_routeRows s)
      in replaceRoutes (map row_route nextRows) (map row_routeKey nextRows) s)"

section \<open>Handlers of a route\<close>

definition setConverter :: "string \<Rightarrow> AdvancedCustomRoute \<Rightarrow> AdvancedCustomRoute" where
  "setConverter nextConverter route =
     (let incomingPath = or_string (nullish (rt_incoming_path route) [])
            (getDefaultAdvancedCustomIncomingPath (converter_of route));
          nextIncomingPath = (if \<not> isAdvancedCustomIncomingPathAllowed incomingPath nextConverter
            then getDefaultAdvancedCustomIncomingPath nextConverter else incomingPath);
          defaults = getAdvancedCustomConverterDefaults nextConverter nextIncomingPath
      in route\<lparr>rt_converter := Some nextConverter, rt_incoming_path := Some nextIncomingPath,
               rt_upstream_path := Some (cd_upstream_path defaults), rt_auth := cd_auth defaults\<rparr>)"

definition setAuthMode :: "string \<Rightarrow> AdvancedCustomRoute \<Rightarrow> AdvancedCustomRoute" where
  "setAuthMode mode route = route\<lparr>rt_auth := buildAdvancedCustomAuth mode (rt_auth route)\<rparr>"

definition setModelsInput :: "string \<Rightarrow> AdvancedCustomRoute \<Rightarrow> AdvancedCustomRoute" where
  "setModelsInput value route =
     route\<lparr>rt_models := Some (if value = [] then [] else split_on CHR '','' value)\<rparr>"

definition normalizeModelsInput :: "string \<Rightarrow> AdvancedCustomRoute \<Rightarrow> AdvancedCustomRoute" where
  "normalizeModelsInput value route = route\<lparr>rt_models := Some (parseAdvancedCustomRouteModels value)\<rparr>"

section \<open>Handlers of the text mode, templates and saving\<close>

text \<open>The new state and the parsed configuration, if there is a valid one.\<close>

definition parseJsonEditorConfig ::
  "(string \<Rightarrow> string) \<Rightarrow> url_parser \<Rightarrow> EditorState \<Rightarrow> (EditorState \<times> AdvancedCustomConfig option) option" where
  "parseJsonEditorConfig t url s =
     (case parseAdvancedCustomConfig (Some (ed_jsonText s)) of
        IllTyped \<Rightarrow> None
      | NoConfig \<Rightarrow> Some (s\<lparr>ed_jsonError := t ''Invalid JSON''\<rparr>, None)
      | ParsedConfig parsed \<Rightarrow>
          (case validateAdvancedCustomConfig url (Some parsed) of
             Some e \<Rightarrow> Some (s\<lparr>ed_jsonError := t (ve_message e)\<rparr>, None)
           | None \<Rightarrow> Some (s\<lparr>ed_jsonError := []\<rparr>, Some parsed)))"

definition set_normalized :: "AdvancedCustomConfig \<Rightarrow> EditorState \<Rightarrow> EditorState" where
  "set_normalized normalized s =
     (let count = length (nullish (advanced_routes normalized) []); n = ed_routeKeyCounter s
      in s\<lparr>ed_config := normalized, ed_routeKeyCounter := n + count,
           ed_routeKeys := map createRouteKey [Suc n..<Suc (n + count)]\<rparr>)"

definition switchToVisualMode :: "(string \<Rightarrow> string) \<Rightarrow> url_parser \<Rightarrow> EditorState \<Rightarrow> EditorState option" where
  "switchToVisualMode t url s =
     map_option (\<lambda>(s', parsed). case parsed of
         None \<Rightarrow> s'
       | Some c \<Rightarrow> (set_normalized (normalizeAdvancedCustomConfig c) s')\<lparr>ed_editMode := Visual\<rparr>)
       (parseJsonEditorConfig t url s)"

definition switchToJsonMode :: "EditorState \<Rightarrow> EditorState" where
  "switchToJsonMode s =
     s\<lparr>ed_jsonText := stringifyAdvancedCustomConfig (normalizedConfig s), ed_jsonError := [], ed_editMode := JsonText\<rparr>"

definition handleJsonChange :: "string \<Rightarrow> EditorState \<Rightarrow> EditorState" where
  "handleJsonChange nextValue s =
     s\<lparr>ed_jsonText := nextValue, ed_jsonError := (if ed_jsonError s \<noteq> [] then [] else ed_jsonError s)\<rparr>"

definition formatJson :: "(string \<Rightarrow> string) \<Rightarrow> url_parser \<Rightarrow> EditorState \<Rightarrow> EditorState option" where
  "formatJson t url s =
     map_option (\<lambda>(s', parsed). case parsed of
         None \<Rightarrow> s' | Some c \<Rightarrow> s'\<lparr>ed_jsonText := stringifyAdvancedCustomConfig c\<rparr>)
       (parseJsonEditorConfig t url s)"

definition finish_template :: "AdvancedCustomConfig \<Rightarrow> EditorState \<Rightarrow> EditorState" where
  "finish_template nextConfig s =
     (let normalized = normalizeAdvancedCustomConfig nextConfig
      in (set_normalized normalized s)\<lparr>ed_jsonText := stringifyAdvancedCustomConfig normalized, ed_jsonError := []\<rparr>)"

definition applyTemplate ::
  "(string \<Rightarrow> string) \<Rightarrow> url_parser \<Rightarrow> bool \<Rightarrow> EditorState \<Rightarrow> EditorState option" where
  "applyTemplate t url appending s =
     Option.bind (getAdvancedCustomTemplateConfig (ed_templateKey s)) (\<lambda>templateConfig.
       if \<not> appending then Some (finish_template templateConfig s)
       else map_option (\<lambda>(s', baseConfig). case baseConfig of
           None \<Rightarrow> s'
         | Some b \<Rightarrow> finish_template \<lparr>advanced_routes = Some
               (nullish (advanced_routes (normalizeAdvancedCustomConfig b)) [] @
                nullish (advanced_routes (normalizeAdvancedCustomConfig templateConfig)) [])\<rparr> s')
         (if ed_editMode s = JsonText then parseJsonEditorConfig t url s else Some (s, Some (normalizedConfig s))))"

definition save_text :: "AdvancedCustomConfig \<Rightarrow> EditorState \<Rightarrow> EditorState" where
  "save_text c s = s\<lparr>ed_saved := ed_saved s @ [stringifyAdvancedCustomConfig c], ed_open := False\<rparr>"

definition saveEditor :: "(string \<Rightarrow> string) \<Rightarrow> url_parser \<Rightarrow> EditorState \<Rightarrow> EditorState option" where
  "saveEditor t url s =
     (if ed_editMode s = JsonText
      then map_option (\<lambda>(s', parsed). case parsed of
          None \<Rightarrow> s'\<lparr>ed_toasts := ed_toasts s' @ [t ''Please fix JSON errors before saving'']\<rparr>
        | Some c \<Rightarrow> save_text c s') (parseJsonEditorConfig t url s)
      else case validationError url s of
             Some e \<Rightarrow> Some (s\<lparr>ed_toasts := ed_toasts s @ [t (ve_message e)]\<rparr>)
           | None \<Rightarrow> Some (save_text (normalizedConfig s) s))"

section \<open>Steps\<close>

text \<open>
  What the user can do while the dialog is open. The controls of a route are shown in visual mode;
  a route moves up or down only where its group has a route above or below.
\<close>

definition group_position :: "EditorState \<Rightarrow> nat \<Rightarrow> nat option" where
  "group_position s i =
     findIndex (\<lambda>j. j = i) (samePathIndexes (ed_routes s) (incoming_of (ed_routes s ! i)))"

inductive editor_step ::
  "(string \<Rightarrow> string) \<Rightarrow> url_parser \<Rightarrow> EditorState \<Rightarrow> EditorState \<Rightarrow> bool" for t url where
  edit_route: "ed_open s \<Longrightarrow> ed_editMode s = Visual \<Longrightarrow> i < length (ed_routes s) \<Longrightarrow>
    editor_step t url s (updateRoute i patch s)"
| add_route: "ed_open s \<Longrightarrow> ed_editMode s = Visual \<Longrightarrow> editor_step t url s (addRoute s)"
| add_split: "ed_open s \<Longrightarrow> ed_editMode s = Visual \<Longrightarrow> g \<in> set (buildRouteGroups (ed_routeRows s)) \<Longrightarrow>
    editor_step t url s (addRouteForIncomingPath (gr_incomingPath g) s)"
| remove_route: "ed_open s \<Longrightarrow> ed_editMode s = Visual \<Longrightarrow> i < length (ed_routes s) \<Longrightarrow>
    editor_step t url s (removeRoute i s)"
| change_path: "ed_open s \<Longrightarrow> ed_editMode s = Visual \<Longrightarrow> g \<in> set (buildRouteGroups (ed_routeRows s)) \<Longrightarrow>
    editor_step t url s (updateGroupIncomingPath g p s)"
| move_up: "ed_open s \<Longrightarrow> ed_editMode s = Visual \<Longrightarrow> i < length (ed_routes s) \<Longrightarrow>
    group_position s i = Some p \<Longrightarrow> 0 < p \<Longrightarrow> editor_step t url s (moveRouteWithinGroup i (-1) s)"
| move_down: "ed_open s \<Longrightarrow> ed_editMode s = Visual \<Longrightarrow> i < length (ed_routes s) \<Longrightarrow>
    group_position s i = Some p \<Longrightarrow>
    Suc p < length (samePathIndexes (ed_routes s) (incoming_of (ed_routes s ! i))) \<Longrightarrow>
    editor_step t url s (moveRouteWithinGroup i 1 s)"
| move_to_end: "ed_open s \<Longrightarrow> ed_editMode s = Visual \<Longrightarrow> i < length (ed_routes s) \<Longrightarrow>
    editor_step t url s (moveRouteToGroupEnd i s)"
| fix_order: "ed_open s \<Longrightarrow> ed_editMode s = Visual \<Longrightarrow> canFixCatchAllOrder url s \<Longrightarrow>
    editor_step t url s (fixCatchAllOrder s)"
| to_visual: "ed_open s \<Longrightarrow> switchToVisualMode t url s = Some s' \<Longrightarrow> editor_step t url s s'"
| to_json: "ed_open s \<Longrightarrow> editor_step t url s (switchToJsonMode s)"
| type_json: "ed_open s \<Longrightarrow> ed_editMode s = JsonText \<Longrightarrow> editor_step t url s (handleJsonChange text s)"
| format_json: "ed_open s \<Longrightarrow> ed_editMode s = JsonText \<Longrightarrow> formatJson t url s = Some s' \<Longrightarrow> editor_step t url s s'"
| pick_template: "ed_open s \<Longrightarrow> editor_step t url s (s\<lparr>ed_templateKey := key\<rparr>)"
| apply_template: "ed_open s \<Longrightarrow> applyTemplate t url appending s = Some s' \<Longrightarrow> editor_step t url s s'"
| save: "ed_open s \<Longrightarrow> saveEditor t url s = Some s' \<Longrightarrow> editor_step t url s s'"
| cancel: "ed_open s \<Longrightarrow> editor_step t url s (s\<lparr>ed_open := False\<rparr>)"

inductive editor_reachable ::
  "(string \<Rightarrow> string) \<Rightarrow> url_parser \<Rightarrow> string option \<Rightarrow> EditorState \<Rightarrow> bool" for t url v where
  opened: "open_editor v = Some s \<Longrightarrow> editor_reachable t url v s"
| stepped: "editor_reachable t url v s \<Longrightarrow> editor_step t url s s' \<Longrightarrow> editor_reachable t url v s'"

section \<open>Keys\<close>

lemma key_inj [simp]: "createRouteKey m = createRouteKey n \<longleftrightarrow> m = n" "initial_key m = initial_key n \<longleftrightarrow> m = n"
  by (auto simp: createRouteKey_def initial_key_def dest: arg_cong [of _ _ digits_val])

lemma key_disjoint [simp]: "createRouteKey m \<noteq> initial_key n"
proof -
  have "hd (nat_digits m) \<noteq> CHR ''i''" using nat_digits_digits [of "hd (nat_digits m)" m] by (auto simp: is_digit_def)
  then show ?thesis by (cases "nat_digits m") (simp_all add: createRouteKey_def initial_key_def)
qed

lemma key_not_Nil [simp]: "createRouteKey m \<noteq> []" "initial_key m \<noteq> []"
  by (simp_all add: createRouteKey_def initial_key_def)

text \<open>The keys of the routes: one each, distinct, and older than the counter.\<close>

definition old_keys :: "nat \<Rightarrow> string set" where
  "old_keys n = range initial_key \<union> createRouteKey ` {..n}"

definition keys_ok :: "EditorState \<Rightarrow> bool" where
  "keys_ok s \<longleftrightarrow> length (ed_routeKeys s) = length (ed_routes s) \<and> distinct (ed_routeKeys s) \<and>
     set (ed_routeKeys s) \<subseteq> old_keys (ed_routeKeyCounter s)"

lemma old_keys_mono: "m \<le> n \<Longrightarrow> old_keys m \<subseteq> old_keys n"
  by (auto simp: old_keys_def)

lemma new_key_fresh: "n < m \<Longrightarrow> createRouteKey m \<notin> old_keys n"
  by (auto simp: old_keys_def)

lemma routes_set_routes [simp]: "ed_routes (set_routes rs s) = map normalizeAdvancedCustomRoute rs"
  by (simp add: ed_routes_def normalizedConfig_def set_routes_def config_routes_def)

lemma set_routes_fields [simp]:
  "ed_routeKeys (set_routes rs s) = ed_routeKeys s" "ed_routeKeyCounter (set_routes rs s) = ed_routeKeyCounter s"
  "ed_saved (set_routes rs s) = ed_saved s" "ed_open (set_routes rs s) = ed_open s"
  "ed_jsonText (set_routes rs s) = ed_jsonText s"
  by (simp_all add: set_routes_def)

lemma ed_routes_update [simp]:
  "ed_routes (s\<lparr>ed_routeKeys := k\<rparr>) = ed_routes s" "ed_routes (s\<lparr>ed_routeKeyCounter := n\<rparr>) = ed_routes s"
  "ed_routes (s\<lparr>ed_editMode := m\<rparr>) = ed_routes s" "ed_routes (s\<lparr>ed_jsonText := x\<rparr>) = ed_routes s"
  "ed_routes (s\<lparr>ed_jsonError := x\<rparr>) = ed_routes s" "ed_routes (s\<lparr>ed_templateKey := x\<rparr>) = ed_routes s"
  "ed_routes (s\<lparr>ed_open := b\<rparr>) = ed_routes s" "ed_routes (s\<lparr>ed_saved := l\<rparr>) = ed_routes s"
  "ed_routes (s\<lparr>ed_toasts := l\<rparr>) = ed_routes s"
  by (simp_all add: ed_routes_def normalizedConfig_def)

lemma keys_ok_update [simp]:
  "keys_ok (s\<lparr>ed_editMode := m\<rparr>) = keys_ok s" "keys_ok (s\<lparr>ed_jsonText := x\<rparr>) = keys_ok s"
  "keys_ok (s\<lparr>ed_jsonError := x\<rparr>) = keys_ok s" "keys_ok (s\<lparr>ed_templateKey := x\<rparr>) = keys_ok s"
  "keys_ok (s\<lparr>ed_open := b\<rparr>) = keys_ok s" "keys_ok (s\<lparr>ed_saved := l\<rparr>) = keys_ok s"
  "keys_ok (s\<lparr>ed_toasts := l\<rparr>) = keys_ok s"
  by (simp_all add: keys_ok_def)

lemma rows_keys:
  assumes "keys_ok s"
  shows "map row_routeKey (ed_routeRows s) = ed_routeKeys s"
proof (rule nth_equalityI)
  show "length (map row_routeKey (ed_routeRows s)) = length (ed_routeKeys s)"
    using assms by (simp add: ed_routeRows_def keys_ok_def)
next
  fix i assume "i < length (map row_routeKey (ed_routeRows s))"
  then have i: "i < length (ed_routeKeys s)" using assms by (simp add: ed_routeRows_def keys_ok_def)
  then have "ed_routeKeys s ! i \<in> old_keys (ed_routeKeyCounter s)" using assms nth_mem [OF i] by (auto simp: keys_ok_def)
  then have "ed_routeKeys s ! i \<noteq> []" by (auto simp: old_keys_def)
  then show "map row_routeKey (ed_routeRows s) ! i = ed_routeKeys s ! i"
    using i assms by (simp add: ed_routeRows_def keys_ok_def nth_enumerate_eq row_key_def or_string_def)
qed

lemma rows_routes [simp]: "map row_route (ed_routeRows s) = ed_routes s" "length (ed_routeRows s) = length (ed_routes s)"
  by (simp_all add: ed_routeRows_def comp_def case_prod_beta)

text \<open>Rearranging rows keeps the keys as they are.\<close>

lemma keys_ok_replace:
  assumes "keys_ok s" "mset ks = mset (ed_routeKeys s)" "length rs = length ks"
  shows "keys_ok (replaceRoutes rs ks s)"
  using assms mset_eq_setD [OF assms(2)] mset_eq_imp_distinct_iff [OF assms(2)]
  by (simp add: keys_ok_def replaceRoutes_def)

lemma keys_ok_push: "keys_ok s \<Longrightarrow> length rs = length (ed_routes s) + 1 \<Longrightarrow> keys_ok (push_key (set_routes rs s))"
  using new_key_fresh [of "ed_routeKeyCounter s" "ed_routeKeyCounter s + 1"]
    old_keys_mono [of "ed_routeKeyCounter s" "ed_routeKeyCounter s + 1"]
  by (auto simp: keys_ok_def push_key_def) (auto simp: old_keys_def)

lemma keys_ok_normalized: "keys_ok (set_normalized (normalizeAdvancedCustomConfig c) s)"
  by (auto simp: keys_ok_def set_normalized_def Let_def ed_routes_def normalizedConfig_def distinct_map inj_on_def
      old_keys_def simp del: upt_Suc)

lemma mset_remove_insert:
  assumes "i < length xs" "j < length xs"
  shows "mset (insert_at j (xs ! i) (remove_at i xs)) = mset xs"
proof -
  have "mset (insert_at j x ys) = add_mset x (mset ys)" for x and ys :: "'a list"
    by (metis append_take_drop_id insert_at_def mset.simps(2) mset_append union_mset_add_mset_right)
  moreover have "add_mset (xs ! i) (mset (remove_at i xs)) = mset xs"
    by (metis assms(1) id_take_nth_drop mset.simps(2) mset_append remove_at_def union_mset_add_mset_right)
  ultimately show ?thesis by metis
qed

lemma mset_swap_eq: "i < length xs \<Longrightarrow> j < length xs \<Longrightarrow> mset (swap i j xs) = mset xs"
  by (simp add: swap_def mset_swap)

lemma length_rearranged [simp]:
  "length (swap i j xs) = length xs" "i < length xs \<Longrightarrow> length (remove_at i xs) = length xs - 1"
  "length (insert_at i x xs) = Suc (length xs)"
  by (simp_all add: swap_def remove_at_def insert_at_def)

lemma last_same_path_less: "last_same_path rs p n = Some i \<Longrightarrow> i < n \<and> incoming_of (rs ! i) = p"
  by (induction rs p n rule: last_same_path.induct) (auto split: if_splits)

lemma samePathIndexes_less: "i \<in> set (samePathIndexes rs p) \<Longrightarrow> i < length rs"
  by (auto simp: samePathIndexes_def in_set_enumerate_eq)

lemma array_at_mem: "array_at xs i = Some x \<Longrightarrow> x \<in> set xs"
  by (auto simp: array_at_def Let_def split: if_splits)

subsection \<open>Groups\<close>

definition new_group :: "AdvancedCustomRouteRow \<Rightarrow> AdvancedCustomRouteGroup" where
  "new_group row = \<lparr>gr_incomingPath = row_path row, gr_routeRows = []\<rparr>"

definition add_to_group :: "AdvancedCustomRouteGroup \<Rightarrow> AdvancedCustomRouteRow \<Rightarrow> AdvancedCustomRouteGroup" where
  "add_to_group g row = g\<lparr>gr_routeRows := gr_routeRows g @ [row]\<rparr>"

interpretation route_groups: grouping row_path gr_incomingPath new_group add_to_group
  by unfold_locales (simp_all add: new_group_def add_to_group_def)

lemma buildRouteGroups_eq:
  "buildRouteGroups rows = map (\<lambda>p. \<lparr>gr_incomingPath = p, gr_routeRows = members row_path p rows\<rparr>) (uniq (map row_path rows))"
proof -
  have step: "add_row = group_step row_path gr_incomingPath new_group add_to_group"
    by (intro ext) (simp add: add_row_def group_step_def Let_def row_path_def new_group_def add_to_group_def [abs_def])
  have "foldl add_to_group g rs = g\<lparr>gr_routeRows := gr_routeRows g @ rs\<rparr>" for g rs
    by (induction rs arbitrary: g) (simp_all add: add_to_group_def)
  moreover have "row_path (hd (members row_path p rows)) = p" if "p \<in> row_path ` set rows" for p
    using route_groups.gkey_group [OF that] by (simp add: route_groups.gkey_fold new_group_def)
  ultimately show ?thesis
    using route_groups.group_closed_form [of rows] by (simp add: buildRouteGroups_def step new_group_def)
qed

section \<open>Fixing the order\<close>

lemma rows_by_path_eq: "rows_by_path rows p = filter (\<lambda>r. row_path r = p) rows"
proof -
  have "foldl (\<lambda>m row. m(row_path row := m (row_path row) @ [row])) m rows p = m p @ filter (\<lambda>r. row_path r = p) rows" for m
    by (induction rows arbitrary: m) auto
  then show ?thesis by (simp add: rows_by_path_def)
qed

text \<open>Shifting gives every path its ordered rows, when there are as many of them.\<close>

lemma shift_rows_spec:
  assumes "\<And>p. length (ordered p) = length (filter (\<lambda>r. row_path r = p) rows)"
    "\<And>p. list_all (\<lambda>r. row_path r = p) (ordered p)"
  shows "map row_path (shift_rows ordered rows) = map row_path rows"
    "filter (\<lambda>r. row_path r = p) (shift_rows ordered rows) = ordered p"
proof -
  have "map row_path (shift_rows ordered rows) = map row_path rows \<and>
      (\<forall>p. filter (\<lambda>r. row_path r = p) (shift_rows ordered rows) = ordered p)"
    using assms
  proof (induction rows arbitrary: ordered)
    case (Cons row rows)
    obtain r rs where o: "ordered (row_path row) = r # rs"
      using Cons.prems(1) [of "row_path row"] by (cases "ordered (row_path row)") auto
    have r: "row_path r = row_path row" "list_all (\<lambda>r. row_path r = row_path row) rs"
      using Cons.prems(2) [of "row_path row"] o by auto
    let ?o = "ordered(row_path row := rs)"
    have "map row_path (shift_rows ?o rows) = map row_path rows \<and>
        (\<forall>p. filter (\<lambda>r. row_path r = p) (shift_rows ?o rows) = ?o p)"
    proof (rule Cons.IH)
      show "length (?o p) = length (filter (\<lambda>r. row_path r = p) rows)" for p
        using Cons.prems(1) [of p] o by (auto split: if_splits)
      show "list_all (\<lambda>r. row_path r = p) (?o p)" for p
        using Cons.prems(2) [of p] r by simp
    qed
    then show ?case using o r by auto
  qed simp
  then show "map row_path (shift_rows ordered rows) = map row_path rows"
    "filter (\<lambda>r. row_path r = p) (shift_rows ordered rows) = ordered p" by auto
qed

lemma mset_catch_all_last: "mset (catch_all_last rows) = mset rows"
  unfolding catch_all_last_def mset_append mset_filter by (metis (no_types) add.commute multiset_partition)

lemma fixed_rows_path: "filter (\<lambda>r. row_path r = p) (fixed_rows rows) = catch_all_last (filter (\<lambda>r. row_path r = p) rows)"
  unfolding fixed_rows_def rows_by_path_eq
  by (rule shift_rows_spec, rule mset_eq_length, rule mset_catch_all_last) (auto simp: catch_all_last_def list_all_iff)

lemma fixed_rows_paths: "map row_path (fixed_rows rows) = map row_path rows"
  unfolding fixed_rows_def rows_by_path_eq
  by (rule shift_rows_spec, rule mset_eq_length, rule mset_catch_all_last) (auto simp: catch_all_last_def list_all_iff)

lemma mset_fixed_rows: "mset (fixed_rows rows) = mset rows"
proof (rule multiset_eqI)
  fix r
  have count: "count (mset xs) r = count (mset (filter (\<lambda>q. row_path q = row_path r) xs)) r" for xs
    by (simp add: mset_filter)
  show "count (mset (fixed_rows rows)) r = count (mset rows) r"
    unfolding count [of "fixed_rows rows"] count [of rows] fixed_rows_path mset_catch_all_last ..
qed

lemma length_fixed_rows [simp]: "length (fixed_rows rows) = length rows"
  by (rule mset_eq_length) (rule mset_fixed_rows)

subsection \<open>Whether some order is valid\<close>

lemma sorted_wrt_filter_iff:
  assumes "\<And>x y. f x \<noteq> f y \<Longrightarrow> R x y"
  shows "sorted_wrt R xs \<longleftrightarrow> (\<forall>p. sorted_wrt R (filter (\<lambda>x. f x = p) xs))"
proof
  assume *: "\<forall>p. sorted_wrt R (filter (\<lambda>x. f x = p) xs)"
  then show "sorted_wrt R xs"
  proof (induction xs)
    case (Cons x xs)
    have "R x y" if "y \<in> set xs" for y
      using Cons.prems [rule_format, of "f x"] that assms [of x y] by (cases "f x = f y") auto
    moreover have "\<forall>p. sorted_wrt R (filter (\<lambda>x. f x = p) xs)"
      using Cons.prems by (metis filter.simps(2) sorted_wrt.simps(2))
    ultimately show ?case using Cons.IH by simp
  qed simp
qed (simp add: sorted_wrt_filter)

lemma sorted_wrt_perm:
  assumes "symp R" "mset xs = mset ys" "sorted_wrt R xs"
  shows "sorted_wrt R ys"
  using assms(2,3)
proof (induction ys arbitrary: xs)
  case (Cons y ys)
  from Cons.prems(1) have "y \<in> set xs" by (metis list.set_intros(1) mset_eq_setD)
  then obtain us vs where xs: "xs = us @ y # vs" by (auto dest: split_list)
  then have m: "mset (us @ vs) = mset ys" using Cons.prems(1) by simp
  have "sorted_wrt R (us @ vs)" "\<forall>z\<in>set (us @ vs). R y z"
    using Cons.prems(2) assms(1) unfolding xs by (auto simp: sorted_wrt_append symp_def)
  then show ?case using Cons.IH [OF m] mset_eq_setD [OF m] by auto
qed simp

text \<open>Among routes of one path: the catch-alls go last, and there is at most one.\<close>

lemma catch_all_iff: "isCatchAllRoute (normalizeAdvancedCustomRoute r) \<longleftrightarrow> rules r = []"
  by (simp add: isCatchAllRoute_def normalizeAdvancedCustomRoute_def rules_def Let_def)

definition disjoint_rules :: "AdvancedCustomRoute \<Rightarrow> AdvancedCustomRoute \<Rightarrow> bool" where
  "disjoint_rules q r \<longleftrightarrow> set (rules q) \<inter> set (rules r) = {}"

lemma symp_disjoint: "symp disjoint_rules"
  by (auto simp: symp_def disjoint_rules_def)

lemma same_path_sorted:
  assumes "\<And>r. r \<in> set rs \<Longrightarrow> incoming_of r = p"
  shows "sorted_wrt coexist rs \<longleftrightarrow> sorted_wrt (\<lambda>q r. rules q \<noteq> [] \<and> disjoint_rules q r) rs"
  using assms by (auto simp: coexist_def disjoint_rules_def elim!: sorted_wrt_mono_rel [rotated])

lemma ordered_catch_all:
  assumes "sorted_wrt (\<lambda>q r. rules q \<noteq> [] \<and> disjoint_rules q r) rs" "mset rs = mset rs'"
  shows "sorted_wrt (\<lambda>q r. rules q \<noteq> [] \<and> disjoint_rules q r)
    (filter (\<lambda>r. rules r \<noteq> []) rs' @ filter (\<lambda>r. rules r = []) rs')"
proof -
  have "sorted_wrt (\<lambda>q r. rules q \<noteq> []) rs" "sorted_wrt disjoint_rules rs"
    using assms(1) by (auto elim: sorted_wrt_mono_rel [rotated])
  have "length (filter (\<lambda>r. rules r = []) rs) \<le> 1"
    using \<open>sorted_wrt (\<lambda>q r. rules q \<noteq> []) rs\<close>
    by (induction rs) (auto simp: filter_empty_conv)
  then have "length (filter (\<lambda>r. rules r = []) rs') \<le> 1"
    using mset_eq_length [of "filter (\<lambda>r. rules r = []) rs" "filter (\<lambda>r. rules r = []) rs'"] assms(2)
    by (simp add: mset_filter)
  then have c: "filter (\<lambda>r. rules r = []) rs' = [] \<or> (\<exists>c. filter (\<lambda>r. rules r = []) rs' = [c])"
    by (cases "filter (\<lambda>r. rules r = []) rs'") simp_all
  have "sorted_wrt disjoint_rules rs'"
    using sorted_wrt_perm [OF symp_disjoint assms(2)] \<open>sorted_wrt disjoint_rules rs\<close> by blast
  then have "sorted_wrt disjoint_rules (filter (\<lambda>r. rules r \<noteq> []) rs')" by (rule sorted_wrt_filter)
  then have "sorted_wrt (\<lambda>q r. rules q \<noteq> [] \<and> disjoint_rules q r) (filter (\<lambda>r. rules r \<noteq> []) rs')"
    by (rule sorted_wrt_mono_rel [rotated]) auto
  then show ?thesis using c by (elim disjE exE) (auto simp: sorted_wrt_append disjoint_rules_def filter_eq_Cons_iff)
qed

lemma ed_routes_eq: "ed_routes s = map normalizeAdvancedCustomRoute (config_routes (ed_config s))"
  by (simp add: ed_routes_def normalizedConfig_def)

lemma normal_routes: "r \<in> set (ed_routes s) \<Longrightarrow> normalizeAdvancedCustomRoute r = r"
  by (auto simp: ed_routes_eq)

lemma map_normal_routes: "set rs \<subseteq> set (ed_routes s) \<Longrightarrow> map normalizeAdvancedCustomRoute rs = rs"
  by (rule map_idI) (blast intro: normal_routes)

lemma fixed_routes:
  "ed_routes (fixCatchAllOrder s) = map row_route (fixed_rows (ed_routeRows s))"
  "mset (map row_route (fixed_rows (ed_routeRows s))) = mset (ed_routes s)"
proof -
  show m: "mset (map row_route (fixed_rows (ed_routeRows s))) = mset (ed_routes s)"
    using mset_fixed_rows [of "ed_routeRows s"] by (metis mset_map rows_routes(1))
  then show "ed_routes (fixCatchAllOrder s) = map row_route (fixed_rows (ed_routeRows s))"
    using map_normal_routes [of "map row_route (fixed_rows (ed_routeRows s))" s] mset_eq_setD [OF m]
    by (simp add: fixCatchAllOrder_def replaceRoutes_def Let_def)
qed

lemma fixed_routes_path:
  "filter (\<lambda>r. incoming_of r = p) (map row_route (fixed_rows (ed_routeRows s))) =
    filter (\<lambda>r. rules r \<noteq> []) (filter (\<lambda>r. incoming_of r = p) (ed_routes s)) @
    filter (\<lambda>r. rules r = []) (filter (\<lambda>r. incoming_of r = p) (ed_routes s))"
proof -
  have catch: "isCatchAllRoute (row_route r) \<longleftrightarrow> rules (row_route r) = []" if "r \<in> set (ed_routeRows s)" for r
  proof -
    have "row_route r \<in> set (ed_routes s)" using that rows_routes(1) [of s] by (metis image_eqI set_map)
    then show ?thesis using catch_all_iff [of "row_route r"] by (simp add: normal_routes)
  qed
  have "filter (\<lambda>r. incoming_of r = p) (map row_route (fixed_rows (ed_routeRows s))) =
      map row_route (catch_all_last (filter (\<lambda>r. row_path r = p) (ed_routeRows s)))"
    unfolding fixed_rows_path [symmetric] by (simp add: filter_map comp_def row_path_def)
  also have "\<dots> = map row_route (filter (\<lambda>r. rules (row_route r) \<noteq> []) (filter (\<lambda>r. row_path r = p) (ed_routeRows s)) @
      filter (\<lambda>r. rules (row_route r) = []) (filter (\<lambda>r. row_path r = p) (ed_routeRows s)))"
  proof -
    let ?A = "filter (\<lambda>r. row_path r = p) (ed_routeRows s)"
    have "filter (\<lambda>r. \<not> isCatchAllRoute (row_route r)) ?A = filter (\<lambda>r. rules (row_route r) \<noteq> []) ?A"
      "filter (\<lambda>r. isCatchAllRoute (row_route r)) ?A = filter (\<lambda>r. rules (row_route r) = []) ?A"
      by (rule filter_cong; simp add: catch)+
    then show ?thesis by (simp only: catch_all_last_def)
  qed
  finally have fixed: "filter (\<lambda>r. incoming_of r = p) (map row_route (fixed_rows (ed_routeRows s))) = \<dots>" .
  have "filter P (ed_routes s) = map row_route (filter (\<lambda>r. P (row_route r)) (ed_routeRows s))" for P
    unfolding rows_routes(1) [symmetric] filter_map comp_def ..
  then show ?thesis unfolding fixed by (simp add: row_path_def filter_map comp_def)
qed

lemma fixed_routes_sorted:
  assumes "mset rs = mset (ed_routes s)" "sorted_wrt coexist rs"
  shows "sorted_wrt coexist (map row_route (fixed_rows (ed_routeRows s)))"
proof -
  have other: "coexist x y" if "incoming_of x \<noteq> incoming_of y" for x y using that by (simp add: coexist_def)
  have "sorted_wrt coexist (filter (\<lambda>r. incoming_of r = p) (map row_route (fixed_rows (ed_routeRows s))))" for p
  proof -
    have "sorted_wrt coexist (filter (\<lambda>r. incoming_of r = p) rs)" using assms(2) by (rule sorted_wrt_filter)
    then have "sorted_wrt (\<lambda>q r. rules q \<noteq> [] \<and> disjoint_rules q r) (filter (\<lambda>r. incoming_of r = p) rs)"
      using same_path_sorted [of "filter (\<lambda>r. incoming_of r = p) rs" p] by simp
    from ordered_catch_all [OF this, of "filter (\<lambda>r. incoming_of r = p) (ed_routes s)"]
    have "sorted_wrt (\<lambda>q r. rules q \<noteq> [] \<and> disjoint_rules q r)
        (filter (\<lambda>r. incoming_of r = p) (map row_route (fixed_rows (ed_routeRows s))))"
      unfolding fixed_routes_path using assms(1) by (simp add: mset_filter)
    then show ?thesis
      using same_path_sorted [of "filter (\<lambda>r. incoming_of r = p) (map row_route (fixed_rows (ed_routeRows s)))" p]
      by simp
  qed
  then show ?thesis using sorted_wrt_filter_iff [of incoming_of coexist, OF other] by blast
qed

section \<open>Invariant of the steps\<close>

lemma mset_rows_keys: "keys_ok s \<Longrightarrow> mset (map row_routeKey (fixed_rows (ed_routeRows s))) = mset (ed_routeKeys s)"
  using rows_keys [of s] mset_fixed_rows [of "ed_routeRows s"] by (metis mset_map)

lemma keys_ok_swap:
  "keys_ok s \<Longrightarrow> i < length (ed_routes s) \<Longrightarrow> j < length (ed_routes s) \<Longrightarrow> keys_ok (swapRoutes i j s)"
  unfolding swapRoutes_def
  by (auto simp: rows_keys intro!: keys_ok_replace mset_swap_eq) (simp_all add: keys_ok_def)

lemma keys_ok_move:
  assumes "keys_ok s" "i < length (ed_routes s)"
  shows "keys_ok (moveRouteWithinGroup i d s)"
  using assms by (auto simp: moveRouteWithinGroup_def Let_def split: option.split
      intro!: keys_ok_swap dest!: array_at_mem samePathIndexes_less)

lemma keys_ok_move_end:
  assumes "keys_ok s" "i < length (ed_routes s)"
  shows "keys_ok (moveRouteToGroupEnd i s)"
proof -
  have l: "length (ed_routeKeys s) = length (ed_routes s)" using assms by (simp add: keys_ok_def)
  show ?thesis
    using assms l by (auto simp: moveRouteToGroupEnd_def Let_def rows_keys split: option.split
        dest!: last_same_path_less intro!: keys_ok_replace mset_remove_insert)
qed

lemma parse_json_keys:
  "parseJsonEditorConfig t url s = Some (s', c) \<Longrightarrow>
    keys_ok s' = keys_ok s \<and> ed_saved s' = ed_saved s \<and> ed_open s' = ed_open s"
  by (auto simp: parseJsonEditorConfig_def split: ParsedConfig.splits option.splits)

lemma keys_ok_remove:
  assumes "keys_ok s" "i < length (ed_routes s)"
  shows "keys_ok (removeRoute i s)"
proof -
  have "set (remove_at i xs) \<subseteq> set xs" for xs :: "string list"
    by (auto simp: remove_at_def dest: in_set_takeD in_set_dropD)
  moreover have "distinct (remove_at i xs)" if "distinct xs" for xs :: "string list"
    using that unfolding remove_at_def
    by (metis Suc_n_not_le_n distinct_append distinct_drop distinct_take nat_le_linear set_take_disj_set_drop_if_distinct)
  ultimately show ?thesis using assms by (auto simp: keys_ok_def removeRoute_def)
qed

lemma keys_ok_apply_template:
  assumes "applyTemplate t url appending s = Some s'" "keys_ok s"
  shows "keys_ok s'"
proof -
  have fin: "keys_ok (finish_template c r)" for c r
    by (simp add: finish_template_def Let_def keys_ok_normalized)
  have "keys_ok r" if "parseJsonEditorConfig t url s = Some (r, b)" for r b
    using parse_json_keys [OF that] assms(2) by simp
  then show ?thesis
    using assms fin by (auto simp: applyTemplate_def bind_eq_Some_conv split: option.splits if_splits)
qed

lemma keys_ok_save:
  assumes "saveEditor t url s = Some s'" "keys_ok s"
  shows "keys_ok s'"
proof -
  have "keys_ok r" if "parseJsonEditorConfig t url s = Some (r, b)" for r b
    using parse_json_keys [OF that] assms(2) by simp
  then show ?thesis
    using assms by (auto simp: saveEditor_def save_text_def split: option.splits if_splits)
qed

lemma editor_step_keys:
  assumes "editor_step t url s s'" "keys_ok s"
  shows "keys_ok s'"
  using assms
proof cases
  case edit_route
  then show ?thesis using assms(2) by (simp add: updateRoute_def Let_def keys_ok_def)
next
  case add_route
  then show ?thesis using assms(2) by (simp add: addRoute_def keys_ok_push)
next
  case add_split
  then show ?thesis using assms(2) by (simp add: addRouteForIncomingPath_def Let_def keys_ok_push)
next
  case change_path
  have "length (ed_routeKeys s) = length (ed_routes s)" using assms(2) by (simp add: keys_ok_def)
  then show ?thesis
    using assms(2) unfolding change_path updateGroupIncomingPath_def Let_def rows_keys [OF assms(2)]
    by (intro keys_ok_replace) simp_all
next
  case fix_order
  then show ?thesis
    using assms(2) mset_rows_keys by (simp add: fixCatchAllOrder_def Let_def keys_ok_replace)
next
  case to_visual
  then show ?thesis
    using assms(2) by (auto simp: switchToVisualMode_def keys_ok_normalized dest!: parse_json_keys split: option.splits)
next
  case format_json
  then show ?thesis using assms(2) by (auto simp: formatJson_def dest!: parse_json_keys split: option.splits)
qed (simp_all add: keys_ok_remove keys_ok_move keys_ok_move_end switchToJsonMode_def handleJsonChange_def
    keys_ok_apply_template keys_ok_save)

lemma saved_simps [simp]:
  "ed_saved (updateRoute i f s) = ed_saved s" "ed_saved (addRoute s) = ed_saved s"
  "ed_saved (addRouteForIncomingPath p s) = ed_saved s" "ed_saved (removeRoute i s) = ed_saved s"
  "ed_saved (replaceRoutes rs ks s) = ed_saved s" "ed_saved (set_normalized c s) = ed_saved s"
  by (simp_all add: updateRoute_def addRoute_def addRouteForIncomingPath_def removeRoute_def replaceRoutes_def
      push_key_def set_normalized_def Let_def)

lemma saved_moves [simp]:
  "ed_saved (updateGroupIncomingPath g q s) = ed_saved s" "ed_saved (moveRouteWithinGroup i d s) = ed_saved s"
  "ed_saved (moveRouteToGroupEnd i s) = ed_saved s" "ed_saved (fixCatchAllOrder s) = ed_saved s"
  by (auto simp: updateGroupIncomingPath_def moveRouteWithinGroup_def swapRoutes_def moveRouteToGroupEnd_def
      fixCatchAllOrder_def Let_def split: option.split)

lemma parse_json_valid:
  "parseJsonEditorConfig t url s = Some (s', Some c) \<Longrightarrow> validateAdvancedCustomConfig url (Some c) = None"
  by (auto simp: parseJsonEditorConfig_def split: ParsedConfig.splits option.splits)

definition saved_ok :: "url_parser \<Rightarrow> EditorState \<Rightarrow> bool" where
  "saved_ok url s \<longleftrightarrow> ed_saved s = [] \<or> \<not> ed_open s \<and>
     (\<exists>c. ed_saved s = [stringifyAdvancedCustomConfig c] \<and> validateAdvancedCustomConfig url (Some c) = None)"

lemma saved_ok_save:
  assumes "saveEditor t url s = Some s'" "ed_saved s = []"
  shows "saved_ok url s'"
proof (cases "ed_editMode s = JsonText")
  case True
  then obtain r b where p: "parseJsonEditorConfig t url s = Some (r, b)"
    and s': "s' = (case b of None \<Rightarrow> r\<lparr>ed_toasts := ed_toasts r @ [t ''Please fix JSON errors before saving'']\<rparr>
        | Some c \<Rightarrow> save_text c r)"
    using assms(1) by (auto simp: saveEditor_def split: option.splits)
  show ?thesis
    using s' parse_json_keys [OF p] parse_json_valid [of t url s r] p assms(2)
    by (auto simp: saved_ok_def save_text_def split: option.splits)
next
  case False
  then show ?thesis
    using assms by (auto simp: saveEditor_def saved_ok_def save_text_def validationError_def split: option.splits)
qed

lemma editor_step_open: "editor_step t url s s' \<Longrightarrow> ed_open s"
  by (auto elim: editor_step.cases)

lemma editor_step_saved:
  assumes "editor_step t url s s'" "saved_ok url s"
  shows "saved_ok url s'"
proof -
  have "ed_saved s = []" using editor_step_open [OF assms(1)] assms(2) by (auto simp: saved_ok_def)
  from assms(1) this show ?thesis
  proof cases
    case to_visual
    with \<open>ed_saved s = []\<close> show ?thesis
      by (auto simp: switchToVisualMode_def saved_ok_def dest!: parse_json_keys split: option.splits)
  next
    case format_json
    with \<open>ed_saved s = []\<close> show ?thesis
      by (auto simp: formatJson_def saved_ok_def dest!: parse_json_keys split: option.splits)
  next
    case (apply_template appending)
    with \<open>ed_saved s = []\<close> have "ed_saved s' = []"
      by (auto simp: applyTemplate_def finish_template_def Let_def bind_eq_Some_conv dest!: parse_json_keys
          split: option.splits if_splits)
    then show ?thesis by (simp add: saved_ok_def)
  next
    case save
    then show ?thesis using \<open>ed_saved s = []\<close> by (simp add: saved_ok_save)
  qed (simp_all add: saved_ok_def switchToJsonMode_def handleJsonChange_def)
qed

lemma open_editor_ok: "open_editor v = Some s \<Longrightarrow> keys_ok s \<and> saved_ok url s"
  by (auto simp: open_editor_def keys_ok_def saved_ok_def ed_routes_def normalizedConfig_def distinct_map inj_on_def
      old_keys_def)

lemma reachable_ok: "editor_reachable t url v s \<Longrightarrow> keys_ok s \<and> saved_ok url s"
  by (induction rule: editor_reachable.induct)
    (blast dest: open_editor_ok editor_step_keys editor_step_saved)+

lemma validate_normalize:
  "validateAdvancedCustomConfig url (Some (normalizeAdvancedCustomConfig c)) = validateAdvancedCustomConfig url (Some c)"
  by (simp add: validateAdvancedCustomConfig_def)

section \<open>A click that loses edits\<close>

text \<open>
  The button of the visual mode parses the JSON text also when the visual mode is on already; the
  text does not follow the edits of that mode, and they are replaced by what it held before.
\<close>

lemma visual_click_discards_edits:
  assumes "open_editor (Some (stringifyAdvancedCustomConfig c)) = Some s"
    "validateAdvancedCustomConfig url (Some c) = None"
  shows "\<exists>s'. switchToVisualMode t url (updateRoute i f s) = Some s' \<and>
    ed_config s' = normalizeAdvancedCustomConfig c"
proof -
  have "stringifyAdvancedCustomConfig (normalizeAdvancedCustomConfig c) = stringifyAdvancedCustomConfig c"
    by (simp add: stringifyAdvancedCustomConfig_def)
  then have "ed_jsonText s = stringifyAdvancedCustomConfig c"
    using assms(1) by (auto simp: open_editor_def initial_config_def parse_stringify_custom)
  then have "ed_jsonText (updateRoute i f s) = stringifyAdvancedCustomConfig c"
    by (simp add: updateRoute_def Let_def)
  then show ?thesis
    using assms(2) by (simp add: switchToVisualMode_def parseJsonEditorConfig_def parse_stringify_custom
        validate_normalize set_normalized_def Let_def)
qed

section \<open>Changing the converter\<close>

lemma default_path_ok:
  "list_all (\<lambda>option. let p = getDefaultAdvancedCustomIncomingPath (co_value option)
     in trim p = p \<and> startsWith p ''/'' \<and> \<not> startsWith p ''//'' \<and> \<not> contains p ''?'' \<and>
        isConverterPathAllowed p (co_value option)) ADVANCED_CUSTOM_CONVERTER_OPTIONS"
  by code_simp

lemma setConverter_ok:
  assumes "isAdvancedCustomConverter converter" "route_ok url r" "rt_incoming_path r = Some (incoming_of r)"
    "\<not> startsWith (incoming_of r) ''//''"
  shows "route_ok url (setConverter converter r)"
proof -
  let ?p = "incoming_of r"
  define q where "q = (if isConverterPathAllowed ?p converter then ?p else getDefaultAdvancedCustomIncomingPath converter)"
  have p: "trim ?p = ?p" "startsWith ?p ''/''" "\<not> contains ?p ''?''" using assms(2) by (auto simp: route_ok_def incoming_of_def)
  then have "?p \<noteq> []" by (auto simp: startsWith_def)
  from assms(1) obtain op where "op \<in> set ADVANCED_CUSTOM_CONVERTER_OPTIONS" "co_value op = converter"
    by (auto simp: isAdvancedCustomConverter_def list_ex_iff)
  then have "let d = getDefaultAdvancedCustomIncomingPath converter in trim d = d \<and> startsWith d ''/'' \<and>
      \<not> startsWith d ''//'' \<and> \<not> contains d ''?'' \<and> isConverterPathAllowed d converter"
    using default_path_ok unfolding list_all_iff by blast
  then have q: "trim q = q" "startsWith q ''/''" "\<not> startsWith q ''//''" "\<not> contains q ''?''" "isConverterPathAllowed q converter"
    using p assms(4) by (auto simp: q_def Let_def)
  have ok: "route_ok url (default_route converter q)" using q assms(1) by (intro default_route_ok) auto
  have "setConverter converter r = (default_route converter q)\<lparr>rt_models := rt_models r\<rparr>"
    using assms(3) \<open>?p \<noteq> []\<close>
    by (simp add: setConverter_def default_route_def Let_def q_def isAdvancedCustomIncomingPathAllowed_def or_string_def)
  then show ?thesis
    using ok assms(2) by (simp add: route_ok_def incoming_of_def getAdvancedCustomRouteUpstreamPath_def converter_of_def rules_def)
qed

section \<open>Properties\<close>

text \<open>
  C35: whatever the user does in the editor, every route has one key and the keys are distinct, and
  the editor saves at most once, when it closes, a text that parses to a configuration the
  validation accepts.\<close>

theorem editor_saves_valid:
  assumes "editor_reachable t url v s"
  shows "length (ed_routeKeys s) = length (ed_routes s) \<and> distinct (ed_routeKeys s) \<and>
    (case ed_saved s of
       [] \<Rightarrow> True
     | text # others \<Rightarrow> others = [] \<and> \<not> ed_open s \<and>
         (case parseAdvancedCustomConfig (Some text) of
            ParsedConfig c \<Rightarrow> validateAdvancedCustomConfig url (Some c) = None | _ \<Rightarrow> False))"
  using reachable_ok [OF assms]
  by (auto simp: keys_ok_def saved_ok_def parse_stringify_custom validate_normalize split: list.split)

definition example_editor :: EditorState where
  "example_editor = the (open_editor None)"

lemma example_editor_opens: "open_editor None = Some example_editor"
  by (simp add: example_editor_def open_editor_def initial_config_def parseAdvancedCustomConfig_def)

lemma example_editor_fields [simp]:
  "ed_config example_editor = createAdvancedCustomConfig" "ed_editMode example_editor = Visual"
  "ed_open example_editor" "ed_saved example_editor = []"
  by (simp_all add: example_editor_def open_editor_def initial_config_def parseAdvancedCustomConfig_def)

lemma example_editor_saves:
  "saveEditor (\<lambda>m. m) (\<lambda>_. None) example_editor = Some (save_text (normalizedConfig example_editor) example_editor)"
proof -
  have "valid_routes (\<lambda>_. None) [createAdvancedCustomRoute]" by code_simp
  then have "validationError (\<lambda>_. None) example_editor = None"
    by (simp add: validationError_def normalizedConfig_def validate_normalize validate_None_iff config_routes_def
        createAdvancedCustomConfig_def)
  then show ?thesis by (simp add: saveEditor_def)
qed

theorem editor_saves_valid_witness:
  "\<exists>s text. editor_reachable (\<lambda>m. m) (\<lambda>_. None) None s \<and> ed_saved s = [text] \<and> \<not> ed_open s \<and>
    distinct (ed_routeKeys s)"
proof -
  let ?s = "save_text (normalizedConfig example_editor) example_editor"
  have "editor_reachable (\<lambda>m. m) (\<lambda>_. None) None ?s"
    using editor_reachable.stepped [OF editor_reachable.opened [OF example_editor_opens]
        editor_step.save [OF example_editor_fields(3) example_editor_saves]] .
  moreover from editor_saves_valid [OF this] have "distinct (ed_routeKeys ?s)" "\<not> ed_open ?s"
    by (auto simp: save_text_def split: list.splits)
  moreover have "ed_saved ?s = [stringifyAdvancedCustomConfig (normalizedConfig example_editor)]"
    by (simp add: save_text_def)
  ultimately show ?thesis by blast
qed

lemma fixed_routes_paths: "map incoming_of (ed_routes (fixCatchAllOrder s)) = map incoming_of (ed_routes s)"
proof -
  have p: "map row_path rows = map incoming_of (map row_route rows)" for rows by (simp add: row_path_def)
  have "map incoming_of (map row_route (fixed_rows (ed_routeRows s))) = map incoming_of (map row_route (ed_routeRows s))"
    using fixed_rows_paths [of "ed_routeRows s"] unfolding p .
  then show ?thesis unfolding fixed_routes(1) rows_routes(1) .
qed

text \<open>
  C36: the repair of the catch-all order is complete. If any order of the routes is valid, the order
  it produces is; it only permutes the routes, keeps the incoming path of every position, and keeps
  the order of the other routes of each path.\<close>

theorem fixCatchAllOrder_complete:
  assumes "mset rs = mset (ed_routes s)" "valid_routes url rs"
  shows "valid_routes url (ed_routes (fixCatchAllOrder s)) \<and>
    mset (ed_routes (fixCatchAllOrder s)) = mset (ed_routes s) \<and>
    map incoming_of (ed_routes (fixCatchAllOrder s)) = map incoming_of (ed_routes s) \<and>
    (\<forall>p. filter (\<lambda>r. incoming_of r = p) (ed_routes (fixCatchAllOrder s)) =
       filter (\<lambda>r. rules r \<noteq> []) (filter (\<lambda>r. incoming_of r = p) (ed_routes s)) @
       filter (\<lambda>r. rules r = []) (filter (\<lambda>r. incoming_of r = p) (ed_routes s)))"
proof -
  have "set (ed_routes (fixCatchAllOrder s)) = set rs" using fixed_routes assms(1) by (metis mset_eq_setD)
  then have "list_all (route_ok url) (ed_routes (fixCatchAllOrder s))"
    using assms(2) by (simp add: valid_routes_def list_all_iff)
  moreover have "sorted_wrt coexist (ed_routes (fixCatchAllOrder s))"
    using fixed_routes_sorted [OF assms(1)] assms(2) by (simp only: fixed_routes(1) valid_routes_def)
  moreover have "map incoming_of (ed_routes (fixCatchAllOrder s)) = map incoming_of (ed_routes s)"
    by (rule fixed_routes_paths)
  ultimately show ?thesis
    using fixed_routes fixed_routes_path by (simp add: valid_routes_def)
qed

definition scoped_route :: AdvancedCustomRoute where
  "scoped_route = createAdvancedCustomRoute\<lparr>rt_models := Some [''gpt-4o'']\<rparr>"

definition wrong_order :: EditorState where
  "wrong_order = example_editor\<lparr>ed_config := \<lparr>advanced_routes = Some [createAdvancedCustomRoute, scoped_route]\<rparr>\<rparr>"

theorem fixCatchAllOrder_complete_witness:
  "valid_routes (\<lambda>_. None) (ed_routes (fixCatchAllOrder wrong_order)) \<and>
   \<not> valid_routes (\<lambda>_. None) (ed_routes wrong_order)"
proof -
  have normal: "map normalizeAdvancedCustomRoute [createAdvancedCustomRoute, scoped_route] =
      [createAdvancedCustomRoute, scoped_route]" by code_simp
  have routes: "ed_routes wrong_order = [createAdvancedCustomRoute, scoped_route]"
    using normal by (simp add: ed_routes_eq wrong_order_def config_routes_def)
  have "valid_routes (\<lambda>_. None) [scoped_route, createAdvancedCustomRoute]" by code_simp
  then have "valid_routes (\<lambda>_. None) (ed_routes (fixCatchAllOrder wrong_order))"
    using fixCatchAllOrder_complete [of "[scoped_route, createAdvancedCustomRoute]" wrong_order "\<lambda>_. None"]
    by (simp add: routes)
  moreover have "\<not> valid_routes (\<lambda>_. None) [createAdvancedCustomRoute, scoped_route]" by code_simp
  ultimately show ?thesis by (simp add: routes)
qed

text \<open>
  Choosing another converter keeps a valid route valid: the incoming path is replaced where the
  converter does not accept it, and the upstream path and the authentication are set to match.\<close>

theorem setConverter_keeps_valid:
  assumes "isAdvancedCustomConverter converter" "route_ok url r"
    "rt_incoming_path r = Some (incoming_of r)" "\<not> startsWith (incoming_of r) ''//''"
  shows "route_ok url (setConverter converter r) \<and> converter_of (setConverter converter r) = converter \<and>
    rules (setConverter converter r) = rules r"
proof -
  have "converter \<noteq> []"
    using assms(1) by (auto simp: isAdvancedCustomConverter_def ADVANCED_CUSTOM_CONVERTER_OPTIONS_def)
  then show ?thesis
    using setConverter_ok [OF assms] by (simp add: setConverter_def converter_of_def rules_def Let_def or_string_def)
qed

theorem setConverter_keeps_valid_witness:
  "route_ok (\<lambda>_. None) (setConverter ''anthropic_messages_to_openai_chat_completions'' createAdvancedCustomRoute)"
proof -
  have "isAdvancedCustomConverter ''anthropic_messages_to_openai_chat_completions''"
    "route_ok (\<lambda>_. None) createAdvancedCustomRoute"
    "rt_incoming_path createAdvancedCustomRoute = Some (incoming_of createAdvancedCustomRoute)"
    "\<not> startsWith (incoming_of createAdvancedCustomRoute) ''//''" by code_simp+
  from setConverter_keeps_valid [OF this] show ?thesis by blast
qed

end
