(* ===== verification/Nav_Modules.thy ===== *)
theory Nav_Modules
  imports Storage
begin

text \<open>
  \<open>lib/nav-modules.ts\<close>: which modules the header offers, read from the status of the server, and
  \<open>isSidebarModuleEnabled\<close>, the check of the route guards. An unknown value is \<open>json option\<close>,
  with \<open>None\<close> for \<open>undefined\<close>. Properties that objects inherit from \<open>Object.prototype\<close> are not
  modelled, except that assigning a boolean to \<open>__proto__\<close> has no effect.
\<close>

section \<open>JavaScript conversions\<close>

text \<open>\<open>Object.entries(value)\<close>, for a value that is not \<open>null\<close>.\<close>

definition js_entries :: "json \<Rightarrow> (string \<times> json) list" where
  "js_entries j = (case j of
      JObj kvs \<Rightarrow> Object_entries kvs
    | JArr vs \<Rightarrow> map (\<lambda>(i, v). (nat_digits i, v)) (enumerate 0 vs)
    | JStr s \<Rightarrow> map (\<lambda>(i, c). (nat_digits i, JStr [c])) (enumerate 0 s)
    | _ \<Rightarrow> [])"

section \<open>Types and defaults\<close>

record ModuleAccess =
  ma_enabled :: bool
  ma_requireAuth :: bool

datatype NavValue = Flag bool | Access ModuleAccess

datatype HeaderNavModule = Rankings | Pricing

type_synonym HeaderNavModules = "(string \<times> NavValue) list"

definition module_key :: "HeaderNavModule \<Rightarrow> string" where
  "module_key m = (case m of Rankings \<Rightarrow> ''rankings'' | Pricing \<Rightarrow> ''pricing'')"

definition public_access :: ModuleAccess where
  "public_access = \<lparr>ma_enabled = True, ma_requireAuth = False\<rparr>"

definition DEFAULT_HEADER_NAV_MODULES :: HeaderNavModules where
  "DEFAULT_HEADER_NAV_MODULES =
     [(''home'', Flag True), (''console'', Flag True), (''pricing'', Access public_access),
      (''rankings'', Access public_access), (''docs'', Flag True), (''about'', Flag True)]"

definition DEFAULTS :: "HeaderNavModule \<Rightarrow> ModuleAccess" where
  "DEFAULTS m = public_access"

section \<open>Parsing\<close>

definition parseHeaderNavBoolean :: "json option \<Rightarrow> bool \<Rightarrow> bool" where
  "parseHeaderNavBoolean raw fallback = (case raw of
      Some (JBool b) \<Rightarrow> b
    | Some (JNum x) \<Rightarrow> if x = 1 then True else if x = 0 then False else fallback
    | Some (JStr s) \<Rightarrow>
        (let normalized = toLowerCase (trim s)
         in if normalized = ''true'' \<or> normalized = ''1'' then True
            else if normalized = ''false'' \<or> normalized = ''0'' then False else fallback)
    | _ \<Rightarrow> fallback)"

definition parseAccess :: "json \<Rightarrow> ModuleAccess \<Rightarrow> ModuleAccess" where
  "parseAccess raw fallback = (case raw of
      JNull \<Rightarrow> fallback
    | JObj kvs \<Rightarrow> \<lparr>ma_enabled = parseHeaderNavBoolean (map_of kvs ''enabled'') (ma_enabled fallback),
                  ma_requireAuth = parseHeaderNavBoolean (map_of kvs ''requireAuth'') (ma_requireAuth fallback)\<rparr>
    | JArr vs \<Rightarrow> fallback
    | _ \<Rightarrow> \<lparr>ma_enabled = parseHeaderNavBoolean (Some raw) (ma_enabled fallback),
           ma_requireAuth = ma_requireAuth fallback\<rparr>)"

text \<open>An object or an array is used as it is; anything else is parsed as text.\<close>

definition parseHeaderNavRecord :: "json option \<Rightarrow> json option" where
  "parseHeaderNavRecord raw = (case raw of
      None \<Rightarrow> None
    | Some r \<Rightarrow>
        if falsy r \<or> trim (js_String r) = [] then None
        else (case r of
                JObj kvs \<Rightarrow> Some r | JArr vs \<Rightarrow> Some r
              | _ \<Rightarrow> JSON_parse (js_String r)))"

definition access_at :: "string \<Rightarrow> HeaderNavModules \<Rightarrow> ModuleAccess" where
  "access_at k result = (case map_of result k of Some (Access a) \<Rightarrow> a | _ \<Rightarrow> public_access)"

text \<open>\<open>typeof\<close> tests: a boolean value so far, and a boolean, number or text.\<close>

definition is_flag :: "NavValue option \<Rightarrow> bool" where
  "is_flag v = (case v of Some (Flag _) \<Rightarrow> True | _ \<Rightarrow> False)"

definition is_scalar :: "json \<Rightarrow> bool" where
  "is_scalar j = (case j of JBool _ \<Rightarrow> True | JNum _ \<Rightarrow> True | JStr _ \<Rightarrow> True | _ \<Rightarrow> False)"

text \<open>The body of the \<open>forEach\<close>.\<close>

definition nav_entry :: "HeaderNavModules \<Rightarrow> string \<times> json \<Rightarrow> HeaderNavModules" where
  "nav_entry result entry = (case entry of (key, value) \<Rightarrow>
     if key = ''pricing'' then obj_set ''pricing'' (Access (parseAccess value (access_at ''pricing'' result))) result
     else if key = ''rankings'' then obj_set ''rankings'' (Access (parseAccess value (access_at ''rankings'' result))) result
     else if key = ''__proto__'' then result
     else if is_flag (map_of result key) \<or> is_scalar value
     then obj_set key (Flag (parseHeaderNavBoolean (Some value)
            (case map_of result key of Some (Flag fallback) \<Rightarrow> fallback | _ \<Rightarrow> True))) result
     else result)"

definition parseHeaderNavModules :: "json option \<Rightarrow> HeaderNavModules" where
  "parseHeaderNavModules raw = (case parseHeaderNavRecord raw of
      None \<Rightarrow> DEFAULT_HEADER_NAV_MODULES
    | Some parsed \<Rightarrow>
        if falsy parsed then DEFAULT_HEADER_NAV_MODULES
        else foldl nav_entry DEFAULT_HEADER_NAV_MODULES (js_entries parsed))"

definition parseHeaderNavModulesFromStatus :: "json option \<Rightarrow> HeaderNavModules" where
  "parseHeaderNavModulesFromStatus status =
     parseHeaderNavModules (Option.bind status (get_prop ''HeaderNavModules''))"

section \<open>The cached status\<close>

definition getCachedStatus :: "store \<Rightarrow> json option" where
  "getCachedStatus st = (case getItem st ''status'' of
      None \<Rightarrow> None
    | Some raw \<Rightarrow> if raw = [] then None
                  else (case JSON_parse raw of Some JNull \<Rightarrow> None | r \<Rightarrow> r))"

definition cacheStatus :: "(store \<Rightarrow> bool) \<Rightarrow> store \<Rightarrow> json option \<Rightarrow> store" where
  "cacheStatus fits st status = (case status of
      None \<Rightarrow> st
    | Some j \<Rightarrow> if falsy j then st
                else (case setItem fits st ''status'' (JSON_stringify j) of Inl e \<Rightarrow> st | Inr st' \<Rightarrow> st'))"

definition getModuleAccessFromStatus :: "json option \<Rightarrow> HeaderNavModule \<Rightarrow> ModuleAccess" where
  "getModuleAccessFromStatus status m =
     (case map_of (parseHeaderNavModulesFromStatus status) (module_key m) of
        Some (Access a) \<Rightarrow> a | _ \<Rightarrow> DEFAULTS m)"

definition getModuleAccess :: "store \<Rightarrow> HeaderNavModule \<Rightarrow> ModuleAccess" where
  "getModuleAccess st m = getModuleAccessFromStatus (getCachedStatus st) m"

text \<open>The response of the server is \<open>Inl\<close> where the request fails.\<close>

definition getFreshModuleAccess ::
  "(store \<Rightarrow> bool) \<Rightarrow> store \<Rightarrow> js_error + json option \<Rightarrow> HeaderNavModule \<Rightarrow> store \<times> ModuleAccess" where
  "getFreshModuleAccess fits st response m = (case response of
      Inl e \<Rightarrow> (st, \<lparr>ma_enabled = False, ma_requireAuth = True\<rparr>)
    | Inr status \<Rightarrow> (cacheStatus fits st status, getModuleAccessFromStatus status m))"

definition isSidebarModuleEnabled :: "store \<Rightarrow> string \<Rightarrow> string \<Rightarrow> bool" where
  "isSidebarModuleEnabled st section moduleKey = (case getCachedStatus st of
      None \<Rightarrow> True
    | Some status \<Rightarrow>
        (case get_prop ''SidebarModulesAdmin'' status of
           None \<Rightarrow> True
         | Some raw \<Rightarrow>
             if falsy raw \<or> trim (js_String raw) = [] then True
             else (case JSON_parse (js_String raw) of
                    None \<Rightarrow> True
                  | Some parsed \<Rightarrow>
                      (case get_prop section parsed of
                         None \<Rightarrow> True
                       | Some sectionConfig \<Rightarrow>
                           if falsy sectionConfig then True
                           else if get_prop ''enabled'' sectionConfig = Some (JBool False) then False
                           else if get_prop moduleKey sectionConfig = Some (JBool False) then False
                           else True))))"

section \<open>Lemmas\<close>

text \<open>The shape the declared type promises.\<close>

definition nav_wf :: "HeaderNavModules \<Rightarrow> bool" where
  "nav_wf r \<longleftrightarrow> distinct (map fst r) \<and> ''__proto__'' \<notin> fst ` set r \<and>
     list_all (\<lambda>(k, _). k \<in> fst ` set r) DEFAULT_HEADER_NAV_MODULES \<and>
     list_all (\<lambda>(k, v). case v of Flag _ \<Rightarrow> k \<noteq> ''pricing'' \<and> k \<noteq> ''rankings''
                          | Access _ \<Rightarrow> k = ''pricing'' \<or> k = ''rankings'') r"

lemma nav_wf_default: "nav_wf DEFAULT_HEADER_NAV_MODULES"
  by (simp add: nav_wf_def DEFAULT_HEADER_NAV_MODULES_def)

lemma set_obj_set: "set (obj_set k v kvs) \<subseteq> insert (k, v) (set kvs)"
  by (induction kvs) (auto split: if_splits)

lemma nav_wf_obj_set:
  assumes "nav_wf r" "k \<noteq> ''__proto__''"
    "case v of Flag _ \<Rightarrow> k \<noteq> ''pricing'' \<and> k \<noteq> ''rankings'' | Access _ \<Rightarrow> k = ''pricing'' \<or> k = ''rankings''"
  shows "nav_wf (obj_set k v r)"
proof -
  have "list_all (\<lambda>(k, v). case v of Flag _ \<Rightarrow> k \<noteq> ''pricing'' \<and> k \<noteq> ''rankings''
      | Access _ \<Rightarrow> k = ''pricing'' \<or> k = ''rankings'') (obj_set k v r)"
    using assms(1,3) set_obj_set [of k v r] unfolding nav_wf_def list_all_iff by blast
  then show ?thesis using assms(1,2) by (auto simp: nav_wf_def list_all_iff)
qed

lemma nav_wf_entry: "nav_wf r \<Longrightarrow> nav_wf (nav_entry r e)"
  by (cases e) (simp add: nav_entry_def nav_wf_obj_set)

lemma nav_wf_fold: "nav_wf r \<Longrightarrow> nav_wf (foldl nav_entry r es)"
  by (induction es arbitrary: r) (simp_all add: nav_wf_entry)

end
