(* ===== verification/Nav_Settings.thy ===== *)
theory Nav_Settings
  imports Nav_Modules "HOL-Library.Sublist"
begin

text \<open>
  The two module configurations an administrator edits
  (\<open>features/system-settings/maintenance/config.ts\<close>) and the sidebar that reads one of them
  (\<open>hooks/use-sidebar-config.ts\<close>). The settings page keeps typed values; the sidebar works on the
  parsed JSON, as the route guards of \<open>Nav_Modules\<close> do. An entry \<open>__proto__\<close> of a parsed object is
  not modelled.
\<close>

section \<open>The settings page\<close>

type_synonym SidebarSectionConfig = "(string \<times> bool) list"

type_synonym SidebarModulesAdminConfig = "(string \<times> SidebarSectionConfig) list"

definition HEADER_NAV_DEFAULT :: HeaderNavModules where
  "HEADER_NAV_DEFAULT =
     [(''home'', Flag True), (''console'', Flag True),
      (''pricing'', Access \<lparr>ma_enabled = True, ma_requireAuth = False\<rparr>),
      (''rankings'', Access \<lparr>ma_enabled = True, ma_requireAuth = False\<rparr>),
      (''docs'', Flag True), (''about'', Flag True)]"

definition SIDEBAR_MODULES_DEFAULT :: SidebarModulesAdminConfig where
  "SIDEBAR_MODULES_DEFAULT =
     [(''chat'', [(''enabled'', True), (''playground'', True), (''chat'', True)]),
      (''console'', [(''enabled'', True), (''detail'', True), (''token'', True), (''log'', True),
         (''midjourney'', True), (''task'', True)]),
      (''personal'', [(''enabled'', True), (''topup'', True), (''personal'', True)]),
      (''admin'', [(''enabled'', True), (''channel'', True), (''models'', True), (''redemption'', True),
         (''user'', True), (''setting'', True), (''subscription'', True)])]"

definition toBoolean :: "json option \<Rightarrow> bool \<Rightarrow> bool" where
  "toBoolean value fallback = (case value of
      Some (JBool b) \<Rightarrow> b
    | Some (JNum x) \<Rightarrow> x = 1
    | Some (JStr s) \<Rightarrow>
        (let normalized = toLowerCase (trim s)
         in if normalized = ''true'' \<or> normalized = ''1'' then True
            else if normalized = ''false'' \<or> normalized = ''0'' then False else fallback)
    | _ \<Rightarrow> fallback)"

definition parseAccessModule :: "json \<Rightarrow> ModuleAccess \<Rightarrow> ModuleAccess" where
  "parseAccessModule raw fallback = (case raw of
      JNull \<Rightarrow> fallback
    | JObj kvs \<Rightarrow> \<lparr>ma_enabled = toBoolean (map_of kvs ''enabled'') (ma_enabled fallback),
                  ma_requireAuth = toBoolean (map_of kvs ''requireAuth'') (ma_requireAuth fallback)\<rparr>
    | JArr vs \<Rightarrow> fallback
    | _ \<Rightarrow> \<lparr>ma_enabled = toBoolean (Some raw) (ma_enabled fallback), ma_requireAuth = ma_requireAuth fallback\<rparr>)"

text \<open>\<open>Boolean(base[key])\<close>: a flag as it is, an object as true, nothing as false.\<close>

definition truthy_value :: "NavValue option \<Rightarrow> bool" where
  "truthy_value v = (case v of None \<Rightarrow> False | Some (Flag b) \<Rightarrow> b | Some (Access _) \<Rightarrow> True)"

definition settings_entry :: "HeaderNavModules \<Rightarrow> string \<times> json \<Rightarrow> HeaderNavModules" where
  "settings_entry result entry = (case entry of (key, raw) \<Rightarrow>
     if key = ''pricing''
     then obj_set ''pricing'' (Access (parseAccessModule raw (access_at ''pricing'' HEADER_NAV_DEFAULT))) result
     else if key = ''rankings''
     then obj_set ''rankings'' (Access (parseAccessModule raw (access_at ''rankings'' HEADER_NAV_DEFAULT))) result
     else if key = ''__proto__'' then result
     else (case raw of
         JBool b \<Rightarrow> obj_set key (Flag b) result
       | JStr _ \<Rightarrow> obj_set key (Flag (toBoolean (Some raw) (truthy_value (map_of HEADER_NAV_DEFAULT key)))) result
       | JNum _ \<Rightarrow> obj_set key (Flag (toBoolean (Some raw) (truthy_value (map_of HEADER_NAV_DEFAULT key)))) result
       | _ \<Rightarrow> result))"

definition parseHeaderNavModules_settings :: "string option \<Rightarrow> HeaderNavModules" where
  "parseHeaderNavModules_settings value =
     (if nullish value [] = [] then HEADER_NAV_DEFAULT
      else (case JSON_parse (nullish value []) of
              None \<Rightarrow> HEADER_NAV_DEFAULT
            | Some JNull \<Rightarrow> HEADER_NAV_DEFAULT
            | Some parsed \<Rightarrow> foldl settings_entry HEADER_NAV_DEFAULT (js_entries parsed)))"

definition enc_access :: "ModuleAccess \<Rightarrow> json" where
  "enc_access a = JObj [(''enabled'', JBool (ma_enabled a)), (''requireAuth'', JBool (ma_requireAuth a))]"

definition enc_nav_value :: "NavValue \<Rightarrow> json" where
  "enc_nav_value v = (case v of Flag b \<Rightarrow> JBool b | Access a \<Rightarrow> enc_access a)"

definition serializeHeaderNavModules :: "HeaderNavModules \<Rightarrow> string" where
  "serializeHeaderNavModules config =
     JSON_stringify (JObj (map (\<lambda>(k, v). (k, enc_nav_value v)) (Object_entries config)))"

text \<open>The configuration of one section, and of all the sections of a parsed value.\<close>

definition section_modules :: "SidebarSectionConfig \<Rightarrow> json \<Rightarrow> SidebarSectionConfig" where
  "section_modules defaultSection raw =
     foldl (\<lambda>sectionConfig (moduleKey, moduleValue).
        if moduleKey = ''enabled'' \<or> moduleKey = ''__proto__'' then sectionConfig
        else obj_set moduleKey (toBoolean (Some moduleValue) (nullish (map_of defaultSection moduleKey) True)) sectionConfig)
       [(''enabled'', toBoolean (get_prop ''enabled'' raw) (nullish (map_of defaultSection ''enabled'') True))]
       (js_entries raw)"

definition is_object :: "json \<Rightarrow> bool" where
  "is_object j = (case j of JObj _ \<Rightarrow> True | JArr _ \<Rightarrow> True | _ \<Rightarrow> False)"

definition parsed_sections :: "json \<Rightarrow> SidebarModulesAdminConfig" where
  "parsed_sections parsed =
     foldl (\<lambda>result (sectionKey, raw).
        if \<not> is_object raw \<or> sectionKey = ''__proto__'' then result
        else obj_set sectionKey
               (section_modules (nullish (map_of SIDEBAR_MODULES_DEFAULT sectionKey) [(''enabled'', True)]) raw) result)
       [] (js_entries parsed)"

definition add_missing_modules :: "SidebarSectionConfig \<Rightarrow> SidebarSectionConfig \<Rightarrow> SidebarSectionConfig" where
  "add_missing_modules section config =
     foldl (\<lambda>sec (moduleKey, moduleValue). if map_of sec moduleKey = None then obj_set moduleKey moduleValue sec else sec)
       section config"

definition add_missing_section ::
  "SidebarModulesAdminConfig \<Rightarrow> string \<times> SidebarSectionConfig \<Rightarrow> SidebarModulesAdminConfig" where
  "add_missing_section result entry = (case entry of (sectionKey, config) \<Rightarrow>
     (case map_of result sectionKey of
        None \<Rightarrow> obj_set sectionKey config result
      | Some section \<Rightarrow> obj_set sectionKey (add_missing_modules section config) result))"

definition parseSidebarModulesAdmin :: "string option \<Rightarrow> SidebarModulesAdminConfig" where
  "parseSidebarModulesAdmin value =
     (if nullish value [] = [] \<or> trim (nullish value []) = [] then SIDEBAR_MODULES_DEFAULT
      else (case JSON_parse (nullish value []) of
              None \<Rightarrow> SIDEBAR_MODULES_DEFAULT
            | Some JNull \<Rightarrow> SIDEBAR_MODULES_DEFAULT
            | Some parsed \<Rightarrow> foldl add_missing_section (parsed_sections parsed) SIDEBAR_MODULES_DEFAULT))"

definition enc_section :: "SidebarSectionConfig \<Rightarrow> json" where
  "enc_section sec = JObj (map (\<lambda>(m, b). (m, JBool b)) (Object_entries sec))"

definition enc_sidebar :: "SidebarModulesAdminConfig \<Rightarrow> json" where
  "enc_sidebar config = JObj (map (\<lambda>(s, sec). (s, enc_section sec)) (Object_entries config))"

definition serializeSidebarModulesAdmin :: "SidebarModulesAdminConfig \<Rightarrow> string" where
  "serializeSidebarModulesAdmin config = JSON_stringify (enc_sidebar config)"

section \<open>The sidebar\<close>

record BaseNavItem =
  nb_title :: string
  nb_configUrls :: "string list option"

datatype NavItem =
    NavLink BaseNavItem string
  | NavCollapsible BaseNavItem "(BaseNavItem \<times> string) list"
  | NavChatPresets BaseNavItem

record NavGroup =
  ng_title :: string
  ng_items :: "NavItem list"

text \<open>A configuration as parsed: its own properties.\<close>

type_synonym sidebar_json = "(string \<times> json) list"

definition DEFAULT_SIDEBAR_MODULES :: sidebar_json where
  "DEFAULT_SIDEBAR_MODULES =
     [(''chat'', JObj [(''enabled'', JBool True), (''playground'', JBool True), (''chat'', JBool True)]),
      (''console'', JObj [(''enabled'', JBool True), (''detail'', JBool True), (''token'', JBool True),
         (''log'', JBool True), (''midjourney'', JBool True), (''task'', JBool True)]),
      (''personal'', JObj [(''enabled'', JBool True), (''topup'', JBool True), (''personal'', JBool True)]),
      (''admin'', JObj [(''enabled'', JBool True), (''channel'', JBool True), (''models'', JBool True),
         (''redemption'', JBool True), (''user'', JBool True), (''setting'', JBool True),
         (''subscription'', JBool True)])]"

definition own_props :: "json \<Rightarrow> (string \<times> json) list" where
  "own_props j = (case j of JNull \<Rightarrow> [] | JObj kvs \<Rightarrow> kvs | _ \<Rightarrow> js_entries j)"

text \<open>
  The section with its defaults. After the spread no default module is \<open>undefined\<close>, so the loop
  that sets those adds nothing.
\<close>

definition merge_section :: "sidebar_json \<Rightarrow> string \<times> json \<Rightarrow> sidebar_json" where
  "merge_section merged entry = (case entry of (sectionKey, defaultSection) \<Rightarrow>
     (case map_of merged sectionKey of
        None \<Rightarrow> obj_set sectionKey defaultSection merged
      | Some existingSection \<Rightarrow>
          if falsy existingSection then obj_set sectionKey defaultSection merged
          else obj_set sectionKey (JObj (obj_spread (own_props defaultSection) (own_props existingSection))) merged))"

definition mergeWithDefaultSidebarModules :: "json \<Rightarrow> sidebar_json" where
  "mergeWithDefaultSidebarModules config = foldl merge_section (own_props config) DEFAULT_SIDEBAR_MODULES"

definition URL_TO_CONFIG_MAP :: "(string \<times> string \<times> string) list" where
  "URL_TO_CONFIG_MAP =
     [(''/playground'', ''chat'', ''playground''),
      (''/dashboard'', ''console'', ''detail''),
      (''/dashboard/overview'', ''console'', ''detail''),
      (''/dashboard/models'', ''console'', ''detail''),
      (''/dashboard/users'', ''console'', ''detail''),
      (''/keys'', ''console'', ''token''),
      (''/usage-logs'', ''console'', ''log''),
      (''/usage-logs/common'', ''console'', ''log''),
      (''/usage-logs/drawing'', ''console'', ''midjourney''),
      (''/usage-logs/task'', ''console'', ''task''),
      (''/wallet'', ''personal'', ''topup''),
      (''/profile'', ''personal'', ''personal''),
      (''/channels'', ''admin'', ''channel''),
      (''/models'', ''admin'', ''models''),
      (''/models/metadata'', ''admin'', ''models''),
      (''/models/deployments'', ''admin'', ''models''),
      (''/users'', ''admin'', ''user''),
      (''/redemption-codes'', ''admin'', ''redemption''),
      (''/subscriptions'', ''admin'', ''subscription''),
      (''/system-settings'', ''admin'', ''setting''),
      (''/system-settings/site'', ''admin'', ''setting'')]"

definition parseSidebarConfig :: "string option \<Rightarrow> sidebar_json" where
  "parseSidebarConfig value =
     (if nullish value [] = [] \<or> trim (nullish value []) = [] then DEFAULT_SIDEBAR_MODULES
      else (case JSON_parse (nullish value []) of
              None \<Rightarrow> DEFAULT_SIDEBAR_MODULES
            | Some parsed \<Rightarrow> mergeWithDefaultSidebarModules parsed))"

definition parseUserSidebarConfig :: "string option \<Rightarrow> json option" where
  "parseUserSidebarConfig value =
     (if nullish value [] = [] \<or> trim (nullish value []) = [] then None
      else (case JSON_parse (nullish value []) of
              None \<Rightarrow> None
            | Some parsed \<Rightarrow> if is_object parsed then Some parsed else None))"

text \<open>The two layers for one module of one section.\<close>

definition admin_allows :: "sidebar_json \<Rightarrow> string \<Rightarrow> string \<Rightarrow> bool" where
  "admin_allows adminConfig section moduleKey = (case map_of adminConfig section of
      None \<Rightarrow> False
    | Some adminSection \<Rightarrow> \<not> falsy adminSection \<and>
        (case get_prop ''enabled'' adminSection of None \<Rightarrow> False | Some e \<Rightarrow> \<not> falsy e) \<and>
        get_prop moduleKey adminSection = Some (JBool True))"

definition user_allows :: "json option \<Rightarrow> string \<Rightarrow> string \<Rightarrow> bool" where
  "user_allows userConfig section moduleKey = (case userConfig of
      None \<Rightarrow> True
    | Some u \<Rightarrow> (case get_prop section u of
          None \<Rightarrow> True
        | Some userSection \<Rightarrow>
            if falsy userSection then True
            else if get_prop ''enabled'' userSection = Some (JBool False) then False
            else get_prop moduleKey userSection \<noteq> Some (JBool False)))"

definition isModuleEnabled :: "string \<Rightarrow> sidebar_json \<Rightarrow> json option \<Rightarrow> bool" where
  "isModuleEnabled url adminConfig userConfig = (case map_of URL_TO_CONFIG_MAP url of
      None \<Rightarrow> True
    | Some (section, moduleKey) \<Rightarrow>
        if \<not> admin_allows adminConfig section moduleKey then False
        else user_allows userConfig section moduleKey)"

definition isNavItemVisible :: "NavItem \<Rightarrow> sidebar_json \<Rightarrow> json option \<Rightarrow> bool" where
  "isNavItemVisible item adminConfig userConfig = (case item of
      NavChatPresets base \<Rightarrow>
        if \<not> admin_allows adminConfig ''chat'' ''chat'' then False
        else user_allows userConfig ''chat'' ''chat''
    | NavLink base url \<Rightarrow>
        if url = [] then True
        else list_ex (\<lambda>u. isModuleEnabled u adminConfig userConfig) (nullish (nb_configUrls base) [url])
    | NavCollapsible base items \<Rightarrow>
        list_ex (\<lambda>(_, url). isModuleEnabled url adminConfig userConfig) items)"

definition filterNavItems :: "NavItem list \<Rightarrow> sidebar_json \<Rightarrow> json option \<Rightarrow> NavItem list" where
  "filterNavItems items adminConfig userConfig =
     filter (\<lambda>item. isNavItemVisible item adminConfig userConfig)
       (map (\<lambda>item. case item of
           NavCollapsible base subItems \<Rightarrow>
             NavCollapsible base (filter (\<lambda>(_, url). isModuleEnabled url adminConfig userConfig) subItems)
         | _ \<Rightarrow> item) items)"

text \<open>The user as the hook reads it: whether the sidebar may be configured, and the saved choice.\<close>

definition user_overlay :: "bool option \<Rightarrow> string option \<Rightarrow> json option" where
  "user_overlay sidebar_settings sidebar_modules =
     (if sidebar_settings = Some False then None else parseUserSidebarConfig sidebar_modules)"

definition useSidebarConfig ::
  "NavGroup list \<Rightarrow> string option \<Rightarrow> bool option \<Rightarrow> string option \<Rightarrow> NavGroup list" where
  "useSidebarConfig navGroups sidebarModulesAdmin sidebar_settings sidebar_modules =
     (let adminConfig = parseSidebarConfig sidebarModulesAdmin;
          userConfig = user_overlay sidebar_settings sidebar_modules
      in filter (\<lambda>g. 0 < length (ng_items g))
           (map (\<lambda>g. g\<lparr>ng_items := filterNavItems (ng_items g) adminConfig userConfig\<rparr>) navGroups))"

definition useIsSidebarModuleVisible :: "string \<Rightarrow> string option \<Rightarrow> bool option \<Rightarrow> string option \<Rightarrow> bool" where
  "useIsSidebarModuleVisible url sidebarModulesAdmin sidebar_settings sidebar_modules =
     isModuleEnabled url (parseSidebarConfig sidebarModulesAdmin) (user_overlay sidebar_settings sidebar_modules)"

section \<open>Reading back what was written\<close>

lemma sort_key_map_values:
  fixes f :: "'k \<Rightarrow> 'l :: linorder"
  shows "sort_key (\<lambda>(k, _). f k) (map (\<lambda>(k, v). (k, g v)) xs) = map (\<lambda>(k, v). (k, g v)) (sort_key (\<lambda>(k, _). f k) xs)"
proof (induction xs)
  case (Cons x xs)
  have "insort_key (\<lambda>(k, _). f k) (fst y, g (snd y)) (map (\<lambda>(k, v). (k, g v)) ys) =
      map (\<lambda>(k, v). (k, g v)) (insort_key (\<lambda>(k, _). f k) y ys)" for y ys
    by (induction ys) (auto split: prod.splits)
  from this [of x] show ?case using Cons by (simp add: case_prod_unfold)
qed simp

lemma Object_entries_map:
  fixes g :: "'a \<Rightarrow> 'b"
  shows "Object_entries (map (\<lambda>(k, v). (k, g v)) xs) = map (\<lambda>(k, v). (k, g v)) (Object_entries xs)"
proof -
  have "filter (\<lambda>(k, _). P k) (map (\<lambda>(k, v). (k, g v)) ys) = map (\<lambda>(k, v). (k, g v)) (filter (\<lambda>(k, _). P k) ys)"
    for P :: "string \<Rightarrow> bool" and ys :: "(string \<times> 'a) list"
    by (induction ys) auto
  then show ?thesis by (simp add: Object_entries_def sort_key_map_values)
qed

lemma map_of_same: "distinct (map fst xs) \<Longrightarrow> distinct (map fst ys) \<Longrightarrow> set xs = set ys \<Longrightarrow> map_of xs = map_of ys"
  by (rule ext) (metis map_of_eq_Some_iff not_None_eq)

text \<open>A loop that stores every entry as it was before it was written.\<close>

lemma fold_entries:
  assumes "\<And>k v r. (k, v) \<in> set vs \<Longrightarrow> f r (k, enc v) = obj_set k v r"
  shows "foldl f r (map (\<lambda>(k, v). (k, enc v)) vs) = obj_spread r vs"
  using assms unfolding obj_spread_def by (induction vs arbitrary: r) (auto split: prod.splits)

lemma spread_over:
  assumes "distinct (map fst vs)" "dom (map_of r) \<subseteq> dom (map_of vs)"
  shows "map_of (obj_spread r vs) = map_of vs"
  using assms by (auto simp: map_of_obj_spread map_of_rev map_add_def fun_eq_iff split: option.splits)

lemma printable_values:
  "distinct (map fst kvs) \<Longrightarrow> (\<And>k v. (k, v) \<in> set kvs \<Longrightarrow> printable (enc v)) \<Longrightarrow>
    printable (JObj (map (\<lambda>(k, v). (k, enc v)) kvs))"
  by (auto simp: list_all_iff comp_def case_prod_unfold)

subsection \<open>Header modules\<close>

lemma printable_nav: "nav_wf c \<Longrightarrow> printable (JObj (map (\<lambda>(k, v). (k, enc_nav_value v)) (Object_entries c)))"
  by (rule printable_values) (auto simp: nav_wf_def enc_nav_value_def enc_access_def split: NavValue.split)

lemma nav_wf_typed:
  "nav_wf c \<Longrightarrow> (k, v) \<in> set c \<Longrightarrow> k \<noteq> ''__proto__'' \<and>
    (case v of Flag _ \<Rightarrow> k \<noteq> ''pricing'' \<and> k \<noteq> ''rankings'' | Access _ \<Rightarrow> k = ''pricing'' \<or> k = ''rankings'')"
  by (force simp: nav_wf_def list_all_iff)

lemma parse_written_access:
  "parseAccess (enc_access a) f = a" "parseAccessModule (enc_access a) f = a"
  by (simp_all add: parseAccess_def parseAccessModule_def enc_access_def parseHeaderNavBoolean_def toBoolean_def)

lemma written_entry:
  assumes "nav_wf c" "(k, v) \<in> set c"
  shows "nav_entry r (k, enc_nav_value v) = obj_set k v r" "settings_entry r (k, enc_nav_value v) = obj_set k v r"
  using nav_wf_typed [OF assms]
  by (auto simp: nav_entry_def settings_entry_def enc_nav_value_def parse_written_access is_scalar_def
      parseHeaderNavBoolean_def split: NavValue.splits)

lemma nav_entries:
  fixes c :: HeaderNavModules
  assumes "nav_wf c"
  defines "vs \<equiv> Object_entries (Object_entries c)"
  shows "js_entries (JObj (map (\<lambda>(k, v). (k, enc_nav_value v)) (Object_entries c))) = map (\<lambda>(k, v). (k, enc_nav_value v)) vs"
    "set vs = set c" "distinct (map fst vs)" "map_of vs = map_of c"
  using assms by (auto simp: js_entries_def Object_entries_map nav_wf_def map_of_Object_entries)

lemma defaults_covered: "nav_wf c \<Longrightarrow> dom (map_of DEFAULT_HEADER_NAV_MODULES) \<subseteq> dom (map_of c)"
  unfolding dom_map_of_conv_image_fst by (auto simp: nav_wf_def list_all_iff)

lemma same_nav_defaults: "HEADER_NAV_DEFAULT = DEFAULT_HEADER_NAV_MODULES"
  by (simp add: HEADER_NAV_DEFAULT_def DEFAULT_HEADER_NAV_MODULES_def public_access_def)

lemma written_parses:
  assumes "nav_wf c"
  shows "JSON_parse (serializeHeaderNavModules c) =
      Some (JObj (map (\<lambda>(k, v). (k, enc_nav_value v)) (Object_entries c)))"
    "serializeHeaderNavModules c \<noteq> []" "trim (serializeHeaderNavModules c) \<noteq> []"
proof -
  show "JSON_parse (serializeHeaderNavModules c) =
      Some (JObj (map (\<lambda>(k, v). (k, enc_nav_value v)) (Object_entries c)))"
    unfolding serializeHeaderNavModules_def by (rule js_json.parse_stringify) (rule printable_nav [OF assms])
  have "\<exists>r. JSON_stringify (JObj kvs) = CHR ''{'' # r" for kvs
    by (cases kvs rule: s_members.cases) (auto simp: JSON_stringify_def)
  then obtain r where "serializeHeaderNavModules c = CHR ''{'' # r" unfolding serializeHeaderNavModules_def by blast
  then show "serializeHeaderNavModules c \<noteq> []" "trim (serializeHeaderNavModules c) \<noteq> []"
    by (simp_all add: trim_by_eq_Nil_iff is_space_def is_space_unit_def)
qed

lemma header_round_trip:
  assumes "nav_wf c"
  shows "map_of (parseHeaderNavModules (Some (JStr (serializeHeaderNavModules c)))) = map_of c"
    "map_of (parseHeaderNavModules_settings (Some (serializeHeaderNavModules c))) = map_of c"
proof -
  let ?vs = "Object_entries (Object_entries c)"
  note e = nav_entries [OF assms] written_parses [OF assms]
  have spread: "map_of (obj_spread DEFAULT_HEADER_NAV_MODULES ?vs) = map_of c"
    using spread_over [OF e(3), of DEFAULT_HEADER_NAV_MODULES] defaults_covered [OF assms] e(4) by simp
  have "foldl nav_entry DEFAULT_HEADER_NAV_MODULES (map (\<lambda>(k, v). (k, enc_nav_value v)) ?vs) =
      obj_spread DEFAULT_HEADER_NAV_MODULES ?vs"
    "foldl settings_entry DEFAULT_HEADER_NAV_MODULES (map (\<lambda>(k, v). (k, enc_nav_value v)) ?vs) =
      obj_spread DEFAULT_HEADER_NAV_MODULES ?vs"
    using written_entry [OF assms] e(2) by (auto intro!: fold_entries)
  then show "map_of (parseHeaderNavModules (Some (JStr (serializeHeaderNavModules c)))) = map_of c"
    "map_of (parseHeaderNavModules_settings (Some (serializeHeaderNavModules c))) = map_of c"
    using e spread by (simp_all add: parseHeaderNavModules_def parseHeaderNavRecord_def falsy_def
        parseHeaderNavModules_settings_def same_nav_defaults)
qed

subsection \<open>Sidebar modules\<close>

definition flag :: "SidebarModulesAdminConfig \<Rightarrow> string \<Rightarrow> string \<Rightarrow> bool option" where
  "flag c s m = Option.bind (map_of c s) (\<lambda>sec. map_of sec m)"

definition section_wf :: "SidebarSectionConfig \<Rightarrow> bool" where
  "section_wf sec \<longleftrightarrow> distinct (map fst sec) \<and> ''enabled'' \<in> fst ` set sec \<and> ''__proto__'' \<notin> fst ` set sec"

definition sidebar_wf :: "SidebarModulesAdminConfig \<Rightarrow> bool" where
  "sidebar_wf c \<longleftrightarrow> distinct (map fst c) \<and> ''__proto__'' \<notin> fst ` set c \<and> list_all (\<lambda>(_, sec). section_wf sec) c \<and>
     list_all (\<lambda>(s, d). case map_of c s of None \<Rightarrow> False | Some sec \<Rightarrow> fst ` set d \<subseteq> fst ` set sec) SIDEBAR_MODULES_DEFAULT"

lemma map_of_without: "map_of (filter (\<lambda>(k, _). k \<noteq> K) vs) = (map_of vs)(K := None)"
  by (induction vs) (auto simp: fun_eq_iff)

lemma section_entries:
  assumes "section_wf sec"
  shows "js_entries (enc_section sec) = map (\<lambda>(m, b). (m, JBool b)) (Object_entries (Object_entries sec))"
    "map_of (Object_entries (Object_entries sec)) = map_of sec"
    "distinct (map fst (Object_entries (Object_entries sec)))"
    "get_prop m (enc_section sec) = map_option JBool (map_of sec m)"
  using assms
  by (auto simp: js_entries_def enc_section_def Object_entries_map section_wf_def map_of_Object_entries get_prop_def
      map_of_map)

lemma section_modules_written:
  assumes "section_wf sec"
  shows "map_of (section_modules d (enc_section sec)) = map_of sec"
proof -
  let ?vs = "Object_entries (Object_entries sec)"
  let ?g = "\<lambda>sectionConfig (moduleKey, moduleValue).
      if moduleKey = ''enabled'' \<or> moduleKey = ''__proto__'' then sectionConfig
      else obj_set moduleKey (toBoolean (Some moduleValue) (nullish (map_of d moduleKey) True)) sectionConfig"
  have fold: "map_of (foldl ?g r (map (\<lambda>(m, b). (m, JBool b)) vs)) =
      map_of r ++ map_of (rev (filter (\<lambda>(m, _). m \<noteq> ''enabled'') vs))"
    if "''__proto__'' \<notin> fst ` set vs" for vs :: SidebarSectionConfig and r
    using that by (induction vs arbitrary: r) (auto simp: toBoolean_def map_add_assoc [symmetric])
  obtain e where e: "map_of sec ''enabled'' = Some e"
    using assms by (metis domD dom_map_of_conv_image_fst section_wf_def)
  have "''__proto__'' \<notin> fst ` set ?vs" using assms by (simp add: section_wf_def)
  moreover have "distinct (map fst (filter (\<lambda>(m, _). m \<noteq> ''enabled'') ?vs))"
    using section_entries(3) [OF assms] by (simp add: distinct_map_filter)
  then have "map_of (rev (filter (\<lambda>(m, _). m \<noteq> ''enabled'') ?vs)) = (map_of sec)(''enabled'' := None)"
    using section_entries(2) [OF assms] by (simp add: map_of_rev map_of_without)
  ultimately have "map_of (section_modules d (enc_section sec)) = [''enabled'' \<mapsto> e] ++ (map_of sec)(''enabled'' := None)"
    unfolding section_modules_def section_entries(1) [OF assms]
    using e by (simp add: fold section_entries(4) [OF assms] toBoolean_def)
  then show ?thesis using e by (auto simp: map_add_def fun_eq_iff split: option.splits)
qed

lemma sidebar_wf_section: "sidebar_wf c \<Longrightarrow> map_of c s = Some sec \<Longrightarrow> section_wf sec"
  by (auto simp: sidebar_wf_def list_all_iff dest!: map_of_SomeD)

lemma sidebar_wf_default:
  "sidebar_wf c \<Longrightarrow> (s, d) \<in> set SIDEBAR_MODULES_DEFAULT \<Longrightarrow> m \<in> fst ` set d \<Longrightarrow>
    \<exists>sec b. map_of c s = Some sec \<and> section_wf sec \<and> map_of sec m = Some b"
proof -
  assume wf: "sidebar_wf c" and d: "(s, d) \<in> set SIDEBAR_MODULES_DEFAULT" "m \<in> fst ` set d"
  then obtain sec where sec: "map_of c s = Some sec" "fst ` set d \<subseteq> fst ` set sec"
    by (auto simp: sidebar_wf_def list_all_iff split: option.splits)
  then have "m \<in> dom (map_of sec)" using d by (auto simp: dom_map_of_conv_image_fst)
  then show ?thesis using sec sidebar_wf_section [OF wf sec(1)] by auto
qed

lemma sidebar_entries:
  assumes "sidebar_wf c"
  shows "js_entries (enc_sidebar c) = map (\<lambda>(s, sec). (s, enc_section sec)) (Object_entries (Object_entries c))"
    "map_of (Object_entries (Object_entries c)) = map_of c"
    "distinct (map fst (Object_entries (Object_entries c)))"
    "get_prop s (enc_sidebar c) = map_option enc_section (map_of c s)"
  using assms
  by (auto simp: js_entries_def enc_sidebar_def Object_entries_map sidebar_wf_def map_of_Object_entries get_prop_def
      map_of_map)

lemma sidebar_written:
  assumes "sidebar_wf c"
  shows "JSON_parse (serializeSidebarModulesAdmin c) = Some (enc_sidebar c)"
    "serializeSidebarModulesAdmin c \<noteq> []" "trim (serializeSidebarModulesAdmin c) \<noteq> []"
proof -
  have "printable (enc_section sec)" if "section_wf sec" for sec
    unfolding enc_section_def using that by (intro printable_values) (auto simp: section_wf_def)
  then have "printable (enc_sidebar c)"
    unfolding enc_sidebar_def using assms by (intro printable_values) (auto simp: sidebar_wf_def list_all_iff)
  then show "JSON_parse (serializeSidebarModulesAdmin c) = Some (enc_sidebar c)"
    unfolding serializeSidebarModulesAdmin_def by (rule js_json.parse_stringify)
  have "\<exists>r. JSON_stringify (JObj kvs) = CHR ''{'' # r" for kvs
    by (cases kvs rule: s_members.cases) (auto simp: JSON_stringify_def)
  then obtain r where "serializeSidebarModulesAdmin c = CHR ''{'' # r"
    unfolding serializeSidebarModulesAdmin_def enc_sidebar_def by blast
  then show "serializeSidebarModulesAdmin c \<noteq> []" "trim (serializeSidebarModulesAdmin c) \<noteq> []"
    by (simp_all add: trim_by_eq_Nil_iff is_space_def is_space_unit_def)
qed

lemma parsed_sections_written:
  assumes "sidebar_wf c"
  shows "map_of (parsed_sections (enc_sidebar c)) s =
    map_option (\<lambda>sec. section_modules (nullish (map_of SIDEBAR_MODULES_DEFAULT s) [(''enabled'', True)]) (enc_section sec))
      (map_of c s)"
proof -
  let ?cs = "Object_entries (Object_entries c)"
  let ?sm = "\<lambda>s sec. section_modules (nullish (map_of SIDEBAR_MODULES_DEFAULT s) [(''enabled'', True)]) (enc_section sec)"
  let ?g = "\<lambda>result (sectionKey, raw). if \<not> is_object raw \<or> sectionKey = ''__proto__'' then result
      else obj_set sectionKey (section_modules (nullish (map_of SIDEBAR_MODULES_DEFAULT sectionKey) [(''enabled'', True)]) raw) result"
  have fold: "foldl ?g r (map (\<lambda>(s, sec). (s, enc_section sec)) vs) = obj_spread r (map (\<lambda>(s, sec). (s, ?sm s sec)) vs)"
    if "''__proto__'' \<notin> fst ` set vs" for vs r
    using that unfolding obj_spread_def
    by (induction vs arbitrary: r) (auto simp: is_object_def enc_section_def)
  have "''__proto__'' \<notin> fst ` set ?cs" using assms by (simp add: sidebar_wf_def)
  then have "parsed_sections (enc_sidebar c) = obj_spread [] (map (\<lambda>(s, sec). (s, ?sm s sec)) ?cs)"
    unfolding parsed_sections_def sidebar_entries(1) [OF assms] by (rule fold)
  moreover have "distinct (map fst (map (\<lambda>(s, sec). (s, ?sm s sec)) ?cs))"
    using sidebar_entries(3) [OF assms] by (simp add: comp_def case_prod_unfold)
  moreover have "map_of (map (\<lambda>(s, sec). (s, ?sm s sec)) vs) s = map_option (?sm s) (map_of vs s)" for vs
    by (induction vs) auto
  ultimately show ?thesis
    using spread_over [of "map (\<lambda>(s, sec). (s, ?sm s sec)) ?cs" "[]"] sidebar_entries(2) [OF assms] by simp
qed

lemma add_missing_present: "fst ` set d \<subseteq> dom (map_of sec) \<Longrightarrow> add_missing_modules sec d = sec"
  unfolding add_missing_modules_def by (induction d) auto

lemma sections_complete:
  assumes "\<And>s d. (s, d) \<in> set ds \<Longrightarrow> \<exists>sec. map_of r s = Some sec \<and> fst ` set d \<subseteq> dom (map_of sec)"
  shows "map_of (foldl add_missing_section r ds) = map_of r"
  using assms
proof (induction ds arbitrary: r)
  case (Cons e ds)
  obtain s d where e: "e = (s, d)" by (cases e)
  obtain sec where sec: "map_of r s = Some sec" "fst ` set d \<subseteq> dom (map_of sec)" using Cons.prems [of s d] e by auto
  then have "add_missing_section r e = obj_set s sec r" by (simp add: add_missing_section_def e add_missing_present)
  then have same: "map_of (add_missing_section r e) = map_of r" using sec(1) by (auto simp: fun_eq_iff)
  have "map_of (foldl add_missing_section (add_missing_section r e) ds) = map_of (add_missing_section r e)"
    using Cons.prems by (intro Cons.IH) (auto simp: same)
  then show ?case by (simp add: same)
qed simp

lemma settings_round_trip:
  assumes "sidebar_wf c"
  shows "flag (parseSidebarModulesAdmin (Some (serializeSidebarModulesAdmin c))) s m = flag c s m"
proof -
  let ?p = "parsed_sections (enc_sidebar c)"
  have flags: "flag ?p s m = flag c s m" for s m
    using section_modules_written sidebar_wf_section [OF assms]
    by (cases "map_of c s") (simp_all add: flag_def parsed_sections_written [OF assms])
  have "map_of (foldl add_missing_section ?p SIDEBAR_MODULES_DEFAULT) = map_of ?p"
  proof (rule sections_complete)
    fix s d assume d: "(s, d) \<in> set SIDEBAR_MODULES_DEFAULT"
    then have "d \<noteq> []" by (auto simp: SIDEBAR_MODULES_DEFAULT_def)
    then obtain sec where sec: "map_of c s = Some sec"
      using sidebar_wf_default [OF assms d] by (metis image_eqI list.set_sel(1))
    have "fst ` set d \<subseteq> dom (map_of sec)" using sidebar_wf_default [OF assms d] sec by auto
    then show "\<exists>sec. map_of ?p s = Some sec \<and> fst ` set d \<subseteq> dom (map_of sec)"
      using section_modules_written [OF sidebar_wf_section [OF assms sec]]
      by (simp add: parsed_sections_written [OF assms] sec)
  qed
  then show ?thesis
    using flags [of s m] sidebar_written [OF assms]
    by (simp add: parseSidebarModulesAdmin_def flag_def enc_sidebar_def)
qed

text \<open>The merge of the sidebar, section by section.\<close>

definition merged_value :: "json option \<Rightarrow> json \<Rightarrow> json" where
  "merged_value existing d = (case existing of None \<Rightarrow> d | Some e \<Rightarrow>
     if falsy e then d else JObj (obj_spread (own_props d) (own_props e)))"

lemma merge_sections:
  "distinct (map fst ds) \<Longrightarrow> map_of (foldl merge_section r ds) s =
    (case map_of ds s of None \<Rightarrow> map_of r s | Some d \<Rightarrow> Some (merged_value (map_of r s) d))"
proof (induction ds arbitrary: r)
  case (Cons e ds)
  obtain k d where e: "e = (k, d)" by (cases e)
  have step: "map_of (merge_section r e) = (map_of r)(k \<mapsto> merged_value (map_of r k) d)"
    by (auto simp: merge_section_def e merged_value_def split: option.split)
  have "k \<notin> fst ` set ds" using Cons.prems by (simp add: e)
  then have "map_of ds k = None" by (simp add: map_of_eq_None_iff)
  then show ?case using Cons.prems by (auto simp: Cons.IH step [unfolded e] e split: option.splits)
qed simp

lemma default_tables_agree:
  "DEFAULT_SIDEBAR_MODULES = map (\<lambda>(s, d). (s, JObj (map (\<lambda>(m, b). (m, JBool b)) d))) SIDEBAR_MODULES_DEFAULT"
  by (simp add: DEFAULT_SIDEBAR_MODULES_def SIDEBAR_MODULES_DEFAULT_def)

lemma default_keys_distinct: "distinct (map fst DEFAULT_SIDEBAR_MODULES)"
  by (simp add: DEFAULT_SIDEBAR_MODULES_def)

lemma sidebar_reads:
  assumes "sidebar_wf c" "(s, d) \<in> set SIDEBAR_MODULES_DEFAULT" "m \<in> fst ` set d"
  shows "admin_allows (parseSidebarConfig (Some (serializeSidebarModulesAdmin c))) s m \<longleftrightarrow>
    flag c s ''enabled'' = Some True \<and> flag c s m = Some True"
proof -
  obtain sec b where sec: "map_of c s = Some sec" "section_wf sec" "map_of sec m = Some b"
    using sidebar_wf_default [OF assms] by blast
  obtain e where e: "map_of sec ''enabled'' = Some e"
    using sec(2) by (metis domD dom_map_of_conv_image_fst section_wf_def)
  let ?d = "JObj (map (\<lambda>(m, b). (m, JBool b)) d)" let ?es = "map (\<lambda>(m, b). (m, JBool b)) (Object_entries sec)"
  have "distinct (map fst SIDEBAR_MODULES_DEFAULT)" by (simp add: SIDEBAR_MODULES_DEFAULT_def)
  then have "map_of DEFAULT_SIDEBAR_MODULES s = Some ?d"
    using assms(2) by (simp add: default_tables_agree map_of_map map_of_eq_Some_iff)
  moreover have "map_of (own_props (enc_sidebar c)) s = Some (enc_section sec)"
    using sidebar_entries(4) [OF assms(1), of s] sec(1) by (simp add: own_props_def enc_sidebar_def get_prop_def)
  ultimately have "map_of (parseSidebarConfig (Some (serializeSidebarModulesAdmin c))) s =
      Some (merged_value (Some (enc_section sec)) ?d)"
    using sidebar_written [OF assms(1)] default_keys_distinct
    by (simp add: parseSidebarConfig_def mergeWithDefaultSidebarModules_def merge_sections)
  also have "merged_value (Some (enc_section sec)) ?d = JObj (obj_spread (map (\<lambda>(m, b). (m, JBool b)) d) ?es)"
    by (simp add: merged_value_def falsy_def enc_section_def own_props_def)
  finally have ad: "map_of (parseSidebarConfig (Some (serializeSidebarModulesAdmin c))) s =
      Some (JObj (obj_spread (map (\<lambda>(m, b). (m, JBool b)) d) ?es))" .
  have "distinct (map fst ?es)" using sec(2) by (simp add: section_wf_def comp_def case_prod_unfold)
  then have "map_of (obj_spread (map (\<lambda>(m, b). (m, JBool b)) d) ?es) k = Some (JBool x)" if "map_of sec k = Some x" for k x
    using that sec(2) by (simp add: map_of_obj_spread map_of_rev map_of_map map_of_Object_entries section_wf_def)
  from this [OF sec(3)] this [OF e] show ?thesis
    using e sec by (auto simp: admin_allows_def ad get_prop_def falsy_def flag_def)
qed

lemma guard_reads:
  assumes "sidebar_wf c" "(s, d) \<in> set SIDEBAR_MODULES_DEFAULT" "m \<in> fst ` set d"
    "getCachedStatus st = Some status"
    "get_prop ''SidebarModulesAdmin'' status = Some (JStr (serializeSidebarModulesAdmin c))"
  shows "isSidebarModuleEnabled st s m \<longleftrightarrow> flag c s ''enabled'' = Some True \<and> flag c s m = Some True"
proof -
  obtain sec b where sec: "map_of c s = Some sec" "section_wf sec" "map_of sec m = Some b"
    using sidebar_wf_default [OF assms(1-3)] by blast
  obtain e where e: "map_of sec ''enabled'' = Some e"
    using sec(2) by (metis domD dom_map_of_conv_image_fst section_wf_def)
  have "\<not> falsy (enc_section sec)" by (simp add: falsy_def enc_section_def)
  then show ?thesis
    using sidebar_written [OF assms(1)] sec e
    by (auto simp: isSidebarModuleEnabled_def assms falsy_def sidebar_entries(4) [OF assms(1)]
        section_entries(4) [OF sec(2)] flag_def)
qed

section \<open>Narrowing\<close>

lemma isModuleEnabled_layers:
  "isModuleEnabled url a u \<longleftrightarrow> isModuleEnabled url a None \<and>
    (case map_of URL_TO_CONFIG_MAP url of None \<Rightarrow> True | Some (s, m) \<Rightarrow> user_allows u s m)"
  by (auto simp: isModuleEnabled_def user_allows_def [of None] split: option.split)

lemma isModuleEnabled_narrows: "isModuleEnabled url a u \<Longrightarrow> isModuleEnabled url a None"
  using isModuleEnabled_layers by blast

definition item_links :: "NavItem \<Rightarrow> string list" where
  "item_links item = (case item of NavLink b url \<Rightarrow> [url] | NavCollapsible b subs \<Rightarrow> map snd subs | NavChatPresets b \<Rightarrow> [])"

definition nav_links :: "NavGroup list \<Rightarrow> string list" where
  "nav_links groups = concat (map (\<lambda>g. concat (map item_links (ng_items g))) groups)"

lemma subseq_filter_mono: "(\<And>x. P x \<Longrightarrow> Q x) \<Longrightarrow> subseq (filter P xs) (filter Q xs)"
  by (induction xs) auto

lemma subseq_concat: "(\<And>x. x \<in> set xs \<Longrightarrow> subseq (f x) (g x)) \<Longrightarrow> subseq (concat (map f xs)) (concat (map g xs))"
  by (induction xs) (auto intro: list_emb_append_mono)

text \<open>The links of one item after filtering; a hidden item has none.\<close>

definition shown_links :: "sidebar_json \<Rightarrow> json option \<Rightarrow> NavItem \<Rightarrow> string list" where
  "shown_links a u item = concat (map item_links (filterNavItems [item] a u))"

lemma links_filterNavItems: "concat (map item_links (filterNavItems items a u)) = concat (map (shown_links a u) items)"
  by (induction items) (simp_all add: filterNavItems_def shown_links_def)

lemma shown_links_narrow: "subseq (shown_links a u item) (shown_links a None item)"
proof (cases item)
  case (NavLink b url)
  then show ?thesis
    using isModuleEnabled_narrows
    by (auto simp: shown_links_def filterNavItems_def isNavItemVisible_def list_ex_iff item_links_def)
next
  case (NavCollapsible b subs)
  let ?f = "\<lambda>u. filter (\<lambda>(_, url). isModuleEnabled url a u) subs"
  have links: "shown_links a u item = map snd (?f u)" for u
    by (auto simp: NavCollapsible shown_links_def filterNavItems_def isNavItemVisible_def list_ex_iff item_links_def
        filter_empty_conv)
  have "subseq (?f u) (?f None)" using isModuleEnabled_narrows by (intro subseq_filter_mono) auto
  then show ?thesis unfolding links by (rule subseq_map)
qed (simp add: shown_links_def filterNavItems_def item_links_def)

lemma links_useSidebarConfig:
  "nav_links (useSidebarConfig groups admin settings modules) =
    concat (map (\<lambda>g. concat (map (shown_links (parseSidebarConfig admin) (user_overlay settings modules)) (ng_items g))) groups)"
proof -
  have "concat (map (\<lambda>g. concat (map item_links (ng_items g))) (filter (\<lambda>g. 0 < length (ng_items g)) gs)) =
      concat (map (\<lambda>g. concat (map item_links (ng_items g))) gs)" for gs :: "NavGroup list"
    by (induction gs) auto
  then show ?thesis
    by (simp add: nav_links_def useSidebarConfig_def Let_def comp_def links_filterNavItems)
qed

lemma collapsible_links_allowed:
  "NavCollapsible b subs \<in> set (filterNavItems items a u) \<Longrightarrow> subs \<noteq> [] \<and> list_all (\<lambda>(_, url). isModuleEnabled url a u) subs"
  by (auto simp: filterNavItems_def isNavItemVisible_def list_all_iff list_ex_iff split: NavItem.splits)

section \<open>Readers that disagree\<close>

text \<open>
  On values that the settings page does not write the readers differ: it takes 2 for false and the
  header for the default, and a module set to 1 is on for it and for the route guards but hidden in
  the sidebar.
\<close>

lemma number_readings: "toBoolean (Some (JNum 2)) True = False" "parseHeaderNavBoolean (Some (JNum 2)) True = True"
  by (simp_all add: toBoolean_def parseHeaderNavBoolean_def)

lemma module_one_readings:
  fixes raw defines "raw \<equiv> JObj [(''console'', JObj [(''token'', JNum 1)])]"
  shows "\<not> admin_allows (mergeWithDefaultSidebarModules raw) ''console'' ''token''"
    "flag (parsed_sections raw) ''console'' ''token'' = Some True"
  unfolding raw_def by code_simp+

section \<open>Properties\<close>

text \<open>
  C39: whatever the server sends as header modules, the result has the declared shape: every default
  module once, pricing and rankings as access records and every other module as a boolean. The
  access of a module is always read from it, and a failed request closes the module.\<close>

theorem header_modules_typed:
  "nav_wf (parseHeaderNavModules raw) \<and>
   map_of (parseHeaderNavModulesFromStatus status) (module_key m) = Some (Access (getModuleAccessFromStatus status m)) \<and>
   snd (getFreshModuleAccess fits st (Inl e) m) = \<lparr>ma_enabled = False, ma_requireAuth = True\<rparr>"
proof -
  have wf: "nav_wf (parseHeaderNavModules r)" for r
    by (auto simp: parseHeaderNavModules_def nav_wf_default nav_wf_fold split: option.split)
  have "\<exists>a. map_of r (module_key m) = Some (Access a)" if "nav_wf r" for r
  proof -
    have "module_key m \<in> dom (map_of r)"
      using defaults_covered [OF that] by (cases m) (auto simp: module_key_def DEFAULT_HEADER_NAV_MODULES_def)
    then obtain v where v: "map_of r (module_key m) = Some v" by auto
    then show ?thesis using nav_wf_typed [OF that map_of_SomeD [OF v]]
      by (cases m; cases v) (auto simp: module_key_def)
  qed
  from this [OF wf] obtain a where
    "map_of (parseHeaderNavModulesFromStatus status) (module_key m) = Some (Access a)"
    unfolding parseHeaderNavModulesFromStatus_def by blast
  then show ?thesis using wf by (simp add: getModuleAccessFromStatus_def getFreshModuleAccess_def)
qed

text \<open>
  C40: the header shows what the settings page saved. For every well-formed configuration, the
  header and the settings page read the saved text as that configuration.\<close>

theorem header_settings_round_trip:
  assumes "nav_wf c"
  shows "map_of (parseHeaderNavModules (Some (JStr (serializeHeaderNavModules c)))) = map_of c \<and>
    map_of (parseHeaderNavModules_settings (Some (serializeHeaderNavModules c))) = map_of c"
  using header_round_trip [OF assms] by simp

theorem header_settings_round_trip_witness:
  "map_of (parseHeaderNavModules (Some (JStr (serializeHeaderNavModules
     (obj_set ''docs'' (Flag False) DEFAULT_HEADER_NAV_MODULES))))) ''docs'' = Some (Flag False)"
proof -
  have "nav_wf (obj_set ''docs'' (Flag False) DEFAULT_HEADER_NAV_MODULES)" by code_simp
  from header_settings_round_trip [OF this] show ?thesis by simp
qed

text \<open>
  C37: a saved sidebar configuration has one meaning. The settings page reads back the flags it
  wrote, and for every module of the default table the sidebar and the route guards allow it exactly
  when its section and the module are on.\<close>

theorem sidebar_one_meaning:
  assumes "sidebar_wf c" "(s, d) \<in> set SIDEBAR_MODULES_DEFAULT" "m \<in> fst ` set d"
    "getCachedStatus st = Some status"
    "get_prop ''SidebarModulesAdmin'' status = Some (JStr (serializeSidebarModulesAdmin c))"
  shows "flag (parseSidebarModulesAdmin (Some (serializeSidebarModulesAdmin c))) s' m' = flag c s' m' \<and>
    admin_allows (parseSidebarConfig (Some (serializeSidebarModulesAdmin c))) s m =
      (flag c s ''enabled'' = Some True \<and> flag c s m = Some True) \<and>
    isSidebarModuleEnabled st s m = (flag c s ''enabled'' = Some True \<and> flag c s m = Some True)"
  using settings_round_trip [OF assms(1)] sidebar_reads [OF assms(1-3)] guard_reads [OF assms] by blast

definition example_sidebar :: SidebarModulesAdminConfig where
  "example_sidebar = obj_set ''chat'' [(''enabled'', True), (''playground'', False), (''chat'', True)] SIDEBAR_MODULES_DEFAULT"

theorem sidebar_one_meaning_witness:
  "\<exists>st. \<not> isSidebarModuleEnabled st ''chat'' ''playground'' \<and>
    \<not> admin_allows (parseSidebarConfig (Some (serializeSidebarModulesAdmin example_sidebar))) ''chat'' ''playground''"
proof -
  let ?status = "JObj [(''SidebarModulesAdmin'', JStr (serializeSidebarModulesAdmin example_sidebar))]"
  let ?st = "[''status'' \<mapsto> JSON_stringify ?status]"
  have "printable ?status" by simp
  then have "getCachedStatus ?st = Some ?status"
    using js_json.parse_stringify [of ?status] by (simp add: getCachedStatus_def getItem_def JSON_stringify_def)
  moreover have "sidebar_wf example_sidebar" by code_simp
  moreover have "(''chat'', [(''enabled'', True), (''playground'', True), (''chat'', True)]) \<in> set SIDEBAR_MODULES_DEFAULT"
    by (simp add: SIDEBAR_MODULES_DEFAULT_def)
  moreover have "flag example_sidebar ''chat'' ''playground'' = Some False" by code_simp
  ultimately show ?thesis
    using sidebar_one_meaning [of example_sidebar "''chat''" "[(''enabled'', True), (''playground'', True), (''chat'', True)]"
        "''playground''" ?st ?status] by (auto simp: get_prop_def)
qed

text \<open>
  C38: the choice of a user only narrows what the administrator allows. The links shown with it are
  a subsequence of those shown without it, a group is shown only with items, every sub-item shown
  is enabled in both layers, and a user who may not configure the sidebar sees the full view. An
  entry for the chat presets carries no link of its own and is not counted among the links.\<close>

theorem user_choice_narrows:
  "subseq (nav_links (useSidebarConfig groups admin settings modules))
     (nav_links (useSidebarConfig groups admin settings None)) \<and>
   list_all (\<lambda>g. 0 < length (ng_items g) \<and>
       list_all (\<lambda>item. case item of
           NavCollapsible b subs \<Rightarrow> 0 < length subs \<and>
             list_all (\<lambda>(_, url). useIsSidebarModuleVisible url admin settings modules) subs
         | _ \<Rightarrow> True) (ng_items g))
     (useSidebarConfig groups admin settings modules) \<and>
   useSidebarConfig groups admin (Some False) modules = useSidebarConfig groups admin settings None"
proof -
  have none: "user_overlay x None = None" for x by (simp add: user_overlay_def parseUserSidebarConfig_def)
  have "subseq (nav_links (useSidebarConfig groups admin settings modules))
      (nav_links (useSidebarConfig groups admin settings None))"
    unfolding links_useSidebarConfig none by (intro subseq_concat shown_links_narrow)
  moreover have "useSidebarConfig groups admin (Some False) modules = useSidebarConfig groups admin settings None"
    by (simp add: useSidebarConfig_def none) (simp add: user_overlay_def)
  ultimately show ?thesis
    using collapsible_links_allowed
    by (fastforce simp: list_all_iff useSidebarConfig_def Let_def useIsSidebarModuleVisible_def split: NavItem.split)
qed

end
