(* ===== verification/Regex.thy ===== *)
theory Regex
  imports Js_Prelude
begin

text \<open>
  Regular expressions of the language, as the billing expressions use them: literals, character
  classes, sequences, alternatives, greedy repetition, capturing groups, back references and the
  anchors. \<open>run\<close> gives every way a pattern can match at a position, in the order in which the
  backtracking matcher of the standard tries them, so the match is the first element. A position is
  the text before it (reversed), the text after it and the groups captured so far. The patterns of
  the code do not repeat a group, so a repetition need not reset groups.
\<close>

type_synonym rpos = "string \<times> string \<times> (nat \<times> string) list"

datatype regex =
    RChar "char \<Rightarrow> bool"
  | REmpty
  | RSeq regex regex
  | ROr regex regex
  | RStar regex
  | RGroup nat regex
  | RRef nat
  | RStart
  | REnd
  | RWord

section \<open>The matcher\<close>

definition remaining :: "rpos \<Rightarrow> nat" where
  "remaining s = length (fst (snd s))"

text \<open>
  Greedy repetition. A round that consumes nothing is refused, so the number of rounds is bounded
  by the length of the remaining text (\<open>star_bounds\<close>).
\<close>

primrec star :: "(rpos \<Rightarrow> rpos list) \<Rightarrow> nat \<Rightarrow> rpos \<Rightarrow> rpos list" where
  "star f 0 s = [s]"
| "star f (Suc n) s =
     concat (map (star f n) (filter (\<lambda>s'. remaining s' < remaining s) (f s))) @ [s]"

definition word_char :: "char \<Rightarrow> bool" where
  "word_char c \<longleftrightarrow> c \<in> set ''ABCDEFGHIJKLMNOPQRSTUVWXYZabcdefghijklmnopqrstuvwxyz0123456789_''"

definition word_at :: "string \<Rightarrow> bool" where
  "word_at s = (case s of [] \<Rightarrow> False | c # _ \<Rightarrow> word_char c)"

primrec run :: "regex \<Rightarrow> rpos \<Rightarrow> rpos list" where
  "run (RChar p) s = (case s of (b, cs, caps) \<Rightarrow>
     (case cs of [] \<Rightarrow> [] | c # cs' \<Rightarrow> if p c then [(c # b, cs', caps)] else []))"
| "run REmpty s = [s]"
| "run (RSeq r1 r2) s = concat (map (run r2) (run r1 s))"
| "run (ROr r1 r2) s = run r1 s @ run r2 s"
| "run (RStar r) s = star (run r) (remaining s) s"
| "run (RGroup n r) s =
     map (\<lambda>(b, cs, caps). (b, cs, (n, take (remaining s - length cs) (fst (snd s))) # caps)) (run r s)"
| "run (RRef n) s = (case s of (b, cs, caps) \<Rightarrow>
     (let w = nullish (map_of caps n) []
      in if prefix w cs then [(rev w @ b, drop (length w) cs, caps)] else []))"
| "run RStart s = (if fst s = [] then [s] else [])"
| "run REnd s = (if fst (snd s) = [] then [s] else [])"
| "run RWord s = (if word_at (fst s) \<noteq> word_at (fst (snd s)) then [s] else [])"

definition lit :: "string \<Rightarrow> regex" where
  "lit w = foldr (\<lambda>c r. RSeq (RChar ((=) c)) r) w REmpty"

definition rplus :: "regex \<Rightarrow> regex" where
  "rplus r = RSeq r (RStar r)"

definition ropt :: "regex \<Rightarrow> regex" where
  "ropt r = ROr r REmpty"

definition rseq :: "regex list \<Rightarrow> regex" where
  "rseq rs = foldr RSeq rs REmpty"

definition alts :: "string list \<Rightarrow> regex" where
  "alts ws = (case rev ws of [] \<Rightarrow> REmpty | w # ws' \<Rightarrow> foldr (\<lambda>u r. ROr (lit u) r) (rev ws') (lit w))"

text \<open>\<open>re.exec\<close>: the first position from which the pattern matches.\<close>

fun exec :: "regex \<Rightarrow> string \<Rightarrow> string \<Rightarrow> rpos option" where
  "exec r b cs =
     (case run r (b, cs, []) of
        s # _ \<Rightarrow> Some s
      | [] \<Rightarrow> (case cs of [] \<Rightarrow> None | c # cs' \<Rightarrow> exec r (c # b) cs'))"

declare exec.simps [simp del]

text \<open>\<open>text.match(re)\<close> without the global flag: the captured groups.\<close>

definition rmatch :: "regex \<Rightarrow> string \<Rightarrow> (nat \<times> string) list option" where
  "rmatch r s = map_option (\<lambda>(b, cs, caps). caps) (exec r [] s)"

definition rtest :: "regex \<Rightarrow> string \<Rightarrow> bool" where
  "rtest r s \<longleftrightarrow> exec r [] s \<noteq> None"

text \<open>
  The loop \<open>while ((m = re.exec(text)) !== null)\<close> of a global pattern. A match that consumes nothing
  makes the loop of the code run forever; here it is \<open>None\<close>.
\<close>

function exec_all :: "regex \<Rightarrow> string \<Rightarrow> string \<Rightarrow> (nat \<times> string) list list option" where
  "exec_all r b cs =
     (case exec r b cs of
        None \<Rightarrow> Some []
      | Some (b', cs', caps) \<Rightarrow>
          if length cs' < length cs then map_option ((#) caps) (exec_all r b' cs') else None)"
  by pat_completeness auto
termination by (relation "measure (\<lambda>(r, b, cs). length cs)") auto

declare exec_all.simps [simp del]

text \<open>
  \<open>text.split(re)\<close> and \<open>text.replace(re, word)\<close> with the global flag, for a pattern that consumes
  something: \<open>cur\<close> is the text since the last match.
\<close>

function split_at :: "regex \<Rightarrow> string \<Rightarrow> string \<Rightarrow> string \<Rightarrow> string list" where
  "split_at r b cur [] = [cur]"
| "split_at r b cur (c # cs) =
     (case run r (b, c # cs, []) of
        (b', cs', caps) # _ \<Rightarrow>
          if length cs' < length (c # cs) then cur # split_at r b' [] cs'
          else split_at r (c # b) (cur @ [c]) cs
      | [] \<Rightarrow> split_at r (c # b) (cur @ [c]) cs)"
  by pat_completeness auto
termination by (relation "measure (\<lambda>(r, b, cur, cs). length cs)") auto

definition rsplit :: "regex \<Rightarrow> string \<Rightarrow> string list" where
  "rsplit r s = split_at r [] [] s"

definition replace_re :: "regex \<Rightarrow> string \<Rightarrow> string \<Rightarrow> string" where
  "replace_re r w s = join w (rsplit r s)"

definition grp :: "nat \<Rightarrow> (nat \<times> string) list \<Rightarrow> string" where
  "grp n caps = nullish (map_of caps n) []"

section \<open>Evaluation\<close>

named_theorems rx \<open>evaluation of patterns\<close>

lemma remaining_simp [simp]: "remaining (b, cs, caps) = length cs"
  by (simp add: remaining_def)

lemma run_lit [rx]:
  "run (lit w) (b, cs, caps) = (if prefix w cs then [(rev w @ b, drop (length w) cs, caps)] else [])"
proof (induction w arbitrary: b cs)
  case (Cons c w)
  then show ?case by (cases cs) (auto simp: lit_def)
qed (simp add: lit_def)

text \<open>The number of rounds of a repetition does not matter once it reaches the remaining length.\<close>

lemma star_bounds: "remaining s \<le> n \<Longrightarrow> remaining s \<le> m \<Longrightarrow> star f n s = star f m s"
proof (induction n arbitrary: m s)
  case 0
  then show ?case by (cases m) simp_all
next
  case (Suc n)
  show ?case
  proof (cases m)
    case 0
    then show ?thesis using Suc.prems by simp
  next
    case (Suc m')
    have "map (star f n) (filter (\<lambda>s'. remaining s' < remaining s) (f s)) =
          map (star f m') (filter (\<lambda>s'. remaining s' < remaining s) (f s))"
      using Suc.prems Suc.IH Suc by (intro map_cong) auto
    then show ?thesis using Suc by (simp only: star.simps)
  qed
qed

lemma run_star_unfold:
  "run (RStar r) s =
     concat (map (run (RStar r)) (filter (\<lambda>s'. remaining s' < remaining s) (run r s))) @ [s]"
proof (cases "remaining s")
  case (Suc m)
  have "map (star (run r) m) (filter (\<lambda>s'. remaining s' < remaining s) (run r s)) =
      map (run (RStar r)) (filter (\<lambda>s'. remaining s' < remaining s) (run r s))"
    using Suc by (auto intro!: star_bounds)
  then show ?thesis using Suc by (simp only: run.simps(5) star.simps)
qed (simp del: star.simps add: star.simps(1))

text \<open>A repeated class takes as many characters as it can, and gives them back one by one.\<close>

lemma star_class_Cons:
  "run (RStar (RChar p)) (b, c # cs, caps) =
     (if p c then run (RStar (RChar p)) (c # b, cs, caps) else []) @ [(b, c # cs, caps)]"
  by simp

lemma star_class_Nil: "run (RStar (RChar p)) (b, [], caps) = [(b, [], caps)]"
  by simp

text \<open>After the longest run, every other way leaves a character of the class next.\<close>

lemma star_class_ways:
  "\<exists>ways. run (RStar (RChar p)) (b, cs, caps) = (rev (takeWhile p cs) @ b, dropWhile p cs, caps) # ways \<and>
     (\<forall>w\<in>set ways. \<exists>b' c cs'. w = (b', c # cs', caps) \<and> c \<in> set (takeWhile p cs))"
proof (induction cs arbitrary: b)
  case (Cons c cs)
  show ?case
  proof (cases "p c")
    case True
    obtain ways where w: "run (RStar (RChar p)) (c # b, cs, caps) =
        (rev (takeWhile p cs) @ c # b, dropWhile p cs, caps) # ways"
      "\<forall>w\<in>set ways. \<exists>b' c cs'. w = (b', c # cs', caps) \<and> c \<in> set (takeWhile p cs)" using Cons by blast
    then show ?thesis
      using True by (auto simp: star_class_Cons simp del: run.simps intro!: exI [of _ "ways @ [(b, c # cs, caps)]"])
  next
    case False
    then show ?thesis by (auto simp: star_class_Cons simp del: run.simps)
  qed
qed (simp add: star_class_Nil del: run.simps)

lemma star_class:
  "\<exists>ways. run (RStar (RChar p)) (b, cs, caps) = (rev (takeWhile p cs) @ b, dropWhile p cs, caps) # ways \<and>
     (\<forall>w\<in>set ways. \<exists>b' c cs'. w = (b', c # cs', caps) \<and> p c)"
  using star_class_ways [of p b cs caps] by (meson set_takeWhileD)

text \<open>Patterns that cannot start with a character of a class.\<close>

definition rejects :: "(char \<Rightarrow> bool) \<Rightarrow> regex \<Rightarrow> bool" where
  "rejects p r \<longleftrightarrow> (\<forall>b c cs caps. p c \<longrightarrow> run r (b, c # cs, caps) = [])"

lemma rejects_lit [rx]: "w \<noteq> [] \<Longrightarrow> rejects p (lit w) = (\<not> p (hd w))"
  by (cases w) (auto simp: rejects_def run_lit)

lemma rejects_char [rx]: "rejects p (RChar q) = (\<forall>c. p c \<longrightarrow> \<not> q c)"
  by (auto simp: rejects_def)

lemma rejects_end [rx]: "rejects p REnd"
  by (simp add: rejects_def)

lemma rejects_seq: "rejects p r1 \<Longrightarrow> rejects p (RSeq r1 r2)"
  by (simp add: rejects_def)

lemma rejects_or: "rejects p r1 \<Longrightarrow> rejects p r2 \<Longrightarrow> rejects p (ROr r1 r2)"
  by (simp add: rejects_def)

lemma rejects_group: "rejects p r \<Longrightarrow> rejects p (RGroup n r)"
  by (simp add: rejects_def)

lemma rejects_opt_seq: "rejects p r1 \<Longrightarrow> rejects p r2 \<Longrightarrow> rejects p (RSeq (ropt r1) r2)"
  by (simp add: rejects_def ropt_def)

lemma star_rejected: "rejects p r \<Longrightarrow> p c \<Longrightarrow> run (RStar r) (b, c # cs, caps) = [(b, c # cs, caps)]"
  by (simp add: rejects_def)

lemma rejects_star_seq: "rejects p r1 \<Longrightarrow> rejects p r2 \<Longrightarrow> rejects p (RSeq (RStar r1) r2)"
  by (simp add: rejects_def)

lemma seq_first:
  "run r s = x # ways \<Longrightarrow> (\<And>w. w \<in> set ways \<Longrightarrow> run r' w = []) \<Longrightarrow> run (RSeq r r') s = run r' x"
  by (auto simp: concat_eq_Nil_conv)

text \<open>A class followed by a pattern that rejects it is read in one way.\<close>

lemma run_star_seq [rx]:
  assumes "rejects p r"
  shows "run (RSeq (RStar (RChar p)) r) (b, cs, caps) =
    run r (rev (takeWhile p cs) @ b, dropWhile p cs, caps)"
proof -
  obtain ways where "run (RStar (RChar p)) (b, cs, caps) = (rev (takeWhile p cs) @ b, dropWhile p cs, caps) # ways"
    "\<forall>w\<in>set ways. \<exists>b' c cs'. w = (b', c # cs', caps) \<and> p c" using star_class by blast
  then show ?thesis using assms by (intro seq_first) (auto simp: rejects_def)
qed

lemma group_first_by:
  assumes "run r (b, cs, caps) = (b1, cs1, caps1) # ways" "\<And>w. w \<in> set ways \<Longrightarrow> P (fst (snd w))"
    "\<And>b t caps. P t \<Longrightarrow> run r' (b, t, caps) = []"
  shows "run (RSeq (RGroup n r) r') (b, cs, caps) = run r' (b1, cs1, (n, take (length cs - length cs1) cs) # caps1)"
proof (rule seq_first)
  let ?g = "\<lambda>(b, cs', caps). (b, cs', (n, take (length cs - length cs') cs) # caps)"
  show "run (RGroup n r) (b, cs, caps) = (b1, cs1, (n, take (length cs - length cs1) cs) # caps1) # map ?g ways"
    using assms(1) by simp
  show "run r' w = []" if w: "w \<in> set (map ?g ways)" for w
  proof -
    from w obtain b2 t caps2 where "(b2, t, caps2) \<in> set ways" "w = ?g (b2, t, caps2)" by auto
    then show ?thesis using assms(2) [of "(b2, t, caps2)"] assms(3) by simp
  qed
qed

lemma group_first:
  assumes "run r (b, cs, caps) = (b1, cs1, caps1) # ways"
    "\<forall>w\<in>set ways. \<exists>b' c cs'. w = (b', c # cs', caps) \<and> p c" "rejects p r'"
  shows "run (RSeq (RGroup n r) r') (b, cs, caps) =
    run r' (b1, cs1, (n, take (length cs - length cs1) cs) # caps1)"
  using assms(2,3) by (intro group_first_by [OF assms(1), of "\<lambda>t. \<exists>c cs'. t = c # cs' \<and> p c"])
    (auto simp: rejects_def)

lemma take_takeWhile: "take (length cs - length (dropWhile p cs)) cs = takeWhile p cs"
  by (metis add_diff_cancel_right' length_append takeWhile_dropWhile_id takeWhile_eq_take)

lemma run_star_group_seq [rx]:
  assumes "rejects p r"
  shows "run (RSeq (RGroup n (RStar (RChar p))) r) (b, cs, caps) =
    run r (rev (takeWhile p cs) @ b, dropWhile p cs, (n, takeWhile p cs) # caps)"
proof -
  obtain ways where w: "run (RStar (RChar p)) (b, cs, caps) = (rev (takeWhile p cs) @ b, dropWhile p cs, caps) # ways"
    "\<forall>w\<in>set ways. \<exists>b' c cs'. w = (b', c # cs', caps) \<and> p c" using star_class by blast
  from group_first [OF this assms] show ?thesis by (simp only: take_takeWhile)
qed

lemma plus_class_empty: "takeWhile p cs = [] \<Longrightarrow> run (rplus (RChar p)) (b, cs, caps) = []"
  by (cases cs) (auto simp: rplus_def split: if_splits)

lemma plus_class:
  assumes "takeWhile p cs \<noteq> []"
  shows "\<exists>ways. run (rplus (RChar p)) (b, cs, caps) = (rev (takeWhile p cs) @ b, dropWhile p cs, caps) # ways \<and>
     (\<forall>w\<in>set ways. \<exists>b' c cs'. w = (b', c # cs', caps) \<and> p c)"
proof -
  obtain c cs' where c: "cs = c # cs'" "p c" using assms by (cases cs) (auto split: if_splits)
  then have "run (rplus (RChar p)) (b, cs, caps) = run (RStar (RChar p)) (c # b, cs', caps)"
    by (simp add: rplus_def)
  then show ?thesis using star_class [of p "c # b" cs' caps] c by simp
qed

lemma run_plus_seq [rx]:
  assumes "rejects p r"
  shows "run (RSeq (rplus (RChar p)) r) (b, cs, caps) =
    (if takeWhile p cs = [] then [] else run r (rev (takeWhile p cs) @ b, dropWhile p cs, caps))"
proof (cases "takeWhile p cs = []")
  case False
  obtain ways where "run (rplus (RChar p)) (b, cs, caps) = (rev (takeWhile p cs) @ b, dropWhile p cs, caps) # ways"
    "\<forall>w\<in>set ways. \<exists>b' c cs'. w = (b', c # cs', caps) \<and> p c" using plus_class [OF False] by blast
  then have "run (RSeq (rplus (RChar p)) r) (b, cs, caps) = run r (rev (takeWhile p cs) @ b, dropWhile p cs, caps)"
    using assms by (intro seq_first) (auto simp: rejects_def)
  then show ?thesis using False by (simp only: if_False)
qed (simp add: plus_class_empty)

lemma run_plus_group_seq [rx]:
  assumes "rejects p r"
  shows "run (RSeq (RGroup n (rplus (RChar p))) r) (b, cs, caps) =
    (if takeWhile p cs = [] then []
     else run r (rev (takeWhile p cs) @ b, dropWhile p cs, (n, takeWhile p cs) # caps))"
proof (cases "takeWhile p cs = []")
  case False
  obtain ways where "run (rplus (RChar p)) (b, cs, caps) = (rev (takeWhile p cs) @ b, dropWhile p cs, caps) # ways"
    "\<forall>w\<in>set ways. \<exists>b' c cs'. w = (b', c # cs', caps) \<and> p c" using plus_class [OF False] by blast
  from group_first [OF this assms] False show ?thesis by (simp only: take_takeWhile if_False)
qed (simp add: plus_class_empty)

text \<open>
  The same when only the characters that were read are rejected: a pattern may go on with a
  character of the class that does not occur in them.
\<close>

lemma run_plus_group_word:
  assumes "list_all p w" "w \<noteq> []" "cs = [] \<or> \<not> p (hd cs)" "rejects (\<lambda>c. c \<in> set w) r"
  shows "run (RSeq (RGroup n (rplus (RChar p))) r) (b, w @ cs, caps) = run r (rev w @ b, cs, (n, w) # caps)"
proof -
  have t: "takeWhile p (w @ cs) = w" "dropWhile p (w @ cs) = cs"
    using assms(1,3) by (cases cs; auto simp: list_all_iff takeWhile_append dropWhile_append)+
  obtain c w' where w: "w = c # w'" using assms(2) by (cases w) auto
  have "p c" using assms(1) w by simp
  then have "run (rplus (RChar p)) (b, w @ cs, caps) = run (RStar (RChar p)) (c # b, w' @ cs, caps)"
    by (simp add: rplus_def w)
  moreover have t': "takeWhile p (w' @ cs) = w'" "dropWhile p (w' @ cs) = cs"
    using t \<open>p c\<close> by (simp_all add: w)
  ultimately obtain ways where "run (rplus (RChar p)) (b, w @ cs, caps) = (rev w @ b, cs, caps) # ways"
    "\<forall>x\<in>set ways. \<exists>b' c cs'. x = (b', c # cs', caps) \<and> c \<in> set w"
    using star_class_ways [of p "c # b" "w' @ cs" caps] by (fastforce simp: w)
  from group_first [OF this assms(4)] show ?thesis by simp
qed

section \<open>Patterns as lists\<close>

lemma run_rseq [simp]:
  "run (rseq []) s = [s]" "rseq (r # rs) = RSeq r (rseq rs)"
  by (simp_all add: rseq_def)

lemma run_seq_assoc [rx]:
  "run (RSeq (RSeq r1 r2) r3) s = run (RSeq r1 (RSeq r2 r3)) s" "run (RSeq (rseq []) r) s = run r s"
  "run (RSeq REmpty r) s = run r s"
proof -
  have "concat (map f (concat xss)) = concat (map (\<lambda>xs. concat (map f xs)) xss)" for f :: "rpos \<Rightarrow> rpos list" and xss
    by (induction xss) simp_all
  moreover have "run (RSeq r2 r3) = (\<lambda>x. concat (map (run r3) (run r2 x)))"
    by (rule ext) simp
  ultimately show "run (RSeq (RSeq r1 r2) r3) s = run (RSeq r1 (RSeq r2 r3)) s" by (simp add: comp_def)
qed (simp_all add: rseq_def)

lemma rejects_seq_assoc [rx]:
  "rejects p (RSeq (RSeq r1 r2) r3) = rejects p (RSeq r1 (RSeq r2 r3))" "rejects p (RSeq (rseq []) r) = rejects p r"
  by (simp_all only: rejects_def run_seq_assoc)

lemma run_opt_seq [rx]: "run (RSeq (ropt r1) r) s = run (RSeq r1 r) s @ run r s"
  by (simp add: ropt_def)

lemma concat_self: "(\<And>w. w \<in> set ws \<Longrightarrow> f w = [w]) \<Longrightarrow> concat (map f ws) = ws"
  by (induction ws) simp_all

lemma run_seq_empty: "run (RSeq r REmpty) s = run r s"
  by (simp add: concat_self)

lemma run_lit_seq [rx]:
  "run (RSeq (lit w) r) (b, cs, caps) =
     (if prefix w cs then run r (rev w @ b, drop (length w) cs, caps) else [])"
  by (simp add: run_lit)

lemma run_start_seq [rx]: "run (RSeq RStart r) (b, cs, caps) = (if b = [] then run r (b, cs, caps) else [])"
  by simp

lemma run_end_seq [rx]: "run (RSeq REnd r) (b, cs, caps) = (if cs = [] then run r (b, cs, caps) else [])"
  by simp

lemma run_char_seq [rx]:
  "run (RSeq (RChar p) r) (b, c # cs, caps) = (if p c then run r (c # b, cs, caps) else [])"
  "run (RSeq (RChar p) r) (b, [], caps) = []"
  by simp_all

lemma run_or_seq [rx]: "run (RSeq (ROr r1 r2) r) s = run (RSeq r1 r) s @ run (RSeq r2 r) s"
  by simp

lemma run_ref_seq [rx]:
  "run (RSeq (RRef n) r) (b, cs, caps) =
     (let w = nullish (map_of caps n) []
      in if prefix w cs then run r (rev w @ b, drop (length w) cs, caps) else [])"
  by (simp add: Let_def)

lemma run_group_lit_seq [rx]:
  "run (RSeq (RGroup n (lit w)) r) (b, cs, caps) =
     (if prefix w cs then run r (rev w @ b, drop (length w) cs, (n, w) # caps) else [])"
  by (auto simp: run_lit prefix_def)

lemma run_group_or_seq [rx]:
  "run (RSeq (RGroup n (ROr r1 r2)) r) s = run (RSeq (RGroup n r1) r) s @ run (RSeq (RGroup n r2) r) s"
  by simp

lemma alts_simps [rx]: "alts [w] = lit w" "alts (u # v # ws) = ROr (lit u) (alts (v # ws))"
proof -
  show "alts [w] = lit w" by (simp add: alts_def)
  obtain x xs where "rev (v # ws) = x # xs" by (cases "rev (v # ws)") auto
  then show "alts (u # v # ws) = ROr (lit u) (alts (v # ws))" by (auto simp: alts_def)
qed

text \<open>A choice among words of which only one lets the pattern go on\<close>

lemma run_alts_group_by:
  assumes "w \<in> set ws" "distinct ws"
    "\<And>u. u \<in> set ws \<Longrightarrow> u \<noteq> w \<Longrightarrow> prefix u cs \<Longrightarrow> run r (rev u @ b, drop (length u) cs, (n, u) # caps) = []"
    "prefix w cs"
  shows "run (RSeq (RGroup n (alts ws)) r) (b, cs, caps) = run r (rev w @ b, drop (length w) cs, (n, w) # caps)"
  using assms(1-3)
proof (induction ws)
  case (Cons u ws)
  have none: "run (RSeq (RGroup n (alts vs)) r) (b, cs, caps) = []"
    if "vs \<noteq> []" "w \<notin> set vs" "set vs \<subseteq> set (u # ws)" for vs
    using that
  proof (induction vs)
    case (Cons v vs)
    then show ?case
      using \<open>\<And>x. x \<in> set (u # ws) \<Longrightarrow> x \<noteq> w \<Longrightarrow> prefix x cs \<Longrightarrow> run r (rev x @ b, drop (length x) cs, (n, x) # caps) = []\<close>
      by (cases vs) (auto simp: alts_simps run_group_or_seq run_group_lit_seq simp del: run.simps)
  qed simp
  show ?case
  proof (cases "u = w")
    case True
    then show ?thesis using Cons.prems assms(4) none [of ws]
      by (cases ws) (auto simp: alts_simps run_group_or_seq run_group_lit_seq simp del: run.simps)
  next
    case False
    then obtain v vs where "ws = v # vs" using Cons.prems by (cases ws) auto
    then show ?thesis using Cons False
      by (auto simp: alts_simps run_group_or_seq run_group_lit_seq simp del: run.simps)
  qed
qed simp

lemma run_alts_group:
  assumes "w \<in> set ws" "distinct ws" "\<And>u. u \<in> set ws \<Longrightarrow> u \<noteq> w \<Longrightarrow> \<not> prefix u (w @ cs)"
  shows "run (RSeq (RGroup n (alts ws)) r) (b, w @ cs, caps) = run r (rev w @ b, cs, (n, w) # caps)"
  using assms run_alts_group_by [of w ws "w @ cs"] by simp

text \<open>An anchored pattern matches at the start or not at all.\<close>

lemma exec_start_later: "exec (RSeq RStart r) (c # b) cs = None"
proof (induction cs arbitrary: b c)
  case Nil
  then show ?case by (simp add: exec.simps [of _ _ "[]"])
next
  case (Cons d cs)
  then show ?case by (simp add: exec.simps [of _ _ "d # cs"])
qed

lemma rmatch_start [rx]:
  "rmatch (RSeq RStart r) s =
     (case run r ([], s, []) of [] \<Rightarrow> None | (b, cs, caps) # _ \<Rightarrow> Some caps)"
  by (cases s) (auto simp: rmatch_def exec.simps [of _ "[]"] exec_start_later split: list.split)

lemma rtest_start: "rtest (RSeq RStart r) s \<longleftrightarrow> run r ([], s, []) \<noteq> []"
  by (cases s) (auto simp: rtest_def exec.simps [of _ "[]"] exec_start_later split: list.split)

section \<open>What a pattern consumes\<close>

primrec over :: "(char \<Rightarrow> bool) \<Rightarrow> regex \<Rightarrow> bool" where
  "over P (RChar p) = (\<forall>c. p c \<longrightarrow> P c)"
| "over P REmpty = True"
| "over P (RSeq r1 r2) = (over P r1 \<and> over P r2)"
| "over P (ROr r1 r2) = (over P r1 \<and> over P r2)"
| "over P (RStar r) = over P r"
| "over P (RGroup n r) = over P r"
| "over P (RRef n) = False"
| "over P RStart = True"
| "over P REnd = True"
| "over P RWord = True"

definition consumed :: "(char \<Rightarrow> bool) \<Rightarrow> rpos \<Rightarrow> rpos \<Rightarrow> bool" where
  "consumed P s s' \<longleftrightarrow> (\<exists>w. fst (snd s) = w @ fst (snd s') \<and> list_all P w)"

lemma consumed_trans: "consumed P s s' \<Longrightarrow> consumed P s' s'' \<Longrightarrow> consumed P s s''"
  by (auto simp: consumed_def)

lemma consumed_refl: "consumed P s s"
  by (simp add: consumed_def)

lemma star_consumed:
  assumes "\<And>s s'. s' \<in> set (f s) \<Longrightarrow> consumed P s s'"
  shows "s' \<in> set (star f n s) \<Longrightarrow> consumed P s s'"
proof (induction n arbitrary: s)
  case (Suc n)
  then consider "s' = s" | t where "t \<in> set (f s)" "s' \<in> set (star f n t)" by fastforce
  then show ?case using Suc.IH assms consumed_refl consumed_trans by cases blast+
qed (simp add: consumed_refl)

lemma run_consumed: "over P r \<Longrightarrow> s' \<in> set (run r s) \<Longrightarrow> consumed P s s'"
proof (induction r arbitrary: s s')
  case (RChar p)
  then show ?case by (auto simp: consumed_def split: prod.splits list.splits if_splits)
next
  case (RSeq r1 r2)
  then obtain t where "t \<in> set (run r1 s)" "s' \<in> set (run r2 t)" by fastforce
  then show ?case using RSeq consumed_trans by (metis over.simps(3))
next
  case (RStar r)
  then have "\<And>s s'. s' \<in> set (run r s) \<Longrightarrow> consumed P s s'" by simp
  then show ?case using RStar.prems(2) star_consumed [of "run r" P s' "remaining s" s] by simp
next
  case (RGroup n r)
  then obtain b cs caps where "(b, cs, caps) \<in> set (run r s)" "fst (snd s') = cs" by auto
  moreover then have "consumed P s (b, cs, caps)" using RGroup by auto
  ultimately show ?case by (simp add: consumed_def)
qed (auto simp: consumed_refl split: if_splits)

lemma over_lit [simp]: "over P (lit w) = list_all P w"
  by (induction w) (auto simp: lit_def)

text \<open>A greedy group of any characters, followed by a pattern that matches at one place only.\<close>

lemma any_later:
  "w \<in> set (run (RStar (RChar (\<lambda>c. True))) (b, v, caps)) \<Longrightarrow>
   \<exists>k b'. k \<le> length v \<and> w = (b', drop k v, caps)"
proof (induction v arbitrary: b)
  case (Cons c v)
  then consider "w \<in> set (run (RStar (RChar (\<lambda>c. True))) (c # b, v, caps))" | "w = (b, c # v, caps)"
    by (auto simp only: star_class_Cons if_True set_append set_simps)
  then show ?case
  proof cases
    case 1
    then obtain k b' where "k \<le> length v" "w = (b', drop k v, caps)" using Cons.IH by blast
    then show ?thesis by (intro exI [of _ "Suc k"]) simp
  next
    case 2
    then show ?thesis by (intro exI [of _ 0]) simp
  qed
qed (simp add: star_class_Nil del: run.simps)

lemma any_ways:
  "\<exists>early late. run (RStar (RChar (\<lambda>c. True))) (b, u @ v, caps) = early @ (rev u @ b, v, caps) # late \<and>
     (\<forall>w\<in>set early. \<exists>k b'. 0 < k \<and> k \<le> length v \<and> w = (b', drop k v, caps))"
proof (induction u arbitrary: b)
  case Nil
  show ?case
  proof (cases v)
    case (Cons c v')
    have "\<exists>k b'. 0 < k \<and> k \<le> length v \<and> w = (b', drop k v, caps)"
      if "w \<in> set (run (RStar (RChar (\<lambda>c. True))) (c # b, v', caps))" for w
      using any_later [OF that] Cons by (metis Suc_le_mono drop_Suc_Cons length_Cons zero_less_Suc)
    then show ?thesis
      by (intro exI [of _ "run (RStar (RChar (\<lambda>c. True))) (c # b, v', caps)"] exI [of _ "[]"])
        (simp add: Cons star_class_Cons del: run.simps)
  next
    case Nil
    then show ?thesis by (intro exI [of _ "[]"]) (simp add: star_class_Nil del: run.simps)
  qed
next
  case (Cons c u)
  obtain early late where "run (RStar (RChar (\<lambda>c. True))) (c # b, u @ v, caps) =
      early @ (rev u @ c # b, v, caps) # late"
    "\<forall>w\<in>set early. \<exists>k b'. 0 < k \<and> k \<le> length v \<and> w = (b', drop k v, caps)" using Cons by blast
  then show ?case
    by (intro exI [of _ early] exI [of _ "late @ [(b, (c # u) @ v, caps)]"])
      (simp add: star_class_Cons del: run.simps)
qed

lemma concat_unique:
  "(\<And>x. x \<in> set xs \<Longrightarrow> f x = []) \<Longrightarrow> concat (map f (xs @ y # ys)) = f y @ concat (map f ys)"
  by (induction xs) simp_all

lemma run_any_group_seq:
  assumes "u \<noteq> []" "\<And>k b' caps'. 0 < k \<Longrightarrow> k \<le> length v \<Longrightarrow> run r (b', drop k v, caps') = []"
  shows "\<exists>late. run (RSeq (RGroup n (rplus (RChar (\<lambda>c. True)))) r) (b, u @ v, caps) =
    run r (rev u @ b, v, (n, u) # caps) @ late"
proof -
  obtain c u' where u: "u = c # u'" using assms(1) by (cases u) auto
  obtain early late where w: "run (RStar (RChar (\<lambda>c. True))) (c # b, u' @ v, caps) =
      early @ (rev u' @ c # b, v, caps) # late"
    "\<forall>w\<in>set early. \<exists>k b'. 0 < k \<and> k \<le> length v \<and> w = (b', drop k v, caps)" using any_ways by blast
  let ?g = "\<lambda>(b', cs', caps). (b', cs', (n, take (length (u @ v) - length cs') (u @ v)) # caps)"
  have g: "run (RGroup n (rplus (RChar (\<lambda>c. True)))) (b, u @ v, caps) =
      map ?g early @ (rev u @ b, v, (n, u) # caps) # map ?g late"
    using w(1) by (simp add: u rplus_def del: run.simps(5))
  have "run r x = []" if x: "x \<in> set (map ?g early)" for x
  proof -
    obtain y where "y \<in> set early" "x = ?g y" using x by auto
    then show ?thesis using w(2) assms(2) by fastforce
  qed
  then show ?thesis
    unfolding run.simps(3) [of "RGroup n (rplus (RChar (\<lambda>c. True)))"] g by (subst concat_unique) auto
qed

section \<open>The match loop\<close>

lemma over_simps [simp]: "over P (rseq []) = True" "over P (rplus r) = over P r" "over P (ropt r) = over P r"
  by (simp_all add: rseq_def rplus_def ropt_def)

lemma rejects_mono: "rejects p r \<Longrightarrow> (\<And>c. q c \<Longrightarrow> p c) \<Longrightarrow> rejects q r"
  by (auto simp: rejects_def)

lemma join_concat: "join sep (x # xs) = x @ concat (map ((@) sep) xs)"
  by (induction xs arbitrary: x) simp_all

lemma exec_all_hit:
  "run re (b, cs, []) = (b', cs', caps) # ways \<Longrightarrow> length cs' < length cs \<Longrightarrow>
   exec_all re b cs = map_option ((#) caps) (exec_all re b' cs')"
  by (simp add: exec_all.simps [of re b cs] exec.simps [of re b cs])

lemma exec_all_skip:
  assumes "run re (b, c # cs, []) = []" "exec_all re (c # b) cs = Some ms"
  shows "exec_all re b (c # cs) = Some ms"
proof -
  have "exec re b (c # cs) = exec re (c # b) cs" by (simp add: exec.simps [of re b] assms(1))
  then show ?thesis
    using assms(2) by (auto simp: exec_all.simps [of re b] exec_all.simps [of re "c # b"] split: option.splits if_splits)
qed

lemma exec_all_Nil: "run re (b, [], []) = [] \<Longrightarrow> exec_all re b [] = Some []"
  by (simp add: exec_all.simps exec.simps)

lemma exec_all_skips:
  assumes "rejects (\<lambda>c. c \<in> set w) re" "\<And>b. exec_all re b cs = Some ms"
  shows "exec_all re b (w @ cs) = Some ms"
  using assms(1)
proof (induction w arbitrary: b)
  case (Cons c w)
  have "rejects (\<lambda>d. d \<in> set w) re" by (rule rejects_mono [OF Cons.prems]) simp
  then have "exec_all re (c # b) (w @ cs) = Some ms" by (rule Cons.IH)
  moreover have "run re (b, c # w @ cs, []) = []" using Cons.prems by (simp add: rejects_def)
  ultimately show ?case by (simp add: exec_all_skip)
qed (simp add: assms(2))

lemma exec_texts:
  assumes "\<And>t b u. t \<in> set ts \<Longrightarrow> \<exists>b' more. run re (b, f t @ u, []) = (b', u, g t) # more"
    "\<And>t. t \<in> set ts \<Longrightarrow> f t \<noteq> []" "rejects (\<lambda>c. c \<in> set sep) re" "\<And>b. exec_all re b u = Some []"
  shows "exec_all re b (concat (map (\<lambda>t. sep @ f t) ts) @ u) = Some (map g ts)"
    "ts \<noteq> [] \<Longrightarrow> exec_all re b (join sep (map f ts) @ u) = Some (map g ts)"
proof -
  have step: "exec_all re b (f t @ v) = Some (g t # ms)"
    if t: "t \<in> set ts" and v: "\<And>b. exec_all re b v = Some ms" for t v ms b
  proof -
    obtain b' more where "run re (b, f t @ v, []) = (b', v, g t) # more" using assms(1) t by blast
    then show ?thesis using exec_all_hit assms(2) [OF t] v by simp
  qed
  have all: "exec_all re b (concat (map (\<lambda>t. sep @ f t) us) @ u) = Some (map g us)" if "set us \<subseteq> set ts" for us b
    using that
  proof (induction us arbitrary: b)
    case (Cons t us)
    have "exec_all re b (f t @ concat (map (\<lambda>t. sep @ f t) us) @ u) = Some (g t # map g us)" for b
      using Cons by (intro step) auto
    then show ?case using exec_all_skips [OF assms(3)] by simp
  qed (simp add: assms(4))
  then show "exec_all re b (concat (map (\<lambda>t. sep @ f t) ts) @ u) = Some (map g ts)" by simp
  show "exec_all re b (join sep (map f ts) @ u) = Some (map g ts)" if "ts \<noteq> []"
  proof -
    obtain t us where ts: "ts = t # us" using \<open>ts \<noteq> []\<close> by (cases ts) auto
    have "exec_all re b (f t @ concat (map (\<lambda>t. sep @ f t) us) @ u) = Some (g t # map g us)"
      using ts all [of us] by (intro step) auto
    then show ?thesis by (simp add: ts join_concat comp_def)
  qed
qed

text \<open>It ends when the pattern cannot match the empty text.\<close>


primrec nullable :: "regex \<Rightarrow> bool" where
  "nullable (RChar p) = False"
| "nullable REmpty = True"
| "nullable (RSeq r1 r2) = (nullable r1 \<and> nullable r2)"
| "nullable (ROr r1 r2) = (nullable r1 \<or> nullable r2)"
| "nullable (RStar r) = True"
| "nullable (RGroup n r) = nullable r"
| "nullable (RRef n) = True"
| "nullable RStart = True"
| "nullable REnd = True"
| "nullable RWord = True"

lemma nullable_lit [simp]: "nullable (lit w) \<longleftrightarrow> w = []"
  by (induction w) (simp_all add: lit_def)

lemma star_shrinks:
  "(\<And>s s'. s' \<in> set (f s) \<Longrightarrow> remaining s' \<le> remaining s) \<Longrightarrow> s' \<in> set (star f n s) \<Longrightarrow> remaining s' \<le> remaining s"
proof (induction n arbitrary: s)
  case (Suc n)
  then consider "s' = s" | t where "t \<in> set (f s)" "s' \<in> set (star f n t)" by fastforce
  then show ?case using Suc.IH [OF Suc.prems(1)] Suc.prems(1) by cases (simp, meson order_trans)
qed simp

lemma run_shrinks:
  "s' \<in> set (run r s) \<Longrightarrow> remaining s' \<le> remaining s \<and> (\<not> nullable r \<longrightarrow> remaining s' < remaining s)"
proof (induction r arbitrary: s s')
  case (RChar p)
  then show ?case by (auto split: prod.splits list.splits if_splits)
next
  case (RSeq r1 r2)
  then obtain t where "t \<in> set (run r1 s)" "s' \<in> set (run r2 t)" by fastforce
  then show ?case using RSeq.IH(1) [of t s] RSeq.IH(2) [of s' t]
    by (cases "nullable r1"; cases "nullable r2") auto
next
  case (RStar r)
  then have "s' \<in> set (star (run r) (remaining s) s)" by simp
  moreover have "remaining s' \<le> remaining s" if "s' \<in> set (run r s)" for s s' using RStar.IH [OF that] by simp
  ultimately show ?case using star_shrinks [of "run r" s'] by simp
next
  case (RGroup n r)
  then obtain b cs caps where "(b, cs, caps) \<in> set (run r s)" "remaining s' = length cs" by auto
  then show ?case using RGroup.IH [of "(b, cs, caps)" s] by simp
qed (auto simp: Let_def split: if_splits)

lemma run_at_end: "\<not> nullable r \<Longrightarrow> run r (b, [], caps) = []"
proof (rule ccontr)
  assume n: "\<not> nullable r" and "run r (b, [], caps) \<noteq> []"
  then obtain s' where "s' \<in> set (run r (b, [], caps))" by (cases "run r (b, [], caps)") auto
  then show False using run_shrinks [of s' r "(b, [], caps)"] n by simp
qed

lemma exec_shrinks: "\<not> nullable r \<Longrightarrow> exec r b cs = Some (b', cs', caps) \<Longrightarrow> length cs' < length cs"
proof (induction cs arbitrary: b)
  case Nil
  then show ?case by (simp add: exec.simps run_at_end)
next
  case (Cons c cs)
  show ?case
  proof (cases "run r (b, c # cs, [])")
    case Nil
    then show ?thesis using Cons by (fastforce simp: exec.simps [of r b])
  next
    case (Cons s ways)
    then have "s = (b', cs', caps)" using \<open>exec r b (c # cs) = Some (b', cs', caps)\<close> by (simp add: exec.simps [of r b])
    then show ?thesis using run_shrinks [of s r "(b, c # cs, [])"] \<open>\<not> nullable r\<close> Cons by simp
  qed
qed

lemma exec_all_ends: "\<not> nullable r \<Longrightarrow> exec_all r b cs \<noteq> None"
proof (induction r b cs rule: exec_all.induct)
  case (1 r b cs)
  show ?case
  proof (cases "exec r b cs")
    case None
    then show ?thesis by (simp add: exec_all.simps)
  next
    case (Some s)
    obtain b' cs' caps where s: "s = (b', cs', caps)" by (cases s)
    then show ?thesis using exec_shrinks [OF 1(2)] Some 1 by (simp add: exec_all.simps [of r b])
  qed
qed

end
