(* ===== verification/Billing_Rules.thy ===== *)
theory Billing_Rules
  imports Regex Json
begin

text \<open>
  The request rules of a billing expression (\<open>features/pricing/lib/billing-expr.ts\<close>): conditions on
  parameters, headers and the time that multiply the price, their parser and their printer, and how
  they are combined with the base expression. A pattern of the code is the \<open>regex\<close> of the same
  structure. A string literal that \<open>JSON.parse\<close> rejects makes the parser throw, so a result is a
  \<open>js_error\<close> or an optional value.
\<close>

section \<open>Constants and types\<close>

definition MATCH_EQ :: string where "MATCH_EQ = ''eq''"
definition MATCH_CONTAINS :: string where "MATCH_CONTAINS = ''contains''"
definition MATCH_GT :: string where "MATCH_GT = ''gt''"
definition MATCH_GTE :: string where "MATCH_GTE = ''gte''"
definition MATCH_LT :: string where "MATCH_LT = ''lt''"
definition MATCH_LTE :: string where "MATCH_LTE = ''lte''"
definition MATCH_EXISTS :: string where "MATCH_EXISTS = ''exists''"
definition MATCH_RANGE :: string where "MATCH_RANGE = ''range''"

lemmas match_defs = MATCH_EQ_def MATCH_CONTAINS_def MATCH_GT_def MATCH_GTE_def MATCH_LT_def MATCH_LTE_def
  MATCH_EXISTS_def MATCH_RANGE_def

definition TIME_FUNCS :: "string list" where
  "TIME_FUNCS = [''hour'', ''minute'', ''weekday'', ''month'', ''day'']"

datatype RequestSource = Param | Header

record ParamHeaderCondition =
  ph_source :: RequestSource
  ph_path :: string
  ph_mode :: string
  ph_value :: string

record TimeCondition =
  tc_timeFunc :: string
  tc_timezone :: string
  tc_mode :: string
  tc_value :: string
  tc_rangeStart :: string
  tc_rangeEnd :: string

datatype RequestCondition = TimeC TimeCondition | ParamHeaderC ParamHeaderCondition

record RequestRuleGroup =
  rg_conditions :: "RequestCondition list"
  rg_multiplier :: string

text \<open>\<open>Partial<RequestCondition>\<close>: every field may be missing.\<close>

record PartialCondition =
  pc_source :: "string option"
  pc_path :: "string option"
  pc_timeFunc :: "string option"
  pc_timezone :: "string option"
  pc_mode :: "string option"
  pc_value :: "string option"
  pc_rangeStart :: "string option"
  pc_rangeEnd :: "string option"

section \<open>Character classes and patterns\<close>

definition digit :: regex where
  "digit = RChar is_digit"

definition num_char :: "char \<Rightarrow> bool" where
  "num_char c \<longleftrightarrow> is_digit c \<or> c \<in> set ''.eE+-''"

definition not_quote :: "char \<Rightarrow> bool" where
  "not_quote c \<longleftrightarrow> c \<noteq> quote_c"

text \<open>\<open>.\<close> without the \<open>s\<close> flag\<close>

definition not_newline :: "char \<Rightarrow> bool" where
  "not_newline c \<longleftrightarrow> c \<noteq> CHR 0x0A \<and> c \<noteq> CHR 0x0D"

definition NUMERIC_LITERAL_REGEX :: regex where
  "NUMERIC_LITERAL_REGEX =
     rseq [RStart, ropt (lit ''-''),
       ROr (rseq [rplus digit, ropt (lit ''.''), RStar digit]) (rseq [lit ''.'', rplus digit]),
       ropt (rseq [RChar (\<lambda>c. c \<in> set ''eE''), ropt (RChar (\<lambda>c. c \<in> set ''+-'')), rplus digit]),
       REnd]"

definition isNumericLiteral :: "string \<Rightarrow> bool" where
  "isNumericLiteral s = rtest NUMERIC_LITERAL_REGEX s"

abbreviation numbers :: "nat \<Rightarrow> regex" where
  "numbers n \<equiv> RGroup n (rplus (RChar num_char))"

abbreviation quoted :: "nat \<Rightarrow> regex" where
  "quoted n \<equiv> RGroup n (rplus (RChar not_quote))"

definition time_range_pattern :: "regex list" where
  "time_range_pattern =
     [RGroup 1 (alts TIME_FUNCS), lit ''(\"'', quoted 2, lit ''\") >= '', numbers 3, lit '' || '',
      RRef 1, lit ''(\"'', RRef 2, lit ''\") < '', numbers 4]"

definition time_range_re :: regex where
  "time_range_re = rseq (RStart # time_range_pattern @ [REnd])"

definition time_range_paren_re :: regex where
  "time_range_paren_re = rseq ([RStart, lit ''(''] @ time_range_pattern @ [lit '')'', REnd])"

definition time_compare_re :: regex where
  "time_compare_re =
     rseq [RStart, RGroup 1 (alts TIME_FUNCS), lit ''(\"'', quoted 2, lit ''\") '',
       RGroup 3 (alts [''=='', ''>='', ''<'']), lit '' '', numbers 4, REnd]"

definition header_exists_re :: regex where
  "header_exists_re = rseq [RStart, lit ''header(\"'', quoted 1, lit ''\") != \"\"'', REnd]"

definition param_exists_re :: regex where
  "param_exists_re = rseq [RStart, lit ''param(\"'', quoted 1, lit ''\") != nil'', REnd]"

definition string_literal :: "nat \<Rightarrow> regex" where
  "string_literal n = RGroup n (rseq [lit [quote_c],
     RStar (ROr (RChar (\<lambda>c. c \<noteq> quote_c \<and> c \<noteq> backslash_c)) (rseq [lit [backslash_c], RChar not_newline])),
     lit [quote_c]])"

definition header_contains_re :: regex where
  "header_contains_re = rseq [RStart, lit ''has(header(\"'', quoted 1, lit ''\"), '', string_literal 2, lit '')'', REnd]"

definition param_contains_re :: regex where
  "param_contains_re =
     rseq [RStart, lit ''param(\"'', quoted 1, lit ''\") != nil && has(param(\"'', quoted 2, lit ''\"), '',
       string_literal 3, lit '')'', REnd]"

definition param_compare_re :: regex where
  "param_compare_re =
     rseq [RStart, lit ''param(\"'', quoted 1, lit ''\") != nil && param(\"'', quoted 2, lit ''\") '',
       RGroup 3 (alts [''>'', ''>='', ''<'', ''<='']), lit '' '', numbers 4, REnd]"

definition equals_re :: regex where
  "equals_re =
     rseq [RStart, RGroup 1 (alts [''param'', ''header'']), lit ''(\"'', quoted 2, lit ''\") == '',
       RGroup 3 (rplus (RChar not_newline)), REnd]"

definition factor_re :: regex where
  "factor_re =
     rseq [RStart, lit ''('', RGroup 1 (rplus (RChar (\<lambda>c. True))), lit '' ? '', numbers 2, lit '' : 1)'', REnd]"

section \<open>Splitting at the top level\<close>

text \<open>
  The loop of \<open>splitTopLevelMultiply\<close> and \<open>splitTopLevelAnd\<close>, which differ in the separator: \<open>cur\<close>
  is the part since \<open>start\<close>.
\<close>

function split_top :: "string \<Rightarrow> int \<Rightarrow> string \<Rightarrow> string \<Rightarrow> string list" where
  "split_top sep depth cur [] = [trim cur]"
| "split_top sep depth cur (c # cs) =
     (let depth1 = (if c = CHR ''('' then depth + 1 else depth);
          depth2 = (if c = CHR '')'' then depth1 - 1 else depth1)
      in if depth2 = 0 \<and> prefix sep (c # cs)
         then trim cur # split_top sep depth2 [] (drop (length sep - 1) cs)
         else split_top sep depth2 (cur @ [c]) cs)"
  by pat_completeness auto
termination by (relation "measure (\<lambda>(sep, depth, cur, cs). length cs)") auto

definition splitTopLevelMultiply :: "string \<Rightarrow> string list" where
  "splitTopLevelMultiply expr = filter (\<lambda>p. p \<noteq> []) (split_top '' * '' 0 [] expr)"

definition splitTopLevelAnd :: "string \<Rightarrow> string list" where
  "splitTopLevelAnd expr = filter (\<lambda>p. p \<noteq> []) (split_top '' && '' 0 [] expr)"

section \<open>Parsing\<close>

text \<open>The value as \<open>JSON.parse\<close> returns it; \<open>JNull\<close> for \<open>null\<close>.\<close>

definition parseExprLiteral :: "string \<Rightarrow> json" where
  "parseExprLiteral raw =
     (let text = trim raw
      in if text = ''true'' \<or> text = ''false'' then JStr text
         else if isNumericLiteral text then JStr text
         else nullish (JSON_parse text) JNull)"

definition time_range :: "(nat \<times> string) list \<Rightarrow> RequestCondition" where
  "time_range m = TimeC \<lparr>tc_timeFunc = grp 1 m, tc_timezone = grp 2 m, tc_mode = MATCH_RANGE,
     tc_value = [], tc_rangeStart = grp 3 m, tc_rangeEnd = grp 4 m\<rparr>"

definition tryParseTimeCondition :: "string \<Rightarrow> RequestCondition option" where
  "tryParseTimeCondition expr =
     (case rmatch time_range_re expr of
        Some m \<Rightarrow> Some (time_range m)
      | None \<Rightarrow>
     (case rmatch time_range_paren_re expr of
        Some m \<Rightarrow> Some (time_range m)
      | None \<Rightarrow>
     (case rmatch time_compare_re expr of
        Some m \<Rightarrow>
          let opMap = map_of [(''=='', MATCH_EQ), (''>='', MATCH_GTE), (''<'', MATCH_LT)]
          in Some (TimeC \<lparr>tc_timeFunc = grp 1 m, tc_timezone = grp 2 m,
               tc_mode = nullish (opMap (grp 3 m)) MATCH_EQ, tc_value = grp 4 m,
               tc_rangeStart = [], tc_rangeEnd = []\<rparr>)
      | None \<Rightarrow> None)))"

definition ph_condition :: "RequestSource \<Rightarrow> string \<Rightarrow> string \<Rightarrow> string \<Rightarrow> RequestCondition" where
  "ph_condition source path mode v =
     ParamHeaderC \<lparr>ph_source = source, ph_path = path, ph_mode = mode, ph_value = v\<rparr>"

text \<open>\<open>JSON.parse\<close> of a string literal, which throws on a bad escape or a control character.\<close>

definition with_literal :: "string \<Rightarrow> (string \<Rightarrow> RequestCondition) \<Rightarrow> js_error + RequestCondition option" where
  "with_literal literal mk =
     (case JSON_parse literal of None \<Rightarrow> Inl SyntaxError | Some j \<Rightarrow> Inr (Some (mk (js_String j))))"

definition param_compare :: "string \<Rightarrow> RequestCondition option" where
  "param_compare expr =
     (case rmatch param_compare_re expr of
        Some m \<Rightarrow>
          if grp 1 m = grp 2 m
          then let opMap = map_of [(''>'', MATCH_GT), (''>='', MATCH_GTE), (''<'', MATCH_LT), (''<='', MATCH_LTE)]
               in Some (ph_condition Param (grp 1 m) (nullish (opMap (grp 3 m)) []) (grp 4 m))
          else None
      | None \<Rightarrow> None)"

definition source_of :: "string \<Rightarrow> RequestSource" where
  "source_of s = (if s = ''header'' then Header else Param)"

definition equals_condition :: "string \<Rightarrow> RequestCondition option" where
  "equals_condition expr =
     (case rmatch equals_re expr of
        Some m \<Rightarrow>
          let parsedValue = parseExprLiteral (grp 3 m)
          in if parsedValue = JNull then None
             else Some (ph_condition (source_of (grp 1 m)) (grp 2 m) MATCH_EQ (js_String parsedValue))
      | None \<Rightarrow> None)"

definition tryParseRequestCondition :: "string \<Rightarrow> js_error + RequestCondition option" where
  "tryParseRequestCondition expr =
     (case tryParseTimeCondition expr of
        Some tc \<Rightarrow> Inr (Some tc)
      | None \<Rightarrow>
     (case rmatch header_exists_re expr of
        Some m \<Rightarrow> Inr (Some (ph_condition Header (grp 1 m) MATCH_EXISTS []))
      | None \<Rightarrow>
     (case rmatch param_exists_re expr of
        Some m \<Rightarrow> Inr (Some (ph_condition Param (grp 1 m) MATCH_EXISTS []))
      | None \<Rightarrow>
     (case rmatch header_contains_re expr of
        Some m \<Rightarrow> with_literal (grp 2 m) (ph_condition Header (grp 1 m) MATCH_CONTAINS)
      | None \<Rightarrow>
     (case rmatch param_contains_re expr of
        Some m \<Rightarrow>
          if grp 1 m = grp 2 m
          then with_literal (grp 3 m) (ph_condition Param (grp 1 m) MATCH_CONTAINS)
          else Inr (orelse (param_compare expr) (equals_condition expr))
      | None \<Rightarrow> Inr (orelse (param_compare expr) (equals_condition expr)))))))"

fun parse_conditions :: "string list \<Rightarrow> js_error + RequestCondition list option" where
  "parse_conditions [] = Inr (Some [])"
| "parse_conditions (ap # aps) =
     (case tryParseRequestCondition (trim ap) of
        Inl e \<Rightarrow> Inl e
      | Inr None \<Rightarrow> Inr None
      | Inr (Some cond) \<Rightarrow>
          (case parse_conditions aps of
             Inl e \<Rightarrow> Inl e
           | Inr conds \<Rightarrow> Inr (map_option ((#) cond) conds)))"

definition tryParseRuleGroupFactor :: "string \<Rightarrow> js_error + RequestRuleGroup option" where
  "tryParseRuleGroupFactor part =
     (case rmatch factor_re part of
        None \<Rightarrow> Inr None
      | Some m \<Rightarrow>
          (case parse_conditions (splitTopLevelAnd (grp 1 m)) of
             Inl e \<Rightarrow> Inl e
           | Inr None \<Rightarrow> Inr None
           | Inr (Some conditions) \<Rightarrow>
               if conditions = [] then Inr None
               else Inr (Some \<lparr>rg_conditions = conditions, rg_multiplier = grp 2 m\<rparr>)))"

fun parse_groups :: "string list \<Rightarrow> js_error + RequestRuleGroup list option" where
  "parse_groups [] = Inr (Some [])"
| "parse_groups (part # parts) =
     (case tryParseRuleGroupFactor part of
        Inl e \<Rightarrow> Inl e
      | Inr None \<Rightarrow> Inr None
      | Inr (Some g) \<Rightarrow>
          (case parse_groups parts of
             Inl e \<Rightarrow> Inl e
           | Inr gs \<Rightarrow> Inr (map_option ((#) g) gs)))"

definition tryParseRequestRuleExpr :: "string \<Rightarrow> js_error + RequestRuleGroup list option" where
  "tryParseRequestRuleExpr expr =
     (let trimmed = trim expr
      in if trimmed = [] then Inr (Some []) else parse_groups (splitTopLevelMultiply trimmed))"

section \<open>Combining and splitting\<close>

fun full_parens :: "int \<Rightarrow> string \<Rightarrow> bool" where
  "full_parens depth [] = (depth = 0)"
| "full_parens depth (c # cs) =
     (let depth1 = (if c = CHR ''('' then depth + 1 else depth);
          depth2 = (if c = CHR '')'' then depth1 - 1 else depth1)
      in if depth2 = 0 \<and> cs \<noteq> [] then False else full_parens depth2 cs)"

definition hasFullOuterParens :: "string \<Rightarrow> bool" where
  "hasFullOuterParens expr =
     (if \<not> startsWith expr ''('' \<or> \<not> endsWith expr '')'' then False else full_parens 0 expr)"

text \<open>\<open>slice(1, -1)\<close>\<close>

definition slice_inner :: "string \<Rightarrow> string" where
  "slice_inner s = slice s 1 (length s - 1)"

lemma hasFullOuterParens_length: "hasFullOuterParens s \<Longrightarrow> s \<noteq> []"
  by (auto simp: hasFullOuterParens_def startsWith_def)

lemma length_trim: "length (trim_by ws s) \<le> length s"
  by (simp add: trim_by_def) (metis length_dropWhile_le length_rev order_trans)

lemma unwrap_shorter: "hasFullOuterParens s \<Longrightarrow> length (trim (slice_inner s)) < length s"
  using hasFullOuterParens_length [of s] length_trim [of is_space "slice_inner s"]
  by (cases s) (simp_all add: slice_inner_def slice_def)

function unwrap_parens :: "string \<Rightarrow> string" where
  "unwrap_parens current =
     (if hasFullOuterParens current then unwrap_parens (trim (slice_inner current)) else current)"
  by pat_completeness auto
termination by (relation "measure length") (simp_all add: unwrap_shorter)

declare unwrap_parens.simps [simp del]

definition unwrapOuterParens :: "string \<Rightarrow> string" where
  "unwrapOuterParens expr = unwrap_parens (trim expr)"

text \<open>Sorting the parts into rules and the rest; a part that throws ends the call.\<close>

fun rule_parts :: "string list \<Rightarrow> js_error + string list \<times> string list" where
  "rule_parts [] = Inr ([], [])"
| "rule_parts (part # parts) =
     (case tryParseRequestRuleExpr part of
        Inl e \<Rightarrow> Inl e
      | Inr parsed \<Rightarrow>
          (case rule_parts parts of
             Inl e \<Rightarrow> Inl e
           | Inr (ruleParts, baseParts) \<Rightarrow>
               if (case parsed of None \<Rightarrow> False | Some gs \<Rightarrow> gs \<noteq> [])
               then Inr (part # ruleParts, baseParts) else Inr (ruleParts, part # baseParts)))"

record SplitExpr =
  se_billingExpr :: string
  se_requestRuleExpr :: string

definition splitBillingExprAndRequestRules :: "string \<Rightarrow> js_error + SplitExpr" where
  "splitBillingExprAndRequestRules expr =
     (let trimmed = trim expr
      in if trimmed = [] then Inr \<lparr>se_billingExpr = [], se_requestRuleExpr = []\<rparr>
         else let parts = splitTopLevelMultiply trimmed
         in if length parts \<le> 1 then Inr \<lparr>se_billingExpr = trimmed, se_requestRuleExpr = []\<rparr>
         else (case rule_parts parts of
                 Inl e \<Rightarrow> Inl e
               | Inr (ruleParts, baseParts) \<Rightarrow>
                   if ruleParts = [] \<or> length baseParts \<noteq> 1
                   then Inr \<lparr>se_billingExpr = trimmed, se_requestRuleExpr = []\<rparr>
                   else Inr \<lparr>se_billingExpr = unwrapOuterParens (hd baseParts),
                              se_requestRuleExpr = join '' * '' ruleParts\<rparr>))"

definition combineBillingExpr :: "string \<Rightarrow> string \<Rightarrow> string" where
  "combineBillingExpr baseExpr requestRuleExpr =
     (let base = trim baseExpr; rules = trim requestRuleExpr
      in if base = [] then [] else if rules = [] then base
         else ''('' @ base @ '') * '' @ rules)"

section \<open>The rule editor\<close>

definition createEmptyCondition :: ParamHeaderCondition where
  "createEmptyCondition = \<lparr>ph_source = Param, ph_path = [], ph_mode = MATCH_EQ, ph_value = []\<rparr>"

definition createEmptyTimeCondition :: TimeCondition where
  "createEmptyTimeCondition = \<lparr>tc_timeFunc = ''hour'', tc_timezone = ''Asia/Shanghai'',
     tc_mode = MATCH_GTE, tc_value = [], tc_rangeStart = [], tc_rangeEnd = []\<rparr>"

definition createEmptyRuleGroup :: RequestRuleGroup where
  "createEmptyRuleGroup = \<lparr>rg_conditions = [ParamHeaderC createEmptyCondition], rg_multiplier = []\<rparr>"

definition createEmptyTimeRuleGroup :: RequestRuleGroup where
  "createEmptyTimeRuleGroup = \<lparr>rg_conditions = [TimeC createEmptyTimeCondition], rg_multiplier = []\<rparr>"

text \<open>The options as pairs of value and label key.\<close>

definition getRequestRuleMatchOptions :: "string \<Rightarrow> (string \<times> string) list" where
  "getRequestRuleMatchOptions source =
     (if source = ''time''
      then [(MATCH_EQ, ''Equals''), (MATCH_GTE, ''Greater than or equal''), (MATCH_LT, ''Less than''),
            (MATCH_RANGE, ''Overnight range'')]
      else let base = [(MATCH_EQ, ''Equals''), (MATCH_CONTAINS, ''Contains''), (MATCH_EXISTS, ''Exists'')]
      in if source = ''header'' then base
      else base @ [(MATCH_GT, ''Greater than''), (MATCH_GTE, ''Greater than or equal''),
                   (MATCH_LT, ''Less than''), (MATCH_LTE, ''Less than or equal'')])"

definition isTimeFunc :: "string option \<Rightarrow> bool" where
  "isTimeFunc v = (case v of None \<Rightarrow> False | Some f \<Rightarrow> f \<in> set TIME_FUNCS)"

definition offered_mode :: "string \<Rightarrow> string option \<Rightarrow> string \<Rightarrow> string" where
  "offered_mode source mode fallback =
     (if list_ex (\<lambda>item. Some (fst item) = mode) (getRequestRuleMatchOptions source)
      then nullish mode [] else fallback)"

text \<open>A call with \<open>null\<close> or \<open>undefined\<close> is a call with the empty object.\<close>

definition normalizeCondition :: "PartialCondition \<Rightarrow> RequestCondition" where
  "normalizeCondition cond =
     (let source = (if pc_source cond = Some ''time'' then ''time''
                    else if pc_source cond = Some ''header'' then ''header'' else ''param'')
      in if source = ''time''
         then TimeC
           \<lparr>tc_timeFunc = (if isTimeFunc (pc_timeFunc cond) then nullish (pc_timeFunc cond) [] else ''hour''),
            tc_timezone = or_string (nullish (pc_timezone cond) []) ''Asia/Shanghai'',
            tc_mode = offered_mode ''time'' (pc_mode cond) MATCH_GTE,
            tc_value = nullish (pc_value cond) [],
            tc_rangeStart = nullish (pc_rangeStart cond) [],
            tc_rangeEnd = nullish (pc_rangeEnd cond) []\<rparr>
         else ParamHeaderC
           \<lparr>ph_source = source_of source, ph_path = nullish (pc_path cond) [],
            ph_mode = offered_mode source (pc_mode cond) MATCH_EQ,
            ph_value = nullish (pc_value cond) []\<rparr>)"

definition partial_time :: "TimeCondition \<Rightarrow> PartialCondition" where
  "partial_time c = \<lparr>pc_source = Some ''time'', pc_path = None, pc_timeFunc = Some (tc_timeFunc c),
     pc_timezone = Some (tc_timezone c), pc_mode = Some (tc_mode c), pc_value = Some (tc_value c),
     pc_rangeStart = Some (tc_rangeStart c), pc_rangeEnd = Some (tc_rangeEnd c)\<rparr>"

definition source_text :: "RequestSource \<Rightarrow> string" where
  "source_text s = (case s of Param \<Rightarrow> ''param'' | Header \<Rightarrow> ''header'')"

definition partial_param :: "ParamHeaderCondition \<Rightarrow> PartialCondition" where
  "partial_param c = \<lparr>pc_source = Some (source_text (ph_source c)), pc_path = Some (ph_path c),
     pc_timeFunc = None, pc_timezone = None, pc_mode = Some (ph_mode c), pc_value = Some (ph_value c),
     pc_rangeStart = None, pc_rangeEnd = None\<rparr>"

section \<open>Printing\<close>

definition buildExprLiteral :: "string \<Rightarrow> string \<Rightarrow> string" where
  "buildExprLiteral mode v =
     (let text = trim v
      in if mode = MATCH_CONTAINS then JSON_stringify (JStr text)
         else if text = ''true'' \<or> text = ''false'' then text
         else if isNumericLiteral text then text
         else JSON_stringify (JStr text))"

definition buildTimeConditionExpr :: "TimeCondition \<Rightarrow> string" where
  "buildTimeConditionExpr cond =
     (case normalizeCondition (partial_time cond) of
        ParamHeaderC _ \<Rightarrow> []
      | TimeC normalized \<Rightarrow>
          let fn = tc_timeFunc normalized @ ''('' @ JSON_stringify (JStr (tc_timezone normalized)) @ '')''
          in if tc_mode normalized = MATCH_RANGE
             then let s = trim (tc_rangeStart normalized); e = trim (tc_rangeEnd normalized)
                  in if \<not> isNumericLiteral s \<or> \<not> isNumericLiteral e then []
                     else fn @ '' >= '' @ s @ '' || '' @ fn @ '' < '' @ e
             else let v = trim (tc_value normalized);
                      opMap = map_of [(MATCH_EQ, ''==''), (MATCH_GTE, ''>=''), (MATCH_LT, ''<'')]
                  in if \<not> isNumericLiteral v then []
                     else fn @ '' '' @ nullish (opMap (tc_mode normalized)) ''=='' @ '' '' @ v)"

definition build_param_header :: "ParamHeaderCondition \<Rightarrow> string" where
  "build_param_header normalized =
     (let path = trim (ph_path normalized); mode = ph_mode normalized;
          sourceExpr = source_text (ph_source normalized) @ ''('' @ JSON_stringify (JStr path) @ '')'';
          opMap = map_of [(MATCH_GT, ''>''), (MATCH_GTE, ''>=''), (MATCH_LT, ''<''), (MATCH_LTE, ''<='')]
      in if path = [] then []
         else if mode = MATCH_EXISTS
         then (if ph_source normalized = Header then sourceExpr @ '' != \"\"'' else sourceExpr @ '' != nil'')
         else if mode = MATCH_CONTAINS
         then (if ph_source normalized = Header
               then ''has('' @ sourceExpr @ '', '' @ buildExprLiteral mode (ph_value normalized) @ '')''
               else sourceExpr @ '' != nil && has('' @ sourceExpr @ '', '' @
                      buildExprLiteral mode (ph_value normalized) @ '')'')
         else (case opMap mode of
                 Some op \<Rightarrow>
                   let numText = trim (ph_value normalized)
                   in if \<not> isNumericLiteral numText then []
                      else sourceExpr @ '' != nil && '' @ sourceExpr @ '' '' @ op @ '' '' @ numText
               | None \<Rightarrow> sourceExpr @ '' == '' @ buildExprLiteral mode (ph_value normalized)))"

definition buildRequestConditionExpr :: "RequestCondition \<Rightarrow> string" where
  "buildRequestConditionExpr cond =
     (case cond of
        TimeC tc \<Rightarrow> buildTimeConditionExpr tc
      | ParamHeaderC ph \<Rightarrow>
          (case normalizeCondition (partial_param ph) of
             TimeC _ \<Rightarrow> [] | ParamHeaderC normalized \<Rightarrow> build_param_header normalized))"

definition buildRuleGroupFactor :: "RequestRuleGroup \<Rightarrow> string" where
  "buildRuleGroupFactor g =
     (let multiplier = trim (rg_multiplier g)
      in if \<not> isNumericLiteral multiplier then []
         else let condExprs = filter (\<lambda>e. e \<noteq> []) (map buildRequestConditionExpr (rg_conditions g))
         in if condExprs = [] then []
         else let combined = (if length condExprs = 1 then hd condExprs
                              else join '' && '' (map (\<lambda>e. if contains e '' || '' then ''('' @ e @ '')'' else e)
                                     condExprs))
         in ''('' @ combined @ '' ? '' @ multiplier @ '' : 1)'')"

definition buildRequestRuleExpr :: "RequestRuleGroup list \<Rightarrow> string" where
  "buildRequestRuleExpr groups = join '' * '' (filter (\<lambda>e. e \<noteq> []) (map buildRuleGroupFactor groups))"

end
