(* ===== verification/Tier_Expr.thy ===== *)
theory Tier_Expr
  imports Billing_Rules
begin

text \<open>
  The tiers of a billing expression: the parser of \<open>features/pricing/lib/billing-expr.ts\<close> that the
  price pages use, and \<open>features/pricing/lib/tier-expr.ts\<close>, which turns the configuration of the
  visual editor into an expression and back. \<open>Number(text)\<close> is modelled for the texts the patterns
  capture (digits, signs, points and exponents); \<open>None\<close> is \<open>NaN\<close>.
\<close>

section \<open>The variables\<close>

datatype BillingSide = InputSide | OutputSide | ConditionSide

record BillingVar =
  bv_key :: string
  bv_field :: "string option"
  bv_tierField :: "string option"
  bv_label :: string
  bv_shortLabel :: string
  bv_side :: BillingSide
  bv_isBase :: bool
  bv_isConditionOnly :: bool
  bv_group :: "string option"

definition price_var ::
  "string \<Rightarrow> string \<Rightarrow> string \<Rightarrow> string \<Rightarrow> string \<Rightarrow> BillingSide \<Rightarrow> string option \<Rightarrow> BillingVar" where
  "price_var key field tierField label shortLabel side family =
     \<lparr>bv_key = key, bv_field = Some field, bv_tierField = Some tierField, bv_label = label,
      bv_shortLabel = shortLabel, bv_side = side, bv_isBase = (family = None), bv_isConditionOnly = False,
      bv_group = family\<rparr>"

definition BILLING_VARS :: "BillingVar list" where
  "BILLING_VARS =
     [price_var ''p'' ''inputPrice'' ''input_unit_cost'' ''Input price'' ''Input'' InputSide None,
      price_var ''c'' ''outputPrice'' ''output_unit_cost'' ''Completion price'' ''Output'' OutputSide None,
      \<lparr>bv_key = ''len'', bv_field = None, bv_tierField = None, bv_label = ''Input length'',
       bv_shortLabel = ''Length'', bv_side = ConditionSide, bv_isBase = False, bv_isConditionOnly = True,
       bv_group = None\<rparr>,
      price_var ''cr'' ''cacheReadPrice'' ''cache_read_unit_cost'' ''Cache read price'' ''Cache Read''
        InputSide (Some ''cache''),
      price_var ''cc'' ''cacheCreatePrice'' ''cache_create_unit_cost'' ''Cache create price'' ''Cache Write''
        InputSide (Some ''cache''),
      price_var ''cc1h'' ''cacheCreate1hPrice'' ''cache_create_1h_unit_cost'' ''Cache create (1h) price''
        ''Cache Write (1h)'' InputSide (Some ''cache''),
      price_var ''img'' ''imagePrice'' ''image_unit_cost'' ''Image input price'' ''Image In''
        InputSide (Some ''media''),
      price_var ''img_o'' ''imageOutputPrice'' ''image_output_unit_cost'' ''Image output price'' ''Image Out''
        OutputSide (Some ''media''),
      price_var ''ai'' ''audioInputPrice'' ''audio_input_unit_cost'' ''Audio input price'' ''Audio In''
        InputSide (Some ''media''),
      price_var ''ao'' ''audioOutputPrice'' ''audio_output_unit_cost'' ''Audio output price'' ''Audio Out''
        OutputSide (Some ''media'')]"

definition BILLING_PRICING_VARS :: "BillingVar list" where
  "BILLING_PRICING_VARS = filter (\<lambda>v. \<not> bv_isConditionOnly v) BILLING_VARS"

definition BILLING_CONDITION_VARS :: "string list" where
  "BILLING_CONDITION_VARS = map bv_key (filter (\<lambda>v. bv_isBase v \<or> bv_isConditionOnly v) BILLING_VARS)"

definition BILLING_VAR_KEY_TO_FIELD :: "(string \<times> string) list" where
  "BILLING_VAR_KEY_TO_FIELD = map (\<lambda>v. (bv_key v, nullish (bv_field v) [])) BILLING_PRICING_VARS"

definition BILLING_EXTRA_VARS :: "BillingVar list" where
  "BILLING_EXTRA_VARS = filter (\<lambda>v. \<not> bv_isBase v \<and> \<not> bv_isConditionOnly v) BILLING_VARS"

text \<open>Pairs of \<open>field\<close> and \<open>exprVar\<close>.\<close>

definition BILLING_CACHE_VAR_MAP :: "(string \<times> string) list" where
  "BILLING_CACHE_VAR_MAP = map (\<lambda>v. (nullish (bv_tierField v) [], bv_key v)) BILLING_EXTRA_VARS"

definition spaces :: regex where
  "spaces = RStar (RChar is_space)"

definition BILLING_VAR_REGEX :: regex where
  "BILLING_VAR_REGEX =
     rseq [RWord, RGroup 1 (alts (map bv_key BILLING_PRICING_VARS)), spaces, lit ''*'', spaces, numbers 2]"

section \<open>Numbers in texts\<close>

text \<open>
  \<open>Number(text)\<close> on a decimal text: an optional sign, digits with an optional point, an optional
  exponent.
\<close>

definition unsigned_decimal :: "string \<Rightarrow> number option" where
  "unsigned_decimal s =
     (let ip = takeWhile is_digit s; r1 = dropWhile is_digit s;
          fp = (case r1 of c # r \<Rightarrow> if c = CHR ''.'' then takeWhile is_digit r else [] | [] \<Rightarrow> []);
          r2 = (case r1 of c # r \<Rightarrow> if c = CHR ''.'' then dropWhile is_digit r else r1 | [] \<Rightarrow> []);
          m = of_nat (digits_val ip) + of_nat (digits_val fp) / 10 ^ length fp
      in if ip = [] \<and> fp = [] then None
         else (case p_exponent r2 of
                 Some (e, []) \<Rightarrow> Some (scale10 m e)
               | _ \<Rightarrow> None))"

definition js_Number :: "string \<Rightarrow> number option" where
  "js_Number text =
     (let s = trim text
      in case s of
           [] \<Rightarrow> Some 0
         | c # r \<Rightarrow> if c = CHR ''-'' then map_option uminus (unsigned_decimal r)
                    else if c = CHR ''+'' then unsigned_decimal r else unsigned_decimal s)"

section \<open>The tier parser of the price pages\<close>

text \<open>\<open>tc_value = None\<close>: the text of the value is not a number.\<close>

record TierCondition =
  tn_var :: string
  tn_op :: string
  tn_value :: "number option"

record ParsedTier =
  pt_label :: string
  pt_conditions :: "TierCondition list"
  pt_prices :: "(string \<times> number) list"

definition version_re :: regex where
  "version_re = rseq [RStart, lit ''v'', RGroup 1 (rplus digit), lit '':'', RGroup 2 (RStar (RChar (\<lambda>c. True))), REnd]"

definition stripExprVersion :: "string \<Rightarrow> number option \<times> string" where
  "stripExprVersion exprStr =
     (if exprStr = [] then (Some 1, [])
      else case rmatch version_re exprStr of
             Some m \<Rightarrow> (js_Number (grp 1 m), grp 2 m)
           | None \<Rightarrow> (Some 1, exprStr))"

text \<open>The loops \<open>while ((m = re.exec(text)) !== null)\<close>; \<open>None\<close> would be a loop without end.\<close>

definition match_list :: "regex \<Rightarrow> string \<Rightarrow> (nat \<times> string) list list" where
  "match_list re text = nullish (exec_all re [] text) []"

definition coefficients :: "string \<Rightarrow> (string \<times> number option) list" where
  "coefficients bodyStr =
     foldl (\<lambda>coeffs m. if grp 1 m \<in> fst ` set coeffs then coeffs
                       else coeffs @ [(grp 1 m, js_Number (grp 2 m))]) [] (match_list BILLING_VAR_REGEX bodyStr)"

definition parseTierBody :: "string \<Rightarrow> (string \<times> number) list" where
  "parseTierBody bodyStr =
     (let coeffs = coefficients bodyStr
      in map (\<lambda>(varName, field). (field, nullish (nullish (map_of coeffs varName) None) 0))
           BILLING_VAR_KEY_TO_FIELD)"

definition cond_char :: "char \<Rightarrow> bool" where
  "cond_char c \<longleftrightarrow> is_digit c \<or> c \<in> set ''.eE+''"

definition comparison :: "regex list" where
  "comparison = [alts [''p'', ''c'', ''len''], spaces, alts [''<'', ''<='', ''>'', ''>=''], spaces, rplus (RChar cond_char)]"

definition condGroup :: "nat \<Rightarrow> regex" where
  "condGroup n = RGroup n (rseq (comparison @ [RStar (rseq ([spaces, lit ''&&'', spaces] @ comparison))]))"

definition tierRe :: regex where
  "tierRe =
     rseq [ropt (rseq [condGroup 1, spaces, lit ''?'', spaces]), lit ''tier(\"'', RGroup 2 (RStar (RChar not_quote)),
       lit ''\",'', spaces, RGroup 3 (rplus (RChar (\<lambda>c. c \<noteq> CHR '')''))), lit '')'']"

definition condition_re :: regex where
  "condition_re =
     rseq [RStart, RGroup 1 (alts [''p'', ''c'', ''len'']), spaces, RGroup 2 (alts [''<'', ''<='', ''>'', ''>='']),
       spaces, RGroup 3 (rplus (RChar cond_char)), REnd]"

definition and_re :: regex where
  "and_re = rseq [spaces, lit ''&&'', spaces]"

definition parse_tier_conditions :: "string \<Rightarrow> TierCondition list" where
  "parse_tier_conditions condStr =
     (if condStr = [] then []
      else List.map_filter (\<lambda>cp.
             map_option (\<lambda>cm. \<lparr>tn_var = grp 1 cm, tn_op = grp 2 cm, tn_value = js_Number (grp 3 cm)\<rparr>)
               (rmatch condition_re (trim cp))) (rsplit and_re condStr))"

definition parsed_tier :: "(nat \<times> string) list \<Rightarrow> ParsedTier" where
  "parsed_tier m = \<lparr>pt_label = grp 2 m, pt_conditions = parse_tier_conditions (grp 1 m),
     pt_prices = parseTierBody (grp 3 m)\<rparr>"

definition parseTiersFromExpr :: "string \<Rightarrow> ParsedTier list" where
  "parseTiersFromExpr exprStr =
     (if exprStr = [] then []
      else map parsed_tier (match_list tierRe (snd (stripExprVersion exprStr))))"

text \<open>For Latin-1 labels: the full-width signs of the patterns do not occur in them.\<close>

definition normalizeTierLabel :: "string option \<Rightarrow> string" where
  "normalizeTierLabel label =
     (case label of
        None \<Rightarrow> []
      | Some l \<Rightarrow>
          toLowerCase (replace_re (rplus (RChar is_space)) []
            (replace_re (rseq [lit ''>'', ropt (lit ''='')]) ''>''
              (replace_re (rseq [lit ''<'', ropt (lit ''='')]) ''<'' l))))"

section \<open>The visual configuration (\<open>tier-expr.ts\<close>)\<close>

datatype CacheMode = CACHE_MODE_TIMED | CACHE_MODE_GENERIC

datatype ConditionValue = NumberValue number | TextValue string

record TierConditionInput =
  ti_var :: string
  ti_op :: string
  ti_value :: ConditionValue

record VisualTier =
  vt_label :: string
  vt_conditions :: "TierConditionInput list"
  vt_input_unit_cost :: number
  vt_output_unit_cost :: number
  vt_cache_mode :: CacheMode
  vt_cache_read_unit_cost :: "number option"
  vt_cache_create_unit_cost :: "number option"
  vt_cache_create_1h_unit_cost :: "number option"
  vt_image_unit_cost :: "number option"
  vt_image_output_unit_cost :: "number option"
  vt_audio_input_unit_cost :: "number option"
  vt_audio_output_unit_cost :: "number option"

text \<open>\<open>Partial<VisualTier>\<close>\<close>

record PartialTier =
  pa_label :: "string option"
  pa_conditions :: "TierConditionInput list option"
  pa_cache_mode :: "CacheMode option"
  pa_costs :: "(string \<times> number) list"

record VisualConfig =
  vc_tiers :: "VisualTier list"

text \<open>\<open>tier[field]\<close> for the names of the cost fields\<close>

definition tier_field :: "VisualTier \<Rightarrow> string \<Rightarrow> number option" where
  "tier_field tier field =
     (if field = ''input_unit_cost'' then Some (vt_input_unit_cost tier)
      else if field = ''output_unit_cost'' then Some (vt_output_unit_cost tier)
      else if field = ''cache_read_unit_cost'' then vt_cache_read_unit_cost tier
      else if field = ''cache_create_unit_cost'' then vt_cache_create_unit_cost tier
      else if field = ''cache_create_1h_unit_cost'' then vt_cache_create_1h_unit_cost tier
      else if field = ''image_unit_cost'' then vt_image_unit_cost tier
      else if field = ''image_output_unit_cost'' then vt_image_output_unit_cost tier
      else if field = ''audio_input_unit_cost'' then vt_audio_input_unit_cost tier
      else if field = ''audio_output_unit_cost'' then vt_audio_output_unit_cost tier
      else None)"

definition COST_FIELDS :: "string list" where
  "COST_FIELDS = [''input_unit_cost'', ''output_unit_cost'', ''cache_read_unit_cost'', ''cache_create_unit_cost'',
     ''cache_create_1h_unit_cost'', ''image_unit_cost'', ''image_output_unit_cost'', ''audio_input_unit_cost'',
     ''audio_output_unit_cost'']"

definition partial_tier :: "VisualTier \<Rightarrow> PartialTier" where
  "partial_tier tier = \<lparr>pa_label = Some (vt_label tier), pa_conditions = Some (vt_conditions tier),
     pa_cache_mode = Some (vt_cache_mode tier),
     pa_costs = List.map_filter (\<lambda>f. map_option (Pair f) (tier_field tier f)) COST_FIELDS\<rparr>"

definition partial_cost :: "PartialTier \<Rightarrow> string \<Rightarrow> number" where
  "partial_cost tier field = nullish (map_of (pa_costs tier) field) 0"

definition getTierCacheMode :: "PartialTier \<Rightarrow> CacheMode" where
  "getTierCacheMode tier =
     (case pa_cache_mode tier of
        Some mode \<Rightarrow> mode
      | None \<Rightarrow> if partial_cost tier ''cache_create_1h_unit_cost'' > 0 then CACHE_MODE_TIMED
                else CACHE_MODE_GENERIC)"

definition normalizeVisualTier :: "PartialTier \<Rightarrow> VisualTier" where
  "normalizeVisualTier tier =
     \<lparr>vt_label = nullish (pa_label tier) [],
      vt_conditions = nullish (pa_conditions tier) [],
      vt_input_unit_cost = partial_cost tier ''input_unit_cost'',
      vt_output_unit_cost = partial_cost tier ''output_unit_cost'',
      vt_cache_mode = getTierCacheMode tier,
      vt_cache_read_unit_cost = Some (partial_cost tier ''cache_read_unit_cost''),
      vt_cache_create_unit_cost = Some (partial_cost tier ''cache_create_unit_cost''),
      vt_cache_create_1h_unit_cost = Some (partial_cost tier ''cache_create_1h_unit_cost''),
      vt_image_unit_cost = Some (partial_cost tier ''image_unit_cost''),
      vt_image_output_unit_cost = Some (partial_cost tier ''image_output_unit_cost''),
      vt_audio_input_unit_cost = Some (partial_cost tier ''audio_input_unit_cost''),
      vt_audio_output_unit_cost = Some (partial_cost tier ''audio_output_unit_cost'')\<rparr>"

definition createDefaultVisualConfig :: VisualConfig where
  "createDefaultVisualConfig = \<lparr>vc_tiers = [normalizeVisualTier
     \<lparr>pa_label = Some ''base'', pa_conditions = Some [], pa_cache_mode = Some CACHE_MODE_GENERIC,
      pa_costs = [(''input_unit_cost'', 0), (''output_unit_cost'', 0)]\<rparr>]\<rparr>"

definition normalizeVisualConfig :: "VisualConfig option \<Rightarrow> VisualConfig" where
  "normalizeVisualConfig config =
     (case config of
        None \<Rightarrow> createDefaultVisualConfig
      | Some cfg \<Rightarrow>
          if vc_tiers cfg = [] then createDefaultVisualConfig
          else cfg\<lparr>vc_tiers := map (normalizeVisualTier \<circ> partial_tier) (vc_tiers cfg)\<rparr>)"

subsection \<open>Printing\<close>

definition value_text :: "ConditionValue \<Rightarrow> string" where
  "value_text v = (case v of NumberValue x \<Rightarrow> number_to_string x | TextValue s \<Rightarrow> s)"

definition buildConditionStr :: "TierConditionInput list \<Rightarrow> string" where
  "buildConditionStr conditions =
     join '' && ''
       (map (\<lambda>c. ti_var c @ '' '' @ ti_op c @ '' '' @ value_text (ti_value c))
         (filter (\<lambda>c. ti_var c \<noteq> [] \<and> ti_op c \<noteq> [] \<and> ti_value c \<noteq> TextValue []) conditions))"

definition buildTierBodyExpr :: "VisualTier \<Rightarrow> string" where
  "buildTierBodyExpr tier =
     join '' + ''
       ([''p * '' @ number_to_string (vt_input_unit_cost tier),
         ''c * '' @ number_to_string (vt_output_unit_cost tier)] @
        List.map_filter (\<lambda>(field, exprVar).
          let v = nullish (tier_field tier field) 0
          in if v \<noteq> 0 then Some (exprVar @ '' * '' @ number_to_string v) else None) BILLING_CACHE_VAR_MAP)"

definition tier_call :: "string \<Rightarrow> VisualTier \<Rightarrow> string" where
  "tier_call label tier = ''tier(\"'' @ label @ ''\", '' @ buildTierBodyExpr tier @ '')''"

definition ZERO_EXPR :: string where
  "ZERO_EXPR = ''p * 0 + c * 0''"

definition tier_part :: "nat \<Rightarrow> nat \<times> VisualTier \<Rightarrow> string" where
  "tier_part n it =
     (case it of (i, tier) \<Rightarrow>
        let body = tier_call (or_string (vt_label tier) (''tier_'' @ nat_digits (i + 1))) tier;
            cond = buildConditionStr (vt_conditions tier)
        in if i + 1 < n \<and> cond \<noteq> [] then cond @ '' ? '' @ body else body)"

definition generateExprFromVisualConfig :: "VisualConfig option \<Rightarrow> string" where
  "generateExprFromVisualConfig config =
     (case config of
        None \<Rightarrow> ZERO_EXPR
      | Some cfg \<Rightarrow>
          (case vc_tiers cfg of
             [] \<Rightarrow> ZERO_EXPR
           | [tier] \<Rightarrow>
               let body = tier_call (or_string (vt_label tier) ''default'') tier;
                   cond = buildConditionStr (vt_conditions tier)
               in if cond \<noteq> [] then cond @ '' ? '' @ body @ '' : '' @ ZERO_EXPR else body
           | tiers \<Rightarrow> join '' : '' (map (tier_part (length tiers)) (enumerate 0 tiers))))"

subsection \<open>Parsing\<close>

definition cache_term :: "nat \<Rightarrow> string \<Rightarrow> regex" where
  "cache_term n v = ropt (rseq [spaces, lit ''+'', spaces, lit v, spaces, lit ''*'', spaces, numbers n])"

text \<open>\<open>bodyPat\<close>; its groups are numbered from \<open>n\<close>.\<close>

definition bodyPat :: "nat \<Rightarrow> regex list" where
  "bodyPat n =
     [lit ''p'', spaces, lit ''*'', spaces, numbers n, spaces, lit ''+'', spaces, lit ''c'', spaces, lit ''*'',
      spaces, numbers (n + 1)] @
     map (\<lambda>(i, (field, v)). cache_term (n + 2 + i) v) (enumerate 0 BILLING_CACHE_VAR_MAP)"

definition singleRe :: regex where
  "singleRe = rseq ([RStart, lit ''tier(\"'', RGroup 1 (RStar (RChar not_quote)), lit ''\",'', spaces] @
     bodyPat 2 @ [lit '')'', REnd])"

definition visualTierRe :: regex where
  "visualTierRe =
     rseq ([ropt (rseq [condGroup 1, spaces, lit ''?'', spaces]), lit ''tier(\"'', RGroup 2 (RStar (RChar not_quote)),
       lit ''\",'', spaces] @ bodyPat 3 @ [lit '')''])"

text \<open>
  A matched tier; \<open>n\<close> is the number of its first cost group. A cost that is not a number is 0 here; the
  code keeps \<open>NaN\<close> as an input or output cost and takes it as 0 where it is used.
\<close>

definition matched_costs :: "nat \<Rightarrow> (nat \<times> string) list \<Rightarrow> (string \<times> number) list" where
  "matched_costs n m =
     (''input_unit_cost'', nullish (js_Number (grp n m)) 0) #
     (''output_unit_cost'', nullish (js_Number (grp (n + 1) m)) 0) #
     List.map_filter (\<lambda>(i, (field, v)).
        map_option (\<lambda>t. (field, nullish (js_Number t) 0)) (map_of m (n + 2 + i))) (enumerate 0 BILLING_CACHE_VAR_MAP)"

definition visual_condition :: "TierCondition \<Rightarrow> TierConditionInput option" where
  "visual_condition c = map_option (\<lambda>v. \<lparr>ti_var = tn_var c, ti_op = tn_op c, ti_value = NumberValue v\<rparr>) (tn_value c)"

definition matched_tier :: "nat \<Rightarrow> string \<Rightarrow> string \<Rightarrow> (nat \<times> string) list \<Rightarrow> VisualTier" where
  "matched_tier n label condStr m =
     normalizeVisualTier \<lparr>pa_label = Some label,
       pa_conditions = Some (List.map_filter visual_condition (parse_tier_conditions condStr)),
       pa_cache_mode = None, pa_costs = matched_costs n m\<rparr>"

definition no_spaces :: "string \<Rightarrow> string" where
  "no_spaces s = replace_re (rplus (RChar is_space)) [] s"

definition tryParseVisualConfig :: "string option \<Rightarrow> VisualConfig option" where
  "tryParseVisualConfig exprStr =
     (case exprStr of
        None \<Rightarrow> None
      | Some expr \<Rightarrow>
          if expr = [] then None
          else let body = snd (stripExprVersion expr)
          in (case rmatch singleRe body of
                Some m \<Rightarrow>
                  Some (normalizeVisualConfig (Some \<lparr>vc_tiers = [matched_tier 2 (grp 1 m) [] m]\<rparr>))
              | None \<Rightarrow>
                  let tiers = map (\<lambda>m. matched_tier 3 (grp 2 m) (grp 1 m) m) (match_list visualTierRe body)
                  in if tiers = [] then None
                     else let cfg = normalizeVisualConfig (Some \<lparr>vc_tiers = tiers\<rparr>)
                     in if no_spaces (generateExprFromVisualConfig (Some cfg)) \<noteq> no_spaces body then None
                        else Some cfg))"

end
