(* ===== verification/Tiered_Editor.thy ===== *)
theory Tiered_Editor
  imports Tier_Expr
begin

text \<open>
  The price editor \<open>features/system-settings/models/tiered-pricing-editor.tsx\<close>: the number inputs, the
  handlers of the tier and rule cards, and the editor with its effects. The parent
  (\<open>model-pricing-sheet.tsx\<close>) keeps the price expression and the request rules and passes its state
  setters, so both are fields of the state here. \<open>commit\<close> is one rendering followed by its effects, in
  their order: an effect sees the values that were rendered, and what it sets is there in the next
  rendering. An exception of the rule parser ends the component (\<open>Inl\<close>).
\<close>

section \<open>Number inputs\<close>

definition unitCostToPrice :: "number option \<Rightarrow> number" where
  "unitCostToPrice uc = nullish uc 0"

definition priceToUnitCost :: "number option \<Rightarrow> number" where
  "priceToUnitCost price = nullish price 0"

definition formatNumberDraft :: "ConditionValue \<Rightarrow> string" where
  "formatNumberDraft v = (case v of TextValue s \<Rightarrow> s | NumberValue x \<Rightarrow> number_to_string x)"

definition parseNumberDraft :: "string \<Rightarrow> number" where
  "parseNumberDraft v = (if trim v = [] then 0 else nullish (js_Number v) 0)"

definition isZeroDraft :: "string \<Rightarrow> bool" where
  "isZeroDraft v \<longleftrightarrow> trim v \<noteq> [] \<and> parseNumberDraft v = 0"

text \<open>\<open>di_value\<close> is the property of the input, which its owner changes when \<open>onValueChange\<close> is called.\<close>

record DraftInput =
  di_value :: ConditionValue
  di_draft :: string
  di_focused :: bool

definition draftInput :: "ConditionValue \<Rightarrow> DraftInput" where
  "draftInput v = \<lparr>di_value = v, di_draft = formatNumberDraft v, di_focused = False\<rparr>"

definition syncDraft :: "DraftInput \<Rightarrow> DraftInput" where
  "syncDraft s = (if di_focused s then s else s\<lparr>di_draft := formatNumberDraft (di_value s)\<rparr>)"

definition handleDraftChange :: "string \<Rightarrow> DraftInput \<Rightarrow> DraftInput" where
  "handleDraftChange nextDraft s =
     s\<lparr>di_draft := nextDraft, di_value := NumberValue (parseNumberDraft nextDraft)\<rparr>"

definition handleDraftFocus :: "DraftInput \<Rightarrow> DraftInput" where
  "handleDraftFocus s = s\<lparr>di_focused := True\<rparr>"

definition handleDraftBlur :: "DraftInput \<Rightarrow> DraftInput" where
  "handleDraftBlur s =
     (let normalized = parseNumberDraft (di_draft s)
      in s\<lparr>di_focused := False, di_draft := number_to_string normalized, di_value := NumberValue normalized\<rparr>)"

section \<open>The card of a tier\<close>

definition CACHE_PRICE_VARS :: "BillingVar list" where
  "CACHE_PRICE_VARS = filter (\<lambda>variable. bv_group variable = Some ''cache'') BILLING_EXTRA_VARS"

definition MEDIA_PRICE_VARS :: "BillingVar list" where
  "MEDIA_PRICE_VARS = filter (\<lambda>variable. bv_group variable = Some ''media'') BILLING_EXTRA_VARS"

definition CONDITION_INPUTS :: "string list" where
  "CONDITION_INPUTS = [''len'', ''p'', ''c'']"

definition OPS :: "string list" where
  "OPS = [''<'', ''<='', ''>'', ''>='']"

text \<open>\<open>tiers[index] = next\<close> for an index of the array\<close>

definition handleTierConditionChange :: "nat \<Rightarrow> TierConditionInput \<Rightarrow> VisualTier \<Rightarrow> VisualTier" where
  "handleTierConditionChange conditionIndex next tier =
     tier\<lparr>vt_conditions := (vt_conditions tier)[conditionIndex := next]\<rparr>"

definition drop_index :: "nat \<Rightarrow> 'a list \<Rightarrow> 'a list" where
  "drop_index index xs = map snd (filter (\<lambda>(i, x). i \<noteq> index) (enumerate 0 xs))"

definition handleConditionRemove :: "nat \<Rightarrow> VisualTier \<Rightarrow> VisualTier" where
  "handleConditionRemove conditionIndex tier = tier\<lparr>vt_conditions := drop_index conditionIndex (vt_conditions tier)\<rparr>"

definition handlePriceChange :: "string \<Rightarrow> number \<Rightarrow> VisualTier \<Rightarrow> VisualTier" where
  "handlePriceChange field v tier =
     (if field = ''input_unit_cost'' then tier\<lparr>vt_input_unit_cost := v\<rparr>
      else if field = ''output_unit_cost'' then tier\<lparr>vt_output_unit_cost := v\<rparr>
      else if field = ''cache_read_unit_cost'' then tier\<lparr>vt_cache_read_unit_cost := Some v\<rparr>
      else if field = ''cache_create_unit_cost'' then tier\<lparr>vt_cache_create_unit_cost := Some v\<rparr>
      else if field = ''cache_create_1h_unit_cost'' then tier\<lparr>vt_cache_create_1h_unit_cost := Some v\<rparr>
      else if field = ''image_unit_cost'' then tier\<lparr>vt_image_unit_cost := Some v\<rparr>
      else if field = ''image_output_unit_cost'' then tier\<lparr>vt_image_output_unit_cost := Some v\<rparr>
      else if field = ''audio_input_unit_cost'' then tier\<lparr>vt_audio_input_unit_cost := Some v\<rparr>
      else if field = ''audio_output_unit_cost'' then tier\<lparr>vt_audio_output_unit_cost := Some v\<rparr>
      else tier)"

definition handleCacheModeChange :: "CacheMode \<Rightarrow> VisualTier \<Rightarrow> VisualTier" where
  "handleCacheModeChange mode tier =
     tier\<lparr>vt_cache_mode := mode,
       vt_cache_create_1h_unit_cost :=
         Some (if mode = CACHE_MODE_TIMED then nullish (vt_cache_create_1h_unit_cost tier) 0 else 0)\<rparr>"

definition handleLabelChange :: "string \<Rightarrow> VisualTier \<Rightarrow> VisualTier" where
  "handleLabelChange label tier = tier\<lparr>vt_label := label\<rparr>"

definition hasMediaPricing :: "VisualTier \<Rightarrow> bool" where
  "hasMediaPricing tier \<longleftrightarrow>
     list_ex (\<lambda>variable. unitCostToPrice (tier_field tier (nullish (bv_tierField variable) [])) > 0) MEDIA_PRICE_VARS"

section \<open>The list of tiers\<close>

definition handleTierChange :: "nat \<Rightarrow> VisualTier \<Rightarrow> VisualConfig \<Rightarrow> VisualConfig" where
  "handleTierChange index next config =
     config\<lparr>vc_tiers := (vc_tiers config)[index := normalizeVisualTier (partial_tier next)]\<rparr>"

definition DEFAULT_BOUND :: "string \<Rightarrow> TierConditionInput" where
  "DEFAULT_BOUND var = \<lparr>ti_var = var, ti_op = ''<'', ti_value = NumberValue 200000\<rparr>"

definition handleAddTier :: "VisualConfig \<Rightarrow> VisualConfig" where
  "handleAddTier config =
     (let tiers = vc_tiers config;
          lastIndex = length tiers - 1;
          bounded =
            (if tiers \<noteq> [] \<and> vt_conditions (tiers ! lastIndex) = []
             then tiers[lastIndex := normalizeVisualTier
                    (partial_tier ((tiers ! lastIndex)\<lparr>vt_conditions := [DEFAULT_BOUND ''len'']\<rparr>))]
             else tiers)
      in config\<lparr>vc_tiers := bounded @ [normalizeVisualTier
           \<lparr>pa_label = Some (''tier_'' @ nat_digits (length bounded + 1)), pa_conditions = Some [],
            pa_cache_mode = None, pa_costs = [(''input_unit_cost'', 0), (''output_unit_cost'', 0)]\<rparr>]\<rparr>)"

definition handleRemoveTier :: "nat \<Rightarrow> VisualConfig \<Rightarrow> VisualConfig" where
  "handleRemoveTier index config =
     (let tiers = drop_index index (vc_tiers config)
      in config\<lparr>vc_tiers := if tiers \<noteq> [] then tiers else vc_tiers config\<rparr>)"

text \<open>\<open>None\<close>: the handler returns without a change.\<close>

definition handleAddCondition :: "nat \<Rightarrow> VisualConfig \<Rightarrow> VisualConfig option" where
  "handleAddCondition index config =
     (let tier = vc_tiers config ! index
      in if length (vt_conditions tier) \<ge> 2 then None
         else let nextVar = (if ''len'' \<in> ti_var ` set (vt_conditions tier) then ''c'' else ''len'')
         in Some (config\<lparr>vc_tiers := map (\<lambda>(i, current).
              if i = index then current\<lparr>vt_conditions := vt_conditions tier @ [DEFAULT_BOUND nextVar]\<rparr> else current)
              (enumerate 0 (vc_tiers config))\<rparr>))"

section \<open>The cards of the request rules\<close>

definition handleSourceChange :: "string \<Rightarrow> RequestCondition \<Rightarrow> RequestCondition" where
  "handleSourceChange source condition =
     (if source = ''time'' then TimeC createEmptyTimeCondition
      else if source = ''header'' then ParamHeaderC (createEmptyCondition\<lparr>ph_source := Header\<rparr>)
      else if source = ''param'' then ParamHeaderC (createEmptyCondition\<lparr>ph_source := Param\<rparr>)
      else condition)"

definition handleMatchChange :: "string \<Rightarrow> RequestCondition \<Rightarrow> RequestCondition" where
  "handleMatchChange mode condition =
     (case condition of
        TimeC c \<Rightarrow> TimeC (c\<lparr>tc_mode := mode\<rparr>)
      | ParamHeaderC c \<Rightarrow> ParamHeaderC (c\<lparr>ph_mode := mode\<rparr>))"

definition handleRuleConditionChange :: "nat \<Rightarrow> RequestCondition \<Rightarrow> RequestRuleGroup \<Rightarrow> RequestRuleGroup" where
  "handleRuleConditionChange conditionIndex next g =
     g\<lparr>rg_conditions := (rg_conditions g)[conditionIndex := next]\<rparr>"

definition handleRuleConditionRemove :: "nat \<Rightarrow> RequestRuleGroup \<Rightarrow> RequestRuleGroup" where
  "handleRuleConditionRemove conditionIndex g = g\<lparr>rg_conditions := drop_index conditionIndex (rg_conditions g)\<rparr>"

definition handleAddRuleCondition :: "bool \<Rightarrow> RequestRuleGroup \<Rightarrow> RequestRuleGroup" where
  "handleAddRuleCondition timeMode g =
     g\<lparr>rg_conditions := rg_conditions g @
       [if timeMode then TimeC createEmptyTimeCondition else ParamHeaderC createEmptyCondition]\<rparr>"

definition handleMultiplierChange :: "number \<Rightarrow> RequestRuleGroup \<Rightarrow> RequestRuleGroup" where
  "handleMultiplierChange v g = g\<lparr>rg_multiplier := number_to_string v\<rparr>"

definition handleGroupChange :: "nat \<Rightarrow> RequestRuleGroup \<Rightarrow> RequestRuleGroup list \<Rightarrow> RequestRuleGroup list" where
  "handleGroupChange groupIndex next groups = groups[groupIndex := next]"

definition handleAddGroup :: "RequestRuleGroup list \<Rightarrow> RequestRuleGroup list" where
  "handleAddGroup groups = groups @ [createEmptyRuleGroup]"
section \<open>Presets\<close>

record Preset =
  pr_key :: string
  pr_label :: string
  pr_expr :: string
  pr_requestRules :: "RequestRuleGroup list option"

record PresetGroup =
  pg_group :: string
  pg_presets :: "Preset list"

definition plain_preset :: "string \<Rightarrow> string \<Rightarrow> string \<Rightarrow> Preset" where
  "plain_preset key label expr = \<lparr>pr_key = key, pr_label = label, pr_expr = expr, pr_requestRules = None\<rparr>"

definition rule_preset :: "string \<Rightarrow> string \<Rightarrow> string \<Rightarrow> (RequestCondition \<times> string) list \<Rightarrow> Preset" where
  "rule_preset key label expr rules = \<lparr>pr_key = key, pr_label = label, pr_expr = expr,
     pr_requestRules = Some (map (\<lambda>(c, m). \<lparr>rg_conditions = [c], rg_multiplier = m\<rparr>) rules)\<rparr>"

definition param_is :: "string \<Rightarrow> string \<Rightarrow> RequestCondition" where
  "param_is path v = ParamHeaderC \<lparr>ph_source = Param, ph_path = path, ph_mode = MATCH_EQ, ph_value = v\<rparr>"

definition weekday_is :: "string \<Rightarrow> RequestCondition" where
  "weekday_is v = TimeC \<lparr>tc_timeFunc = ''weekday'', tc_timezone = ''Asia/Shanghai'', tc_mode = MATCH_EQ, tc_value = v,
     tc_rangeStart = [], tc_rangeEnd = []\<rparr>"

definition PRESET_GROUPS :: "PresetGroup list" where
  "PRESET_GROUPS =
     [\<lparr>pg_group = ''Fixed price'', pg_presets =
         [plain_preset ''flat'' ''Flat'' ''tier(\"base\", p * 2 + c * 4)'',
          plain_preset ''claude-opus'' ''Claude Opus 4.6''
            ''tier(\"base\", p * 5 + c * 25 + cr * 0.5 + cc * 6.25 + cc1h * 10)'',
          plain_preset ''gpt-5.4'' ''GPT-5.4''
            ''len <= 272000 ? tier(\"standard\", p * 2.5 + c * 15 + cr * 0.25) : tier(\"long_context\", p * 5 + c * 22.5 + cr * 0.5)'']\<rparr>,
      \<lparr>pg_group = ''Tiered'', pg_presets =
         [plain_preset ''claude-sonnet'' ''Claude Sonnet 4.5''
            ''len <= 200000 ? tier(\"standard\", p * 3 + c * 15 + cr * 0.3 + cc * 3.75 + cc1h * 6) : tier(\"long_context\", p * 6 + c * 22.5 + cr * 0.6 + cc * 7.5 + cc1h * 12)'',
          plain_preset ''qwen3-max'' ''Qwen3 Max''
            ''len <= 32000 ? tier(\"short\", p * 1.2 + c * 6 + cr * 0.24 + cc * 1.5) : len <= 128000 ? tier(\"mid\", p * 2.4 + c * 12 + cr * 0.48 + cc * 3) : tier(\"long\", p * 3 + c * 15 + cr * 0.6 + cc * 3.75)'',
          plain_preset ''glm-4.5-air'' ''GLM-4.5 Air''
            ''len < 32000 && c < 200 ? tier(\"short_output\", p * 0.8 + c * 2 + cr * 0.16) : len < 32000 && c >= 200 ? tier(\"long_output\", p * 0.8 + c * 6 + cr * 0.16) : tier(\"mid_context\", p * 1.2 + c * 8 + cr * 0.24)'',
          plain_preset ''doubao-seed-1.8'' ''Doubao Seed 1.8''
            ''len <= 32000 && c <= 200 ? tier(\"discount\", p * 0.8 + c * 2 + cr * 0.16 + cc * 0.17) : len <= 32000 ? tier(\"short\", p * 0.8 + c * 8 + cr * 0.16 + cc * 0.17) : len <= 128000 ? tier(\"mid\", p * 1.2 + c * 16 + cr * 0.16 + cc * 0.17) : tier(\"long\", p * 2.4 + c * 24 + cr * 0.16 + cc * 0.17)'']\<rparr>,
      \<lparr>pg_group = ''Multimodal'', pg_presets =
         [plain_preset ''gpt-image-1-mini'' ''GPT Image 1 Mini'' ''tier(\"base\", p * 2 + c * 8 + img * 2.5)'',
          plain_preset ''gemini-2.5-flash'' ''Gemini 2.5 Flash'' ''tier(\"base\", p * 0.3 + c * 2.5 + cr * 0.03 + ai * 1.0)'',
          plain_preset ''gemini-3-pro-image'' ''Gemini 3 Pro Image'' ''tier(\"base\", p * 2 + c * 12 + img_o * 120)'',
          plain_preset ''qwen3-omni-flash'' ''Qwen3 Omni Flash''
            ''tier(\"base\", p * 0.43 + c * 3.06 + img * 0.78 + ai * 3.81 + ao * 15.11)'']\<rparr>,
      \<lparr>pg_group = ''Request rule'', pg_presets =
         [rule_preset ''claude-opus-fast'' ''Claude Opus 4.6 Fast''
            ''tier(\"base\", p * 5 + c * 25 + cr * 0.5 + cc * 6.25 + cc1h * 10)''
            [(ParamHeaderC \<lparr>ph_source = Header, ph_path = ''anthropic-beta'', ph_mode = MATCH_CONTAINS,
                ph_value = ''fast-mode-2026-02-01''\<rparr>, ''6'')],
          rule_preset ''gpt-5.4-tiers'' ''GPT-5.4 Priority/Flex''
            ''len <= 272000 ? tier(\"standard\", p * 2.5 + c * 15 + cr * 0.25) : tier(\"long_context\", p * 5 + c * 22.5 + cr * 0.5)''
            [(param_is ''service_tier'' ''priority'', ''2''), (param_is ''service_tier'' ''flex'', ''0.5'')]]\<rparr>,
      \<lparr>pg_group = ''Time-based'', pg_presets =
         [rule_preset ''night-discount'' ''Night discount (50%)'' ''tier(\"base\", p * 3 + c * 15)''
            [(TimeC \<lparr>tc_timeFunc = ''hour'', tc_timezone = ''Asia/Shanghai'', tc_mode = MATCH_RANGE, tc_value = [],
                tc_rangeStart = ''21'', tc_rangeEnd = ''6''\<rparr>, ''0.5'')],
          rule_preset ''weekend-discount'' ''Weekend discount (80%)'' ''tier(\"base\", p * 3 + c * 15)''
            [(weekday_is ''0'', ''0.8''), (weekday_is ''6'', ''0.8'')]]\<rparr>]"

definition visible_presets :: "bool \<Rightarrow> PresetGroup list" where
  "visible_presets expanded = (if expanded then PRESET_GROUPS else take 2 PRESET_GROUPS)"

section \<open>The editor\<close>

datatype EditorMode = VisualMode | RawMode

text \<open>
  The state of the component; \<open>te_init\<close> is \<open>initRef.current\<close>, \<open>te_expr\<close>, \<open>te_rules\<close> and \<open>te_model\<close> are
  its properties, \<open>te_seen\<close> and \<open>te_seenModel\<close> the dependencies of the first two effects at the last
  commit.
\<close>

record Editor =
  te_mode :: EditorMode
  te_visual :: "VisualConfig option"
  te_raw :: string
  te_groups :: "RequestRuleGroup list"
  te_init :: bool
  te_expr :: string
  te_rules :: string
  te_model :: string
  te_seen :: "(string \<times> string) option"
  te_seenModel :: "string option"

definition parsed_rules :: "string \<Rightarrow> js_error + RequestRuleGroup list" where
  "parsed_rules ruleExpr =
     (case tryParseRequestRuleExpr ruleExpr of Inl e \<Rightarrow> Inl e | Inr parsed \<Rightarrow> Inr (nullish parsed []))"

definition openEditor :: "string \<Rightarrow> string \<Rightarrow> string \<Rightarrow> js_error + Editor" where
  "openEditor modelName currentExpr currentRequestRuleExpr =
     (case parsed_rules currentRequestRuleExpr of
        Inl e \<Rightarrow> Inl e
      | Inr groups \<Rightarrow>
          Inr \<lparr>te_mode = VisualMode, te_visual = tryParseVisualConfig (Some currentExpr),
            te_raw = combineBillingExpr currentExpr currentRequestRuleExpr, te_groups = groups, te_init = False,
            te_expr = currentExpr, te_rules = currentRequestRuleExpr, te_model = modelName,
            te_seen = None, te_seenModel = None\<rparr>)"

text \<open>The effects\<close>

definition loadExpr :: "Editor \<Rightarrow> js_error + Editor" where
  "loadExpr s =
     (if te_seen s = Some (te_expr s, te_rules s) \<or> te_init s then Inr s
      else let s1 = s\<lparr>te_init := True\<rparr>;
               s2 = (case tryParseVisualConfig (Some (te_expr s)) of
                       Some parsedConfig \<Rightarrow> s1\<lparr>te_visual := Some parsedConfig, te_mode := VisualMode\<rparr>
                     | None \<Rightarrow> if te_expr s \<noteq> [] then s1\<lparr>te_visual := None, te_mode := RawMode\<rparr>
                               else s1\<lparr>te_visual := Some createDefaultVisualConfig\<rparr>)
      in (case parsed_rules (te_rules s) of
            Inl e \<Rightarrow> Inl e
          | Inr groups \<Rightarrow>
              Inr (s2\<lparr>te_raw := combineBillingExpr (te_expr s) (te_rules s), te_groups := groups\<rparr>)))"

definition resetInit :: "Editor \<Rightarrow> Editor" where
  "resetInit s = (if te_seenModel s = Some (te_model s) then s else s\<lparr>te_init := False\<rparr>)"

definition canUseVisualRules :: "Editor \<Rightarrow> js_error + bool" where
  "canUseVisualRules s =
     (if te_rules s = [] then Inr True
      else (case tryParseRequestRuleExpr (te_rules s) of Inl e \<Rightarrow> Inl e | Inr parsed \<Rightarrow> Inr (parsed \<noteq> None)))"

definition effectiveExpr :: "Editor \<Rightarrow> js_error + string" where
  "effectiveExpr s =
     (if te_mode s = VisualMode then Inr (generateExprFromVisualConfig (te_visual s))
      else (case splitBillingExprAndRequestRules (te_raw s) of
              Inl e \<Rightarrow> Inl e | Inr parts \<Rightarrow> Inr (se_billingExpr parts)))"

text \<open>The effects that tell the parent, with the rendered state \<open>s\<close>\<close>

definition reportExpr :: "Editor \<Rightarrow> string \<Rightarrow> Editor \<Rightarrow> Editor" where
  "reportExpr s effective next = (if effective \<noteq> te_expr s then next\<lparr>te_expr := effective\<rparr> else next)"

definition reportRules :: "Editor \<Rightarrow> Editor \<Rightarrow> Editor" where
  "reportRules s next =
     (if te_mode s \<noteq> VisualMode then next
      else let ruleExpr = buildRequestRuleExpr (te_groups s)
      in if ruleExpr \<noteq> te_rules s then next\<lparr>te_rules := ruleExpr\<rparr> else next)"

definition commit :: "Editor \<Rightarrow> js_error + Editor" where
  "commit s =
     (case canUseVisualRules s of
        Inl e \<Rightarrow> Inl e
      | Inr _ \<Rightarrow>
          (case effectiveExpr s of
             Inl e \<Rightarrow> Inl e
           | Inr effective \<Rightarrow>
               (case loadExpr s of
                  Inl e \<Rightarrow> Inl e
                | Inr loaded \<Rightarrow>
                    Inr ((reportRules s (reportExpr s effective (resetInit loaded)))
                      \<lparr>te_seen := Some (te_expr s, te_rules s), te_seenModel := Some (te_model s)\<rparr>))))"

primrec commits :: "nat \<Rightarrow> Editor \<Rightarrow> js_error + Editor" where
  "commits 0 s = Inr s"
| "commits (Suc n) s = (case commit s of Inl e \<Rightarrow> Inl e | Inr s' \<Rightarrow> commits n s')"

definition at_rest :: "Editor \<Rightarrow> bool" where
  "at_rest s \<longleftrightarrow> commit s = Inr s"

text \<open>The handlers\<close>

definition handleVisualChange :: "VisualConfig \<Rightarrow> Editor \<Rightarrow> Editor" where
  "handleVisualChange next s = s\<lparr>te_visual := Some next\<rparr>"

definition handleRuleGroupsChange :: "RequestRuleGroup list \<Rightarrow> Editor \<Rightarrow> Editor" where
  "handleRuleGroupsChange next s = s\<lparr>te_groups := next\<rparr>"

definition handleRawChange :: "string \<Rightarrow> Editor \<Rightarrow> js_error + Editor" where
  "handleRawChange v s =
     (case splitBillingExprAndRequestRules v of
        Inl e \<Rightarrow> Inl e
      | Inr parts \<Rightarrow> Inr (s\<lparr>te_raw := v, te_rules := se_requestRuleExpr parts\<rparr>))"

definition handleModeChange :: "EditorMode \<Rightarrow> Editor \<Rightarrow> js_error + Editor" where
  "handleModeChange next s =
     (case next of
        VisualMode \<Rightarrow>
          (case splitBillingExprAndRequestRules (te_raw s) of
             Inl e \<Rightarrow> Inl e
           | Inr parts \<Rightarrow>
               (case parsed_rules (se_requestRuleExpr parts) of
                  Inl e \<Rightarrow> Inl e
                | Inr groups \<Rightarrow>
                    Inr (s\<lparr>te_visual := Some (nullish (tryParseVisualConfig (Some (se_billingExpr parts)))
                           createDefaultVisualConfig),
                         te_groups := groups, te_rules := se_requestRuleExpr parts, te_mode := VisualMode\<rparr>)))
      | RawMode \<Rightarrow>
          let expr = generateExprFromVisualConfig (te_visual s);
              ruleExpr = buildRequestRuleExpr (te_groups s)
          in Inr (s\<lparr>te_raw := or_string (combineBillingExpr expr ruleExpr) expr, te_mode := RawMode\<rparr>))"

definition applyPreset :: "Preset \<Rightarrow> Editor \<Rightarrow> Editor" where
  "applyPreset preset s =
     (let presetGroups = nullish (pr_requestRules preset) [];
          ruleExpr = buildRequestRuleExpr presetGroups;
          s1 = s\<lparr>te_raw := or_string (combineBillingExpr (pr_expr preset) ruleExpr) (pr_expr preset)\<rparr>;
          s2 = (case tryParseVisualConfig (Some (pr_expr preset)) of
                  Some parsed \<Rightarrow> s1\<lparr>te_visual := Some parsed, te_mode := VisualMode\<rparr>
                | None \<Rightarrow> s1\<lparr>te_mode := RawMode, te_visual := None\<rparr>)
      in s2\<lparr>te_groups := presetGroups, te_rules := ruleExpr\<rparr>)"

text \<open>The parent renames the model while its name is typed.\<close>

definition renameModel :: "string \<Rightarrow> Editor \<Rightarrow> Editor" where
  "renameModel modelName s = s\<lparr>te_model := modelName\<rparr>"

end
