(* ===== verification/Billing_Laws.thy ===== *)
theory Billing_Laws
  imports Billing_Rules
begin

text \<open>
  The printer and the parser of the request rules agree: what the editor builds from its groups is
  read back as these groups in normal form, and the combined expression is split into its two parts
  again. The conditions on the texts are those the patterns and the splitting loops need.
\<close>

section \<open>Texts\<close>

lemma rejects_rx [rx]:
  "\<not> p c \<Longrightarrow> rejects p (RSeq (lit (c # w)) r)" "rejects p (RSeq REnd r)"
  by (simp_all add: rejects_seq rejects_lit rejects_end)

lemma num_char_simps [simp]:
  "\<not> num_char CHR '' ''" "\<not> num_char CHR '')''" "\<not> num_char CHR ''?''" "\<not> num_char CHR '':''"
  "\<not> num_char CHR ''|''" "\<not> num_char CHR ''&''" "\<not> num_char CHR ''(''" "\<not> num_char quote_c"
  by (simp_all add: num_char_def is_digit_def)

lemma not_quote_simps [simp]: "\<not> not_quote quote_c"
  by (simp add: not_quote_def)

lemma numeric_chars: "isNumericLiteral t \<Longrightarrow> list_all num_char t \<and> t \<noteq> []"
proof -
  let ?P = "\<lambda>c. num_char c"
  let ?sign = "ropt (lit ''-'')"
  let ?exp = "ropt (rseq [RChar (\<lambda>c. c \<in> set ''eE''), ropt (RChar (\<lambda>c. c \<in> set ''+-'')), rplus digit])"
  let ?mant = "ROr (rseq [rplus digit, ropt (lit ''.''), RStar digit]) (rseq [lit ''.'', rplus digit])"
  let ?r = "rseq [?sign, ?mant, ?exp, REnd]"
  assume "isNumericLiteral t"
  then have "run ?r ([], t, []) \<noteq> []"
    by (simp add: isNumericLiteral_def NUMERIC_LITERAL_REGEX_def rtest_start del: run.simps)
  then obtain s' where s': "s' \<in> set (run ?r ([], t, []))" by (meson list.set_sel(1))
  have "over num_char ?r" by (auto simp: rplus_def ropt_def digit_def num_char_def rseq_def)
  from run_consumed [OF this s'] have c: "\<exists>w. t = w @ fst (snd s') \<and> list_all num_char w"
    by (simp add: consumed_def)
  moreover have "fst (snd s') = []" using s' by (auto simp: rseq_def split: if_splits)
  ultimately have "list_all num_char t" by auto
  moreover have "t \<noteq> []"
    using \<open>run ?r ([], t, []) \<noteq> []\<close>
    by (auto simp: ropt_def rplus_def digit_def run_lit rseq_def)
  ultimately show ?thesis by simp
qed

text \<open>A text that \<open>JSON.stringify\<close> only puts in quotes.\<close>

definition plain_char :: "char \<Rightarrow> bool" where
  "plain_char c \<longleftrightarrow> map_of escapes c = None \<and> 32 \<le> (of_char c :: nat)"

definition plain_name :: "string \<Rightarrow> bool" where
  "plain_name s \<longleftrightarrow> list_all (\<lambda>c. plain_char c \<and> c \<notin> set ''()&|'') s"

definition plain_value :: "string \<Rightarrow> bool" where
  "plain_value s \<longleftrightarrow> list_all (\<lambda>c. c \<notin> set ''()&|'') s"

lemma quote_plain: "list_all plain_char s \<Longrightarrow> quote_string s = quote_c # s @ [quote_c]"
proof -
  assume "list_all plain_char s"
  then have "concat (map escape_char s) = s"
    by (induction s) (auto simp: escape_char_def plain_char_def)
  then show ?thesis by (simp add: quote_string_def)
qed

lemma plain_not_quote: "list_all plain_char s \<Longrightarrow> list_all not_quote s"
  by (auto simp: list_all_iff plain_char_def not_quote_def escapes_def)

lemma takeWhile_all_append [rx]:
  "list_all p s \<Longrightarrow> takeWhile p (s @ c # r) = (if p c then s @ takeWhile p (c # r) else s)"
  "list_all p s \<Longrightarrow> dropWhile p (s @ c # r) = dropWhile p (c # r)"
  "list_all p s \<Longrightarrow> takeWhile p s = s" "list_all p s \<Longrightarrow> dropWhile p s = []"
  by (induction s) auto

lemma time_func_prefix:
  "f \<in> set TIME_FUNCS \<Longrightarrow> u \<in> set TIME_FUNCS \<Longrightarrow> u \<noteq> f \<Longrightarrow> \<not> prefix u (f @ CHR ''('' # cs)"
  by (auto simp: TIME_FUNCS_def)

lemma run_time_func [rx]:
  "f \<in> set TIME_FUNCS \<Longrightarrow>
   run (RSeq (RGroup n (alts TIME_FUNCS)) r) (b, f @ CHR ''('' # cs, caps) =
   run r (rev f @ b, CHR ''('' # cs, (n, f) # caps)"
  by (rule run_alts_group) (auto simp: time_func_prefix, simp add: TIME_FUNCS_def)

lemma time_func_head: "f \<in> set TIME_FUNCS \<Longrightarrow> \<not> prefix (CHR ''('' # w) (f @ cs)"
  by (auto simp: TIME_FUNCS_def)

lemma run_not_time_func:
  "w \<in> set [''header('', ''param('', ''has('', ''(''] \<Longrightarrow>
   run (RSeq (RGroup n (alts TIME_FUNCS)) r) (b, w @ cs, caps) = []"
  by (auto simp: TIME_FUNCS_def rx simp del: run.simps)

section \<open>Reading one condition\<close>

lemma time_compare_match:
  assumes "f \<in> set TIME_FUNCS" "list_all not_quote tz" "tz \<noteq> []" "list_all num_char v" "v \<noteq> []"
    "op \<in> set [''=='', ''>='', ''<'']"
  shows "rmatch time_compare_re (f @ ''(\"'' @ tz @ ''\") '' @ op @ '' '' @ v) =
    Some [(4, v), (3, op), (2, tz), (1, f)]"
proof -
  consider "op = ''==''" | "op = ''>=''" | "op = ''<''" using assms(6) by auto
  then show ?thesis
    using assms(1-5) by cases (simp_all add: time_compare_re_def rx del: run.simps)
qed

lemma time_range_match:
  assumes "f \<in> set TIME_FUNCS" "list_all not_quote tz" "tz \<noteq> []" "list_all num_char s" "s \<noteq> []"
    "list_all num_char e" "e \<noteq> []"
  shows "rmatch time_range_re (f @ ''(\"'' @ tz @ ''\") >= '' @ s @ '' || '' @ f @ ''(\"'' @ tz @ ''\") < '' @ e) =
      Some [(4, e), (3, s), (2, tz), (1, f)]"
    "rmatch time_range_paren_re
       (''('' @ f @ ''(\"'' @ tz @ ''\") >= '' @ s @ '' || '' @ f @ ''(\"'' @ tz @ ''\") < '' @ e @ '')'') =
      Some [(4, e), (3, s), (2, tz), (1, f)]"
  using assms
  by (simp_all add: time_range_re_def time_range_paren_re_def time_range_pattern_def rx Let_def
      del: run.simps)

text \<open>String literals: a literal is made of plain characters and of escapes of two characters.\<close>

definition literal_token :: "string \<Rightarrow> bool" where
  "literal_token t \<longleftrightarrow> (\<exists>c. t = [c] \<and> c \<noteq> quote_c \<and> c \<noteq> backslash_c) \<or> (\<exists>e. t = [backslash_c, e] \<and> not_newline e)"

definition literal_unit :: regex where
  "literal_unit =
     ROr (RChar (\<lambda>c. c \<noteq> quote_c \<and> c \<noteq> backslash_c)) (rseq [lit [backslash_c], RChar not_newline])"

lemma run_unit: "literal_token t \<Longrightarrow> run literal_unit (b, t @ cs, caps) = [(rev t @ b, cs, caps)]"
  by (auto simp: literal_token_def literal_unit_def run_lit)

lemma run_unit_quote: "run literal_unit (b, quote_c # cs, caps) = []"
  by (simp add: literal_unit_def run_lit)

lemma token_not_Nil: "literal_token t \<Longrightarrow> t \<noteq> [] \<and> hd t \<noteq> quote_c"
  by (auto simp: literal_token_def)

lemma run_units:
  "list_all literal_token ts \<Longrightarrow>
   \<exists>ways. run (RStar literal_unit) (b, concat ts @ quote_c # cs, caps) =
       (rev (concat ts) @ b, quote_c # cs, caps) # ways \<and>
     (\<forall>w\<in>set ways. \<exists>b' c cs'. w = (b', c # cs', caps) \<and> c \<noteq> quote_c)"
proof (induction ts arbitrary: b)
  case Nil
  then show ?case by (subst run_star_unfold) (simp add: run_unit_quote)
next
  case (Cons t ts)
  let ?rest = "concat ts @ quote_c # cs"
  obtain ways where w: "run (RStar literal_unit) (rev t @ b, ?rest, caps) =
      (rev (concat ts) @ rev t @ b, quote_c # cs, caps) # ways"
    "\<forall>w\<in>set ways. \<exists>b' c cs'. w = (b', c # cs', caps) \<and> c \<noteq> quote_c"
    using Cons.IH [of "rev t @ b"] Cons.prems by auto
  have t: "t \<noteq> []" "hd t \<noteq> quote_c" using Cons.prems token_not_Nil by auto
  then obtain c t' where c: "t @ ?rest = c # t' @ ?rest" "c \<noteq> quote_c" by (cases t) auto
  have "run (RStar literal_unit) (b, t @ ?rest, caps) =
      run (RStar literal_unit) (rev t @ b, ?rest, caps) @ [(b, t @ ?rest, caps)]"
    using Cons.prems t by (subst run_star_unfold) (simp add: run_unit del: run.simps)
  then show ?case
    using w c by (intro exI [of _ "ways @ [(b, t @ ?rest, caps)]"]) (auto simp del: run.simps)
qed

lemma hex_char_plain: "d < 16 \<Longrightarrow> hex_char d \<noteq> quote_c \<and> hex_char d \<noteq> backslash_c"
proof -
  have "hex_val quote_c = None" "hex_val backslash_c = None" by (simp_all add: hex_val_def)
  then show "d < 16 \<Longrightarrow> ?thesis" using hex_val_hex_char [of d] by auto
qed

lemma escape_tokens: "\<exists>ts. list_all literal_token ts \<and> concat ts = escape_char c"
proof (cases "map_of escapes c")
  case (Some e)
  then have "not_newline e" by (auto simp: escapes_def not_newline_def split: if_splits)
  then show ?thesis
    using Some by (intro exI [of _ "[[backslash_c, e]]"]) (simp add: escape_char_def literal_token_def)
next
  case None
  note p = escapes_plain [OF None]
  show ?thesis
  proof (cases "(of_char c :: nat) < 32")
    case True
    then have "of_char c div 16 < (16 :: nat)" "of_char c mod 16 < (16 :: nat)" by auto
    then show ?thesis
      using True None hex_char_plain
      by (intro exI [of _ "[[backslash_c, CHR ''u''], ''0'', ''0'', [hex_char (of_char c div 16)],
            [hex_char (of_char c mod 16)]]"])
        (simp add: escape_char_def literal_token_def not_newline_def)
  qed (use None p in \<open>auto simp: escape_char_def literal_token_def intro!: exI [of _ "[[c]]"]\<close>)
qed

lemma string_tokens: "\<exists>ts. list_all literal_token ts \<and> concat ts = concat (map escape_char v)"
proof (induction v)
  case (Cons c v)
  then obtain ts where "list_all literal_token ts" "concat ts = concat (map escape_char v)" by blast
  moreover obtain us where "list_all literal_token us" "concat us = escape_char c"
    using escape_tokens by blast
  ultimately show ?case by (intro exI [of _ "us @ ts"]) simp
qed (simp add: exI [of _ "[]"])

lemma run_string_literal [rx]:
  "run (RSeq (string_literal n) r) (b, quote_string v @ cs, caps) =
   run r (rev (quote_string v) @ b, cs, (n, quote_string v) # caps)"
proof -
  obtain ts where ts: "list_all literal_token ts" "concat ts = concat (map escape_char v)"
    using string_tokens by blast
  obtain ways where w: "run (RStar literal_unit) (quote_c # b, concat ts @ quote_c # cs, caps) =
      (rev (concat ts) @ quote_c # b, quote_c # cs, caps) # ways"
    "\<forall>w\<in>set ways. \<exists>b' c cs'. w = (b', c # cs', caps) \<and> c \<noteq> quote_c"
    using run_units [OF ts(1)] by blast
  have "run (RSeq (RStar literal_unit) (RSeq (lit [quote_c]) (rseq []))) (quote_c # b, concat ts @ quote_c # cs, caps) =
      run (RSeq (lit [quote_c]) (rseq [])) (rev (concat ts) @ quote_c # b, quote_c # cs, caps)"
    using w by (intro seq_first) (auto simp: run_lit_seq simp del: run.simps)
  then have "run (rseq [lit [quote_c], RStar literal_unit, lit [quote_c]]) (b, quote_string v @ cs, caps) =
      [(rev (quote_string v) @ b, cs, caps)]"
    by (simp add: run_lit_seq quote_string_def ts(2) [symmetric] del: run.simps)
  then show ?thesis
    by (simp add: string_literal_def literal_unit_def [symmetric] del: run_rseq(2))
qed

lemma not_time_condition:
  "w \<in> set [''header('', ''param('', ''has(''] \<Longrightarrow> tryParseTimeCondition (w @ cs) = None"
proof -
  assume w: "w \<in> set [''header('', ''param('', ''has('']"
  then have p: "\<not> prefix ''('' (w @ cs)" by auto
  have "run (RSeq (RGroup n (alts TIME_FUNCS)) r) (b, w @ cs, caps) = []" for n r b caps
    using w by (intro run_not_time_func) auto
  then show ?thesis
    using p by (simp add: tryParseTimeCondition_def time_range_re_def time_range_paren_re_def
        time_range_pattern_def time_compare_re_def rmatch_start run_lit_seq del: run.simps)
qed

lemmas not_time_condition_simps =
  not_time_condition [of "''header(''", simplified] not_time_condition [of "''param(''", simplified]
  not_time_condition [of "''has(''", simplified]

lemma parse_time_compare:
  assumes "f \<in> set TIME_FUNCS" "list_all not_quote tz" "tz \<noteq> []" "list_all num_char v" "v \<noteq> []"
    "map_of [(''=='', MATCH_EQ), (''>='', MATCH_GTE), (''<'', MATCH_LT)] op = Some mode"
  shows "tryParseRequestCondition (f @ ''(\"'' @ tz @ ''\") '' @ op @ '' '' @ v) =
    Inr (Some (TimeC \<lparr>tc_timeFunc = f, tc_timezone = tz, tc_mode = mode, tc_value = v,
      tc_rangeStart = [], tc_rangeEnd = []\<rparr>))"
proof -
  let ?s = "f @ ''(\"'' @ tz @ ''\") '' @ op @ '' '' @ v"
  have op: "op \<in> set [''=='', ''>='', ''<'']" using assms(6) by (auto split: if_splits)
  note m = time_compare_match [OF assms(1-5) op]
  have "rmatch time_range_re ?s = None" "rmatch time_range_paren_re ?s = None"
  proof -
    show "rmatch time_range_paren_re ?s = None"
      using time_func_head [OF assms(1), of "[]"]
      by (simp add: time_range_paren_re_def rx del: run.simps)
    consider "op = ''==''" | "op = ''>=''" | "op = ''<''" using op by auto
    then show "rmatch time_range_re ?s = None"
      using assms(1-5) by cases (simp_all add: time_range_re_def time_range_pattern_def rx del: run.simps)
  qed
  then show ?thesis
    using m assms(6) by (simp add: tryParseRequestCondition_def tryParseTimeCondition_def grp_def Let_def)
qed

lemma parse_time_range:
  assumes "f \<in> set TIME_FUNCS" "list_all not_quote tz" "tz \<noteq> []" "list_all num_char s" "s \<noteq> []"
    "list_all num_char e" "e \<noteq> []"
    "text = f @ ''(\"'' @ tz @ ''\") >= '' @ s @ '' || '' @ f @ ''(\"'' @ tz @ ''\") < '' @ e"
  shows "tryParseRequestCondition text = Inr (Some (time_range [(4, e), (3, s), (2, tz), (1, f)]))"
    "tryParseRequestCondition (''('' @ text @ '')'') = Inr (Some (time_range [(4, e), (3, s), (2, tz), (1, f)]))"
proof -
  note m = time_range_match [OF assms(1-7)]
  have "rmatch time_range_re (''('' @ text @ '')'') = None"
    using run_not_time_func [of "''(''"]
    by (simp add: time_range_re_def time_range_pattern_def rmatch_start del: run.simps)
  then show "tryParseRequestCondition text = Inr (Some (time_range [(4, e), (3, s), (2, tz), (1, f)]))"
    "tryParseRequestCondition (''('' @ text @ '')'') = Inr (Some (time_range [(4, e), (3, s), (2, tz), (1, f)]))"
    using m by (simp_all add: assms(8) tryParseRequestCondition_def tryParseTimeCondition_def)
qed

lemma parse_exists:
  assumes "list_all not_quote p" "p \<noteq> []"
  shows "tryParseRequestCondition (''header(\"'' @ p @ ''\") != \"\"'') =
      Inr (Some (ph_condition Header p MATCH_EXISTS []))"
    "tryParseRequestCondition (''param(\"'' @ p @ ''\") != nil'') =
      Inr (Some (ph_condition Param p MATCH_EXISTS []))"
  using assms
  by (simp_all add: tryParseRequestCondition_def not_time_condition_simps header_exists_re_def
      param_exists_re_def rx grp_def del: run.simps)

lemma JSON_parse_quote [simp]: "JSON_parse (quote_string v) = Some (JStr v)"
  using js_json.parse_stringify [of "JStr v"] by (simp add: JSON_stringify_def)

lemma parse_header_contains:
  assumes "list_all not_quote p" "p \<noteq> []"
  shows "tryParseRequestCondition (''has(header(\"'' @ p @ ''\"), '' @ quote_string v @ '')'') =
      Inr (Some (ph_condition Header p MATCH_CONTAINS v))"
  using assms
  by (simp add: tryParseRequestCondition_def not_time_condition_simps header_exists_re_def
      param_exists_re_def header_contains_re_def rx grp_def with_literal_def del: run.simps)

lemma parse_equals:
  assumes "list_all not_quote p" "p \<noteq> []" "list_all not_newline l" "l \<noteq> []" "parseExprLiteral l = JStr v"
  shows "tryParseRequestCondition (source_text src @ ''(\"'' @ p @ ''\") == '' @ l) =
      Inr (Some (ph_condition src p MATCH_EQ v))"
  using assms
  by (cases src)
    (simp_all add: source_text_def source_of_def tryParseRequestCondition_def not_time_condition_simps
      header_exists_re_def param_exists_re_def header_contains_re_def param_contains_re_def
      param_compare_def param_compare_re_def equals_condition_def equals_re_def rx grp_def Let_def
      del: run.simps)

section \<open>Splitting\<close>

fun depth_ok :: "nat \<Rightarrow> string \<Rightarrow> bool" where
  "depth_ok d [] = (d = 0)"
| "depth_ok d (c # cs) =
     (if c = CHR ''('' then depth_ok (Suc d) cs
      else if c = CHR '')'' then 0 < d \<and> depth_ok (d - 1) cs
      else depth_ok d cs)"

definition no_parens :: "string \<Rightarrow> bool" where
  "no_parens s \<longleftrightarrow> list_all (\<lambda>c. c \<noteq> CHR ''('' \<and> c \<noteq> CHR '')'') s"

lemma depth_no_parens [simp]: "no_parens s \<Longrightarrow> depth_ok d (s @ t) = depth_ok d t"
  by (induction s) (auto simp: no_parens_def)

lemma depth_no_parens_end [simp]: "no_parens s \<Longrightarrow> depth_ok d s = (d = 0)"
  using depth_no_parens [of s d "[]"] by simp

lemma depth_append: "depth_ok d s \<Longrightarrow> depth_ok (d + k) (s @ t) = depth_ok k t"
  by (induction d s rule: depth_ok.induct) (auto split: if_splits)

text \<open>Nothing is split inside parentheses.\<close>

lemma split_inside:
  "depth_ok d s \<Longrightarrow> 0 < e \<Longrightarrow>
   split_top sep (e + int d) cur (s @ cs) = split_top sep e (cur @ s) cs"
proof (induction d s arbitrary: cur rule: depth_ok.induct)
  case (2 d c s)
  consider "c = CHR ''(''" | "c = CHR '')''" | "c \<noteq> CHR ''(''" "c \<noteq> CHR '')''" by blast
  then show ?case
  proof cases
    case 1
    then show ?thesis using 2 by (simp add: Let_def algebra_simps)
  next
    case 2
    then obtain d' where "d = Suc d'" using "2.prems" by (cases d) auto
    then show ?thesis using 2 "2.prems" "2.IH"(2) by (simp add: Let_def algebra_simps)
  next
    case 3
    then show ?thesis using 2 by (simp add: Let_def)
  qed
qed simp

lemma split_parens:
  assumes "depth_ok 0 s" "sep = CHR '' '' # sep'"
  shows "split_top sep 0 cur (''('' @ s @ '')'' @ cs) = split_top sep 0 (cur @ ''('' @ s @ '')'') cs"
  using split_inside [OF assms(1), of 1 sep "cur @ ''(''" "CHR '')'' # cs"] assms(2) by simp

text \<open>Text without the character of the separator, which does not end in a space, stays together.\<close>

lemma split_together:
  assumes "depth_ok d s" "x \<notin> set s" "s = [] \<or> last s \<noteq> CHR '' ''"
  shows "split_top (CHR '' '' # x # sep) (int d) cur (s @ cs) = split_top (CHR '' '' # x # sep) 0 (cur @ s) cs"
  using assms
proof (induction d s arbitrary: cur rule: depth_ok.induct)
  case (2 d c s)
  have n: "\<not> prefix (CHR '' '' # x # sep) (c # s @ cs)"
    using "2.prems"(2,3) by (cases s) auto
  have l: "s = [] \<or> last s \<noteq> CHR '' ''" "x \<notin> set s" using "2.prems" by auto
  consider "c = CHR ''(''" | "c = CHR '')''" | "c \<noteq> CHR ''(''" "c \<noteq> CHR '')''" by blast
  then show ?case
  proof cases
    case 1
    then show ?thesis using "2.IH"(1) [of "cur @ [c]"] "2.prems" n l by (simp add: Let_def add.commute)
  next
    case 2
    then obtain d' where "d = Suc d'" using "2.prems" by (cases d) auto
    then show ?thesis using 2 "2.IH"(2) [of "cur @ [c]"] "2.prems" n l by (simp add: Let_def)
  next
    case 3
    then show ?thesis using "2.IH"(3) [of "cur @ [c]"] "2.prems" n l by (auto simp: Let_def)
  qed
qed simp

lemma split_sep:
  "split_top (CHR '' '' # sep) 0 cur ((CHR '' '' # sep) @ cs) = trim cur # split_top (CHR '' '' # sep) 0 [] cs"
  by simp

lemma split_join:
  assumes "\<And>p cur cs. p \<in> set ps \<Longrightarrow> split_top (CHR '' '' # sep) 0 cur (p @ cs) =
      split_top (CHR '' '' # sep) 0 (cur @ p) cs"
    "ps \<noteq> []"
  shows "split_top (CHR '' '' # sep) 0 [] (join (CHR '' '' # sep) ps) = map trim ps"
  using assms
proof (induction ps)
  case (Cons p ps)
  show ?case
  proof (cases ps)
    case Nil
    then show ?thesis using Cons.prems(1) [of p "[]" "[]"] by simp
  next
    case (Cons q qs)
    have "split_top (CHR '' '' # sep) 0 [] (join (CHR '' '' # sep) (p # ps)) =
        split_top (CHR '' '' # sep) 0 p ((CHR '' '' # sep) @ join (CHR '' '' # sep) ps)"
      using Cons.prems(1) [of p "[]"] Cons by (simp add: join_Cons)
    then show ?thesis using Cons.IH Cons.prems Cons by (simp only: split_sep) simp
  qed
qed simp

section \<open>Literals\<close>

lemma stringify_string [simp]: "JSON_stringify (JStr v) = quote_string v"
  by (simp add: JSON_stringify_def)

lemma hex_digits: "list_all (\<lambda>d. hex_char d \<in> set ''0123456789abcdef'') [0..<16]"
  by code_simp

lemma hex_char_digit: "d < 16 \<Longrightarrow> hex_char d \<in> set ''0123456789abcdef''"
proof -
  assume "d < 16"
  then have "d \<in> set [0..<16]" by simp
  then show ?thesis using hex_digits unfolding list_all_iff by blast
qed

lemma escape_cases:
  "set (escape_char c) \<subseteq> insert quote_c (insert backslash_c (set ''bfnrtu0123456789abcdef'')) \<or>
   escape_char c = [c] \<and> 32 \<le> (of_char c :: nat)"
proof (cases "map_of escapes c")
  case (Some e)
  then show ?thesis by (auto simp: escape_char_def escapes_def split: if_splits)
next
  case None
  have "of_char c div 16 < (16 :: nat)" "of_char c mod 16 < (16 :: nat)"
    using nat_of_char_less_256 [of c] by (simp_all add: less_mult_imp_div_less)
  then have "hex_char (of_char c div 16) \<in> set ''0123456789abcdef''"
    "hex_char (of_char c mod 16) \<in> set ''0123456789abcdef''"
    using hex_char_digit by blast+
  then show ?thesis using None by (auto simp: escape_char_def)
qed

lemma quote_all:
  assumes "list_all p v" "list_all p (quote_c # backslash_c # ''bfnrtu0123456789abcdef'')"
  shows "list_all p (quote_string v)"
proof -
  have "list_all p (escape_char c)" if "c \<in> set v" for c
    using escape_cases [of c] that assms by (fastforce simp: list_all_iff)
  then show ?thesis using assms(2) by (auto simp: quote_string_def list_all_iff)
qed

lemma plain_value_quote: "plain_value v \<Longrightarrow> plain_value (quote_string v)"
  unfolding plain_value_def by (rule quote_all) simp_all

lemma not_newline_quote: "list_all not_newline (quote_string v)"
proof -
  have "list_all not_newline (escape_char c)" for c
    using escape_cases [of c] by (fastforce simp: list_all_iff not_newline_def)
  then show ?thesis by (auto simp: quote_string_def list_all_iff not_newline_def)
qed

lemma quote_ends [simp]: "quote_string v \<noteq> []" "hd (quote_string v) = quote_c" "last (quote_string v) = quote_c"
  by (simp_all add: quote_string_def)

lemma quote_not_numeric: "\<not> isNumericLiteral (quote_string v)"
proof
  assume "isNumericLiteral (quote_string v)"
  then have "num_char (hd (quote_string v))" using numeric_chars [of "quote_string v"] by (cases "quote_string v") auto
  then show False by simp
qed

lemma is_space_quote [simp]: "\<not> is_space quote_c"
  by (simp add: is_space_code)

lemma trim_quote: "trim (quote_string v) = quote_string v"
  by (rule trim_by_id) (simp add: trimmed_by_def)

lemma num_not_space: "num_char c \<Longrightarrow> \<not> is_space c"
  by (auto simp: num_char_def is_space_code is_digit_def)

lemma literal_value: "mode \<noteq> MATCH_CONTAINS \<Longrightarrow> parseExprLiteral (buildExprLiteral mode v) = JStr (trim v)"
proof -
  assume m: "mode \<noteq> MATCH_CONTAINS"
  have q: "quote_string (trim v) \<noteq> ''true''" "quote_string (trim v) \<noteq> ''false''"
    by (simp_all add: quote_string_def)
  consider "trim v = ''true'' \<or> trim v = ''false''" | "isNumericLiteral (trim v)"
    "trim v \<noteq> ''true''" "trim v \<noteq> ''false''"
    | "\<not> isNumericLiteral (trim v)" "trim v \<noteq> ''true''" "trim v \<noteq> ''false''" by blast
  then show ?thesis
  proof cases
    case 1
    then show ?thesis
      using m by (auto simp: buildExprLiteral_def parseExprLiteral_def trim_by_def is_space_code)
  next
    case 2
    then show ?thesis using m by (simp add: buildExprLiteral_def parseExprLiteral_def Let_def)
  next
    case 3
    then show ?thesis
      using m q quote_not_numeric
      by (simp add: buildExprLiteral_def parseExprLiteral_def Let_def trim_quote)
  qed
qed

text \<open>What the printer needs of a literal: no newline, no separator, no space at its end.\<close>

lemma literal_shape:
  assumes "plain_value v"
  shows "list_all not_newline (buildExprLiteral mode v)" "plain_value (buildExprLiteral mode v)"
    "buildExprLiteral mode v \<noteq> []" "\<not> is_space (last (buildExprLiteral mode v))"
proof -
  have t: "plain_value (trim v)"
    using assms set_trim_by [of is_space v] by (auto simp: plain_value_def list_all_iff)
  have "(buildExprLiteral mode v = ''true'' \<or> buildExprLiteral mode v = ''false'') \<or>
      buildExprLiteral mode v = quote_string (trim v) \<or>
      buildExprLiteral mode v = trim v \<and> isNumericLiteral (trim v)"
    by (simp add: buildExprLiteral_def Let_def)
  then consider "buildExprLiteral mode v = ''true'' \<or> buildExprLiteral mode v = ''false''"
    | "buildExprLiteral mode v = quote_string (trim v)"
    | "buildExprLiteral mode v = trim v" "isNumericLiteral (trim v)" by blast
  then have "list_all not_newline (buildExprLiteral mode v) \<and> plain_value (buildExprLiteral mode v) \<and>
      buildExprLiteral mode v \<noteq> [] \<and> \<not> is_space (last (buildExprLiteral mode v))"
  proof cases
    case 1
    then show ?thesis by (auto simp: not_newline_def plain_value_def is_space_code)
  next
    case 2
    then show ?thesis using not_newline_quote plain_value_quote [OF t] by simp
  next
    case 3
    note n = numeric_chars [OF 3(2)]
    then have "\<not> is_space (last (trim v))" using num_not_space by (simp add: list_all_iff)
    moreover have "list_all not_newline (trim v)"
      using n by (auto simp: list_all_iff not_newline_def num_char_def is_digit_def)
    ultimately show ?thesis using 3(1) n t by simp
  qed
  then show "list_all not_newline (buildExprLiteral mode v)" "plain_value (buildExprLiteral mode v)"
    "buildExprLiteral mode v \<noteq> []" "\<not> is_space (last (buildExprLiteral mode v))" by simp_all
qed

section \<open>The conditions the editor builds\<close>

text \<open>The normal form in which a condition is read back.\<close>

definition read_back :: "RequestCondition \<Rightarrow> RequestCondition" where
  "read_back cond = (case cond of
      TimeC c \<Rightarrow>
        (case normalizeCondition (partial_time c) of
           TimeC n \<Rightarrow> TimeC
             (if tc_mode n = MATCH_RANGE
              then n\<lparr>tc_value := [], tc_rangeStart := trim (tc_rangeStart n), tc_rangeEnd := trim (tc_rangeEnd n)\<rparr>
              else n\<lparr>tc_value := trim (tc_value n), tc_rangeStart := [], tc_rangeEnd := []\<rparr>)
         | n \<Rightarrow> n)
    | ParamHeaderC c \<Rightarrow>
        (case normalizeCondition (partial_param c) of
           ParamHeaderC n \<Rightarrow> ParamHeaderC
             (n\<lparr>ph_path := trim (ph_path n),
                ph_value := (if ph_mode n = MATCH_EXISTS then [] else trim (ph_value n))\<rparr>)
         | n \<Rightarrow> n))"

text \<open>
  Conditions that survive: names without quotes, control characters and the characters the
  splitting loops look at, and for a parameter only the modes that are written as one term.
\<close>

definition plain_condition :: "RequestCondition \<Rightarrow> bool" where
  "plain_condition cond = (case cond of
      TimeC c \<Rightarrow> plain_name (tc_timezone c)
    | ParamHeaderC c \<Rightarrow> plain_name (ph_path c) \<and> plain_value (ph_value c) \<and>
        (ph_source c = Header \<or>
         ph_mode c \<notin> {MATCH_CONTAINS, MATCH_GT, MATCH_GTE, MATCH_LT, MATCH_LTE}))"

text \<open>A text that a conjunction can hold.\<close>

definition term_text :: "string \<Rightarrow> bool" where
  "term_text e \<longleftrightarrow> e \<noteq> [] \<and> depth_ok 0 e \<and> CHR ''&'' \<notin> set e \<and> \<not> is_space (hd e) \<and> \<not> is_space (last e)"

lemma normalize_time:
  "\<exists>n. normalizeCondition (partial_time c) = TimeC n \<and> tc_timeFunc n \<in> set TIME_FUNCS \<and>
     tc_timezone n = or_string (tc_timezone c) ''Asia/Shanghai'' \<and>
     tc_mode n \<in> {MATCH_EQ, MATCH_GTE, MATCH_LT, MATCH_RANGE} \<and>
     tc_value n = tc_value c \<and> tc_rangeStart n = tc_rangeStart c \<and> tc_rangeEnd n = tc_rangeEnd c"
  by (auto simp: normalizeCondition_def partial_time_def offered_mode_def getRequestRuleMatchOptions_def
      isTimeFunc_def TIME_FUNCS_def)

lemma normalize_param:
  "\<exists>n. normalizeCondition (partial_param c) = ParamHeaderC n \<and> ph_source n = ph_source c \<and>
     ph_path n = ph_path c \<and> ph_value n = ph_value c \<and>
     (ph_mode n = ph_mode c \<or> ph_mode n = MATCH_EQ) \<and>
     (ph_source c = Header \<longrightarrow> ph_mode n \<in> {MATCH_EQ, MATCH_CONTAINS, MATCH_EXISTS}) \<and>
     ph_mode n \<in> {MATCH_EQ, MATCH_CONTAINS, MATCH_EXISTS, MATCH_GT, MATCH_GTE, MATCH_LT, MATCH_LTE}"
  by (cases "ph_source c")
    (auto simp: normalizeCondition_def partial_param_def source_text_def source_of_def offered_mode_def
      getRequestRuleMatchOptions_def Let_def)

lemma plain_name_facts:
  assumes "plain_name s"
  shows "list_all plain_char s" "list_all not_quote s" "no_parens s" "CHR ''&'' \<notin> set s" "CHR ''|'' \<notin> set s"
    "quote_string s = quote_c # s @ [quote_c]"
proof -
  show p: "list_all plain_char s" using assms by (auto simp: plain_name_def list_all_iff)
  show "list_all not_quote s" using plain_not_quote [OF p] .
  show "quote_string s = quote_c # s @ [quote_c]" using quote_plain [OF p] .
  show "no_parens s" "CHR ''&'' \<notin> set s" "CHR ''|'' \<notin> set s"
    using assms by (auto simp: plain_name_def no_parens_def list_all_iff)
qed

lemma plain_value_facts:
  "plain_value s \<Longrightarrow> no_parens s" "plain_value s \<Longrightarrow> CHR ''&'' \<notin> set s" "plain_value s \<Longrightarrow> CHR ''|'' \<notin> set s"
  by (auto simp: plain_value_def no_parens_def list_all_iff)

lemma numeric_plain: "isNumericLiteral t \<Longrightarrow> plain_value t"
  using numeric_chars [of t] by (auto simp: plain_value_def list_all_iff)

lemma plain_name_trim: "plain_name s \<Longrightarrow> plain_name (trim s)"
  using set_trim_by [of is_space s] by (auto simp: plain_name_def list_all_iff)

lemma contains_bar: "contains e '' || '' \<Longrightarrow> CHR ''|'' \<in> set e"
  by (auto simp: contains_iff)

lemma time_func_text:
  "f \<in> set TIME_FUNCS \<Longrightarrow> no_parens f \<and> f \<noteq> [] \<and> CHR ''&'' \<notin> set f \<and> CHR ''|'' \<notin> set f \<and> \<not> is_space (hd f)"
  by (auto simp: TIME_FUNCS_def no_parens_def is_space_code)

definition reads_as :: "string \<Rightarrow> RequestCondition \<Rightarrow> bool" where
  "reads_as e cond \<longleftrightarrow> term_text e \<and> tryParseRequestCondition e = Inr (Some cond) \<and>
     (contains e '' || '' \<longrightarrow> tryParseRequestCondition (''('' @ e @ '')'') = Inr (Some cond))"

lemma last_numeric: "isNumericLiteral t \<Longrightarrow> \<not> is_space (last (s @ t))"
  using numeric_chars [of t] num_not_space by (simp add: list_all_iff)

lemma zone_text:
  assumes "plain_name tz"
  shows "plain_name (or_string tz ''Asia/Shanghai'')" "or_string tz ''Asia/Shanghai'' \<noteq> []"
  using assms
  by (cases tz; simp add: plain_name_def plain_char_def escapes_def)+

lemma time_compare_reads:
  assumes "f \<in> set TIME_FUNCS" "plain_name tz" "tz \<noteq> []" "isNumericLiteral v"
    "map_of [(''=='', MATCH_EQ), (''>='', MATCH_GTE), (''<'', MATCH_LT)] op = Some mode"
  shows "reads_as (f @ ''(\"'' @ tz @ ''\") '' @ op @ '' '' @ v)
    (TimeC \<lparr>tc_timeFunc = f, tc_timezone = tz, tc_mode = mode, tc_value = v, tc_rangeStart = [], tc_rangeEnd = []\<rparr>)"
proof -
  let ?e = "f @ ''(\"'' @ tz @ ''\") '' @ op @ '' '' @ v"
  note f = time_func_text [OF assms(1)] and z = plain_name_facts [OF assms(2)]
    and v = plain_value_facts [OF numeric_plain [OF assms(4)]] and n = numeric_chars [OF assms(4)]
  have op: "op \<in> set [''=='', ''>='', ''<'']" using assms(5) by (auto split: if_splits)
  then have o: "no_parens op" "CHR ''&'' \<notin> set op" "CHR ''|'' \<notin> set op"
    by (auto simp: no_parens_def)
  have "CHR ''|'' \<notin> set ?e" using f z v o by simp
  then have b: "\<not> contains ?e '' || ''" using contains_bar by blast
  have "term_text ?e"
    using f z v o last_numeric [OF assms(4), of "f @ ''(\"'' @ tz @ ''\") '' @ op @ '' ''"]
    by (simp add: term_text_def no_parens_def)
  moreover have "tryParseRequestCondition ?e = Inr (Some (TimeC \<lparr>tc_timeFunc = f, tc_timezone = tz,
      tc_mode = mode, tc_value = v, tc_rangeStart = [], tc_rangeEnd = []\<rparr>))"
    using n z(2) assms by (intro parse_time_compare) auto
  ultimately show ?thesis using b by (simp add: reads_as_def)
qed

lemma time_range_reads:
  assumes "f \<in> set TIME_FUNCS" "plain_name tz" "tz \<noteq> []" "isNumericLiteral s" "isNumericLiteral e"
  shows "reads_as (f @ ''(\"'' @ tz @ ''\") >= '' @ s @ '' || '' @ f @ ''(\"'' @ tz @ ''\") < '' @ e)
    (TimeC \<lparr>tc_timeFunc = f, tc_timezone = tz, tc_mode = MATCH_RANGE, tc_value = [], tc_rangeStart = s,
      tc_rangeEnd = e\<rparr>)"
proof -
  let ?e = "f @ ''(\"'' @ tz @ ''\") >= '' @ s @ '' || '' @ f @ ''(\"'' @ tz @ ''\") < '' @ e"
  note f = time_func_text [OF assms(1)] and z = plain_name_facts [OF assms(2)]
    and s = plain_value_facts [OF numeric_plain [OF assms(4)]]
    and v = plain_value_facts [OF numeric_plain [OF assms(5)]]
    and n = numeric_chars [OF assms(4)] numeric_chars [OF assms(5)]
  have "term_text ?e"
    using f z v s last_numeric [OF assms(5), of "f @ ''(\"'' @ tz @ ''\") >= '' @ s @ '' || '' @ f @ ''(\"'' @ tz @ ''\") < ''"]
    by (simp add: term_text_def no_parens_def)
  then show ?thesis
    using parse_time_range [OF assms(1) z(2) assms(3), of s e] n
    by (simp add: reads_as_def time_range_def grp_def)
qed

lemma build_time_reads:
  assumes "plain_name (tc_timezone c)" "buildTimeConditionExpr c \<noteq> []"
  shows "reads_as (buildTimeConditionExpr c) (read_back (TimeC c))"
proof -
  obtain n where n: "normalizeCondition (partial_time c) = TimeC n" "tc_timeFunc n \<in> set TIME_FUNCS"
    "tc_timezone n = or_string (tc_timezone c) ''Asia/Shanghai''"
    "tc_mode n \<in> {MATCH_EQ, MATCH_GTE, MATCH_LT, MATCH_RANGE}" using normalize_time by blast
  have z: "plain_name (tc_timezone n)" "tc_timezone n \<noteq> []" using zone_text [OF assms(1)] n(3) by simp_all
  note q = plain_name_facts(6) [OF z(1)]
  show ?thesis
  proof (cases "tc_mode n = MATCH_RANGE")
    case True
    then have "isNumericLiteral (trim (tc_rangeStart n))" "isNumericLiteral (trim (tc_rangeEnd n))"
      using assms(2) n(1) by (auto simp: buildTimeConditionExpr_def Let_def split: if_splits)
    then show ?thesis
      using time_range_reads [OF n(2) z] True n(1) q
      by (cases n) (simp add: buildTimeConditionExpr_def Let_def read_back_def)
  next
    case False
    then have v: "isNumericLiteral (trim (tc_value n))"
      using assms(2) n(1) by (auto simp: buildTimeConditionExpr_def Let_def split: if_splits)
    let ?op = "nullish (map_of [(MATCH_EQ, ''==''), (MATCH_GTE, ''>=''), (MATCH_LT, ''<'')] (tc_mode n)) ''==''"
    have op: "map_of [(''=='', MATCH_EQ), (''>='', MATCH_GTE), (''<'', MATCH_LT)] ?op = Some (tc_mode n)"
      using n(4) False by (auto simp: match_defs)
    show ?thesis
      using time_compare_reads [OF n(2) z v op] False n(1) q v
      by (cases n) (simp add: buildTimeConditionExpr_def Let_def read_back_def)
  qed
qed


lemma source_text_facts [simp]:
  "no_parens (source_text src)" "source_text src \<noteq> []" "CHR ''&'' \<notin> set (source_text src)"
  "CHR ''|'' \<notin> set (source_text src)" "\<not> is_space (hd (source_text src))"
  by (cases src; simp add: source_text_def no_parens_def is_space_code)+

lemma exists_reads:
  assumes "plain_name p" "p \<noteq> []"
  shows "reads_as (''header(\"'' @ p @ ''\") != \"\"'') (ph_condition Header p MATCH_EXISTS [])"
    "reads_as (''param(\"'' @ p @ ''\") != nil'') (ph_condition Param p MATCH_EXISTS [])"
proof -
  note z = plain_name_facts [OF assms(1)]
  have "CHR ''|'' \<notin> set (''header(\"'' @ p @ ''\") != \"\"'')" "CHR ''|'' \<notin> set (''param(\"'' @ p @ ''\") != nil'')"
    using z(5) by simp_all
  then have "\<not> contains (''header(\"'' @ p @ ''\") != \"\"'') '' || ''" "\<not> contains (''param(\"'' @ p @ ''\") != nil'') '' || ''"
    using contains_bar by blast+
  moreover have "term_text (''header(\"'' @ p @ ''\") != \"\"'')" "term_text (''param(\"'' @ p @ ''\") != nil'')"
    using z by (simp_all add: term_text_def no_parens_def is_space_code)
  ultimately show "reads_as (''header(\"'' @ p @ ''\") != \"\"'') (ph_condition Header p MATCH_EXISTS [])"
    "reads_as (''param(\"'' @ p @ ''\") != nil'') (ph_condition Param p MATCH_EXISTS [])"
    using parse_exists [OF z(2) assms(2)] by (simp_all add: reads_as_def)
qed

lemma contains_reads:
  assumes "plain_name p" "p \<noteq> []" "plain_value v"
  shows "reads_as (''has(header(\"'' @ p @ ''\"), '' @ quote_string v @ '')'') (ph_condition Header p MATCH_CONTAINS v)"
proof -
  let ?e = "''has(header(\"'' @ p @ ''\"), '' @ quote_string v @ '')''"
  note z = plain_name_facts [OF assms(1)] and q = plain_value_facts [OF plain_value_quote [OF assms(3)]]
  have "CHR ''|'' \<notin> set ?e" using z(5) q(3) by simp
  then have "\<not> contains ?e '' || ''" using contains_bar by blast
  moreover have "term_text ?e" using z q by (simp add: term_text_def no_parens_def is_space_code)
  ultimately show ?thesis using parse_header_contains [OF z(2) assms(2)] by (simp add: reads_as_def)
qed

lemma equals_reads:
  assumes "plain_name p" "p \<noteq> []" "plain_value v" "mode \<noteq> MATCH_CONTAINS"
  shows "reads_as (source_text src @ ''(\"'' @ p @ ''\") == '' @ buildExprLiteral mode v)
    (ph_condition src p MATCH_EQ (trim v))"
proof -
  let ?e = "source_text src @ ''(\"'' @ p @ ''\") == '' @ buildExprLiteral mode v"
  note z = plain_name_facts [OF assms(1)] and l = literal_shape [OF assms(3), of mode]
    and q = plain_value_facts [OF literal_shape(2) [OF assms(3), of mode]]
  have "CHR ''|'' \<notin> set ?e" using z(5) q(3) by simp
  then have "\<not> contains ?e '' || ''" using contains_bar by blast
  moreover have "term_text ?e" using z q l by (simp add: term_text_def)
  ultimately show ?thesis
    using parse_equals [OF z(2) assms(2) l(1,3) literal_value [OF assms(4)]] by (simp add: reads_as_def)
qed

lemma build_param_reads:
  assumes "plain_condition (ParamHeaderC c)" "buildRequestConditionExpr (ParamHeaderC c) \<noteq> []"
  shows "reads_as (buildRequestConditionExpr (ParamHeaderC c)) (read_back (ParamHeaderC c))"
proof -
  obtain n where n: "normalizeCondition (partial_param c) = ParamHeaderC n" "ph_source n = ph_source c"
    "ph_path n = ph_path c" "ph_value n = ph_value c" "ph_mode n = ph_mode c \<or> ph_mode n = MATCH_EQ"
    "ph_source c = Header \<longrightarrow> ph_mode n \<in> {MATCH_EQ, MATCH_CONTAINS, MATCH_EXISTS}"
    "ph_mode n \<in> {MATCH_EQ, MATCH_CONTAINS, MATCH_EXISTS, MATCH_GT, MATCH_GTE, MATCH_LT, MATCH_LTE}"
    using normalize_param by blast
  let ?p = "trim (ph_path n)"
  have e: "buildRequestConditionExpr (ParamHeaderC c) = build_param_header n"
    by (simp add: buildRequestConditionExpr_def n(1))
  have r: "read_back (ParamHeaderC c) = ph_condition (ph_source n) ?p (ph_mode n)
      (if ph_mode n = MATCH_EXISTS then [] else trim (ph_value n))"
    by (cases n) (simp add: read_back_def n(1) ph_condition_def)
  have p: "?p \<noteq> []" using assms(2) by (auto simp: e build_param_header_def Let_def)
  have pv: "plain_name ?p" "plain_value (ph_value n)" "plain_value (trim (ph_value n))"
    using assms(1) n(3,4) plain_name_trim set_trim_by [of is_space "ph_value n"]
    by (auto simp: plain_condition_def plain_value_def list_all_iff)
  note q = plain_name_facts(6) [OF pv(1)]
  consider "ph_mode n = MATCH_EXISTS" | "ph_mode n = MATCH_CONTAINS" "ph_source n = Header" | "ph_mode n = MATCH_EQ"
    using assms(1) n(2,5,6,7) by (auto simp: plain_condition_def)
  then show ?thesis
  proof cases
    case 1
    then show ?thesis using exists_reads [OF pv(1) p] p q
      by (cases "ph_source n") (simp_all add: e r build_param_header_def Let_def source_text_def)
  next
    case 2
    then show ?thesis using contains_reads [OF pv(1) p pv(3)] p q
      by (simp add: e r build_param_header_def Let_def source_text_def match_defs buildExprLiteral_def)
  next
    case 3
    then show ?thesis using equals_reads [OF pv(1) p pv(2), of MATCH_EQ "ph_source n"] p q
      by (simp add: e r build_param_header_def Let_def match_defs)
  qed
qed

lemma build_reads:
  assumes "plain_condition c" "buildRequestConditionExpr c \<noteq> []"
  shows "reads_as (buildRequestConditionExpr c) (read_back c)"
proof (cases c)
  case (TimeC tc)
  then show ?thesis
    using assms build_time_reads [of tc] by (simp add: plain_condition_def buildRequestConditionExpr_def)
next
  case (ParamHeaderC ph)
  then show ?thesis using assms build_param_reads by simp
qed

section \<open>Groups\<close>

lemma factor_match:
  assumes "c \<noteq> []" "list_all num_char m" "m \<noteq> []"
  shows "rmatch factor_re (''('' @ c @ '' ? '' @ m @ '' : 1)'') = Some [(2, m), (1, c)]"
proof -
  let ?v = "'' ? '' @ m @ '' : 1)''" and ?r = "rseq [lit '' ? '', numbers 2, lit '' : 1)'', REnd]"
  have q: "CHR ''?'' \<notin> set (drop 2 ?v)"
    using assms(2) by (auto simp: list_all_iff)
  have "run ?r (b', drop k ?v, caps') = []" if k: "0 < k" for k b' caps'
  proof -
    have "\<not> prefix '' ? '' (drop k ?v)"
    proof
      assume "prefix '' ? '' (drop k ?v)"
      then obtain t where "drop k ?v = '' ? '' @ t" by (auto simp: prefix_def)
      then have "drop 1 (drop k ?v) = ''? '' @ t" by simp
      then have "CHR ''?'' \<in> set (drop (k + 1) ?v)" by (simp add: add.commute)
      moreover have "set (drop (k + 1) ?v) \<subseteq> set (drop 2 ?v)" using k by (intro set_drop_subset_set_drop) simp
      ultimately show False using q by blast
    qed
    then show ?thesis by (simp add: run_lit_seq del: run.simps)
  qed
  then obtain late where
    "run (RSeq (RGroup 1 (rplus (RChar (\<lambda>c. True)))) ?r) (''('', c @ ?v, []) = run ?r (rev c @ ''('', ?v, [(1, c)]) @ late"
    using run_any_group_seq [OF assms(1), of ?v ?r 1 "''(''" "[]"] by blast
  then show ?thesis
    using assms(2,3) by (simp add: factor_re_def rx del: run.simps)
qed

lemma parse_conditions_map:
  "(\<And>c. c \<in> set cs \<Longrightarrow> tryParseRequestCondition (trim (g c)) = Inr (Some (f c))) \<Longrightarrow>
   parse_conditions (map g cs) = Inr (Some (map f cs))"
  by (induction cs) simp_all

definition kept_conditions :: "RequestRuleGroup \<Rightarrow> RequestCondition list" where
  "kept_conditions g = filter (\<lambda>c. buildRequestConditionExpr c \<noteq> []) (rg_conditions g)"

definition read_group :: "RequestRuleGroup \<Rightarrow> RequestRuleGroup option" where
  "read_group g =
     (if isNumericLiteral (trim (rg_multiplier g)) \<and> kept_conditions g \<noteq> []
      then Some \<lparr>rg_conditions = map read_back (kept_conditions g), rg_multiplier = trim (rg_multiplier g)\<rparr>
      else None)"

definition plain_group :: "RequestRuleGroup \<Rightarrow> bool" where
  "plain_group g \<longleftrightarrow> list_all plain_condition (rg_conditions g)"

text \<open>The texts of the conditions of a group as they stand in the conjunction.\<close>

definition term_of :: "RequestRuleGroup \<Rightarrow> RequestCondition \<Rightarrow> string" where
  "term_of g c =
     (let e = buildRequestConditionExpr c
      in if length (kept_conditions g) \<noteq> 1 \<and> contains e '' || '' then ''('' @ e @ '')'' else e)"

lemma filter_map_kept:
  "filter (\<lambda>e. e \<noteq> []) (map buildRequestConditionExpr (rg_conditions g)) =
   map buildRequestConditionExpr (kept_conditions g)"
  by (simp add: kept_conditions_def filter_map comp_def)

lemma factor_text:
  assumes "read_group g = Some g'"
  shows "buildRuleGroupFactor g =
    ''('' @ join '' && '' (map (term_of g) (kept_conditions g)) @ '' ? '' @ trim (rg_multiplier g) @ '' : 1)''"
proof -
  have k: "kept_conditions g \<noteq> []" "isNumericLiteral (trim (rg_multiplier g))"
    using assms by (auto simp: read_group_def split: if_splits)
  show ?thesis
  proof (cases "length (kept_conditions g) = 1")
    case True
    then obtain c where "kept_conditions g = [c]" by (auto simp: length_Suc_conv)
    then show ?thesis using k by (simp add: buildRuleGroupFactor_def Let_def filter_map_kept term_of_def)
  next
    case False
    have t: "term_of g = (\<lambda>e. if contains e '' || '' then ''('' @ e @ '')'' else e) \<circ> buildRequestConditionExpr"
      using False by (auto simp: term_of_def Let_def)
    show ?thesis using k False by (simp add: buildRuleGroupFactor_def Let_def filter_map_kept t)
  qed
qed

lemma factor_empty: "read_group g = None \<Longrightarrow> buildRuleGroupFactor g = []"
  by (auto simp: read_group_def buildRuleGroupFactor_def Let_def filter_map_kept split: if_splits)

lemma term_reads:
  assumes "plain_group g" "c \<in> set (kept_conditions g)"
  shows "term_text (term_of g c)" "tryParseRequestCondition (term_of g c) = Inr (Some (read_back c))"
proof -
  have "plain_condition c" "buildRequestConditionExpr c \<noteq> []"
    using assms by (auto simp: plain_group_def kept_conditions_def list_all_iff)
  then have r: "reads_as (buildRequestConditionExpr c) (read_back c)" by (rule build_reads)
  moreover have "depth_ok 0 (''('' @ e @ '')'')" if "depth_ok 0 e" for e
    using depth_append [OF that, of 1 "'')''"] by simp
  ultimately show "term_text (term_of g c)" "tryParseRequestCondition (term_of g c) = Inr (Some (read_back c))"
    by (auto simp: reads_as_def term_of_def Let_def term_text_def is_space_code)
qed

lemma term_text_trim: "term_text e \<Longrightarrow> trim e = e"
  by (intro trim_by_id) (simp add: term_text_def trimmed_by_def)

lemma term_text_together:
  "term_text e \<Longrightarrow> split_top '' && '' 0 cur (e @ cs) = split_top '' && '' 0 (cur @ e) cs"
  using split_together [of 0 e "CHR ''&''" "''& ''"] by (auto simp: term_text_def is_space_code)

lemma split_terms:
  assumes "\<And>e. e \<in> set es \<Longrightarrow> term_text e" "es \<noteq> []"
  shows "splitTopLevelAnd (join '' && '' es) = es"
proof -
  have "split_top '' && '' 0 [] (join '' && '' es) = map trim es"
    using assms by (intro split_join term_text_together)
  also have "\<dots> = es" using assms(1) term_text_trim by (intro map_idI) auto
  finally show ?thesis
    using assms(1) by (simp add: splitTopLevelAnd_def filter_id_conv term_text_def)
qed

lemma depth_join: "(\<And>e. e \<in> set es \<Longrightarrow> depth_ok 0 e) \<Longrightarrow> no_parens sep \<Longrightarrow> depth_ok 0 (join sep es)"
proof (induction es)
  case (Cons e es)
  then show ?case
    using depth_append [of 0 e 0] by (cases es) (simp_all add: join_Cons)
qed simp


lemma factor_reads:
  assumes "plain_group g" "read_group g = Some g'"
  shows "tryParseRuleGroupFactor (buildRuleGroupFactor g) = Inr (Some g')"
    "\<exists>inner. buildRuleGroupFactor g = ''('' @ inner @ '')'' \<and> depth_ok 0 inner"
proof -
  let ?es = "map (term_of g) (kept_conditions g)" and ?m = "trim (rg_multiplier g)"
  have k: "kept_conditions g \<noteq> []" "isNumericLiteral ?m"
    "g' = \<lparr>rg_conditions = map read_back (kept_conditions g), rg_multiplier = ?m\<rparr>"
    using assms(2) by (auto simp: read_group_def split: if_splits)
  note t = factor_text [OF assms(2)] and n = numeric_chars [OF k(2)]
  have es: "\<And>e. e \<in> set ?es \<Longrightarrow> term_text e" "?es \<noteq> []" using term_reads(1) [OF assms(1)] k(1) by auto
  have ne: "join '' && '' ?es \<noteq> []"
  proof -
    obtain e es' where e: "?es = e # es'" using es(2) by (cases ?es) auto
    then have "e \<noteq> []" using es(1) [of e] by (simp add: term_text_def)
    then show ?thesis unfolding e by (cases es') (simp_all add: join_Cons)
  qed
  have "parse_conditions ?es = Inr (Some (map read_back (kept_conditions g)))"
    using term_reads [OF assms(1)] term_text_trim by (intro parse_conditions_map) auto
  then show "tryParseRuleGroupFactor (buildRuleGroupFactor g) = Inr (Some g')"
    using factor_match [OF ne] n split_terms [OF es] k
    by (simp add: t tryParseRuleGroupFactor_def grp_def)
  have "depth_ok 0 (join '' && '' ?es)"
    using es(1) by (intro depth_join) (auto simp: term_text_def no_parens_def)
  moreover have "no_parens (?m @ '' : 1'')"
    using plain_value_facts(1) [OF numeric_plain [OF k(2)]] by (simp add: no_parens_def)
  ultimately have "depth_ok 0 (join '' && '' ?es @ '' ? '' @ ?m @ '' : 1'')"
    using depth_append [of 0 "join '' && '' ?es" 0 "'' ? '' @ ?m @ '' : 1''"] by simp
  then show "\<exists>inner. buildRuleGroupFactor g = ''('' @ inner @ '')'' \<and> depth_ok 0 inner"
    by (intro exI [of _ "join '' && '' ?es @ '' ? '' @ ?m @ '' : 1''"]) (simp add: t)
qed

definition factor_shape :: "string \<Rightarrow> bool" where
  "factor_shape e \<longleftrightarrow> (\<exists>inner. e = ''('' @ inner @ '')'' \<and> depth_ok 0 inner)"

lemma factor_together:
  "factor_shape e \<Longrightarrow> split_top '' * '' 0 cur (e @ cs) = split_top '' * '' 0 (cur @ e) cs"
  using split_parens [of _ "'' * ''" "''* ''" cur cs] by (auto simp: factor_shape_def)

lemma factor_trim: "factor_shape e \<Longrightarrow> trim e = e \<and> e \<noteq> []"
  by (auto simp: factor_shape_def trimmed_by_def is_space_code intro!: trim_by_id)

lemma split_factors:
  assumes "\<And>e. e \<in> set es \<Longrightarrow> factor_shape e" "es \<noteq> []"
  shows "splitTopLevelMultiply (join '' * '' es) = es"
proof -
  have "split_top '' * '' 0 [] (join '' * '' es) = map trim es"
    using assms by (intro split_join factor_together)
  also have "\<dots> = es" using assms(1) factor_trim by (intro map_idI) auto
  finally show ?thesis
    using assms(1) factor_trim by (simp add: splitTopLevelMultiply_def filter_id_conv)
qed

lemma trim_join_factors:
  assumes "\<And>e. e \<in> set es \<Longrightarrow> factor_shape e" "es \<noteq> []"
  shows "trim (join '' * '' es) = join '' * '' es \<and> join '' * '' es \<noteq> []"
proof -
  have "last (join '' * '' es) = CHR '')'' \<and> hd (join '' * '' es) = CHR ''('' \<and> join '' * '' es \<noteq> []"
    using assms
  proof (induction es)
    case (Cons e es)
    have e: "factor_shape e" using Cons.prems by simp
    show ?case
    proof (cases es)
      case Nil
      then show ?thesis using e by (auto simp: factor_shape_def)
    next
      case (Cons f fs)
      then have "last (join '' * '' es) = CHR '')'' \<and> join '' * '' es \<noteq> []" using Cons.IH Cons.prems by simp
      then show ?thesis using e Cons by (auto simp: factor_shape_def join_Cons)
    qed
  qed simp
  then show ?thesis by (simp add: trim_by_id trimmed_by_def is_space_code)
qed

lemma parse_groups_map:
  "(\<And>g. g \<in> set gs \<Longrightarrow> tryParseRuleGroupFactor (h g) = Inr (Some (f g))) \<Longrightarrow>
   parse_groups (map h gs) = Inr (Some (map f gs))"
  by (induction gs) simp_all

text \<open>The factors of a rule expression.\<close>

definition kept_groups :: "RequestRuleGroup list \<Rightarrow> RequestRuleGroup list" where
  "kept_groups gs = filter (\<lambda>g. read_group g \<noteq> None) gs"

lemma build_rules_kept:
  assumes "list_all plain_group gs"
  shows "buildRequestRuleExpr gs = join '' * '' (map buildRuleGroupFactor (kept_groups gs))"
    "\<And>g. g \<in> set (kept_groups gs) \<Longrightarrow> factor_shape (buildRuleGroupFactor g)"
proof -
  show s: "factor_shape (buildRuleGroupFactor g)" if "g \<in> set (kept_groups gs)" for g
    using factor_reads(2) assms that by (fastforce simp: kept_groups_def factor_shape_def list_all_iff)
  have "(buildRuleGroupFactor g \<noteq> []) = (read_group g \<noteq> None)" if "g \<in> set gs" for g
    using factor_empty [of g] factor_trim s [of g] that by (auto simp: kept_groups_def)
  then have "filter (\<lambda>g. buildRuleGroupFactor g \<noteq> []) gs = kept_groups gs"
    unfolding kept_groups_def by (intro filter_cong) auto
  then show "buildRequestRuleExpr gs = join '' * '' (map buildRuleGroupFactor (kept_groups gs))"
    by (simp add: buildRequestRuleExpr_def filter_map comp_def)
qed

section \<open>Building is stable\<close>

lemma build_read_back: "buildRequestConditionExpr (read_back c) = buildRequestConditionExpr c"
proof (cases c)
  case (TimeC tc)
  obtain n where n: "normalizeCondition (partial_time tc) = TimeC n" "tc_timeFunc n \<in> set TIME_FUNCS"
    "tc_timezone n = or_string (tc_timezone tc) ''Asia/Shanghai''"
    "tc_mode n \<in> {MATCH_EQ, MATCH_GTE, MATCH_LT, MATCH_RANGE}" using normalize_time by blast
  have z: "or_string (tc_timezone n) x = tc_timezone n" for x by (cases "tc_timezone tc") (simp_all add: n(3))
  have "normalizeCondition (partial_time m) = TimeC m"
    if "tc_timeFunc m = tc_timeFunc n" "tc_timezone m = tc_timezone n" "tc_mode m = tc_mode n" for m :: TimeCondition
    using n(2,4) that z
    by (cases m) (auto simp: normalizeCondition_def partial_time_def offered_mode_def
        getRequestRuleMatchOptions_def isTimeFunc_def)
  then show ?thesis
    using TimeC n(1)
    by (simp add: read_back_def buildRequestConditionExpr_def buildTimeConditionExpr_def Let_def)
next
  case (ParamHeaderC ph)
  obtain n where n: "normalizeCondition (partial_param ph) = ParamHeaderC n"
    "ph_source n = Header \<longrightarrow> ph_mode n \<in> {MATCH_EQ, MATCH_CONTAINS, MATCH_EXISTS}"
    "ph_mode n \<in> {MATCH_EQ, MATCH_CONTAINS, MATCH_EXISTS, MATCH_GT, MATCH_GTE, MATCH_LT, MATCH_LTE}"
    using normalize_param [of ph] by auto
  have "normalizeCondition (partial_param m) = ParamHeaderC m"
    if "ph_source m = ph_source n" "ph_mode m = ph_mode n" for m :: ParamHeaderCondition
    using n(2,3) that
    by (cases m; cases "ph_source n")
      (auto simp: normalizeCondition_def partial_param_def source_text_def source_of_def offered_mode_def
        getRequestRuleMatchOptions_def Let_def)
  then show ?thesis
    using ParamHeaderC n(1)
    by (auto simp: read_back_def buildRequestConditionExpr_def build_param_header_def buildExprLiteral_def Let_def
        match_defs)
qed

lemma read_back_stable:
  assumes "read_group g = Some g'"
  shows "buildRuleGroupFactor g' = buildRuleGroupFactor g"
proof -
  have g': "rg_conditions g' = map read_back (kept_conditions g)" "rg_multiplier g' = trim (rg_multiplier g)"
    using assms by (auto simp: read_group_def split: if_splits)
  have "map buildRequestConditionExpr (rg_conditions g') = map buildRequestConditionExpr (kept_conditions g)"
    by (simp add: g' build_read_back)
  moreover have "filter (\<lambda>e. e \<noteq> []) (map buildRequestConditionExpr (kept_conditions g)) =
      map buildRequestConditionExpr (kept_conditions g)"
    by (auto simp: filter_id_conv kept_conditions_def)
  ultimately show ?thesis
    by (simp only: buildRuleGroupFactor_def filter_map_kept g' trim_by_idem)
qed

lemma map_filter_kept: "List.map_filter read_group gs = map (\<lambda>g. the (read_group g)) (kept_groups gs)"
  by (simp add: List.map_filter_def kept_groups_def comp_def)

lemma build_stable:
  assumes "list_all plain_group gs"
  shows "buildRequestRuleExpr (List.map_filter read_group gs) = buildRequestRuleExpr gs"
proof -
  have m: "map buildRuleGroupFactor (List.map_filter read_group gs) = map buildRuleGroupFactor (kept_groups gs)"
    unfolding map_filter_kept map_map
    by (intro map_cong refl) (auto simp: kept_groups_def read_back_stable)
  have "filter (\<lambda>e. e \<noteq> []) (map buildRuleGroupFactor (kept_groups gs)) = map buildRuleGroupFactor (kept_groups gs)"
    using build_rules_kept(2) [OF assms] factor_trim by (auto simp: filter_id_conv)
  then show ?thesis
    using build_rules_kept(1) [OF assms] by (simp add: buildRequestRuleExpr_def m)
qed

section \<open>Taking expressions apart\<close>

lemma full_inside:
  "depth_ok d s \<Longrightarrow> 0 < e \<Longrightarrow> full_parens (e + int d) (s @ cs) = full_parens e cs"
proof (induction d s rule: depth_ok.induct)
  case (2 d c s)
  consider "c = CHR ''(''" | "c = CHR '')''" | "c \<noteq> CHR ''(''" "c \<noteq> CHR '')''" by blast
  then show ?case
  proof cases
    case 1
    then show ?thesis using 2 by (simp add: Let_def algebra_simps)
  next
    case 2
    then obtain d' where "d = Suc d'" using "2.prems" by (cases d) auto
    then show ?thesis using 2 "2.prems" "2.IH"(2) by (simp add: Let_def algebra_simps)
  next
    case 3
    then show ?thesis using 2 by (simp add: Let_def)
  qed
qed simp

lemma unwrap_once:
  assumes "depth_ok 0 s" "trim s = s" "\<not> hasFullOuterParens s"
  shows "unwrapOuterParens (''('' @ s @ '')'') = s"
proof -
  let ?p = "''('' @ s @ '')''"
  have "full_parens 0 ?p" using full_inside [OF assms(1), of 1 "'')''"] by simp
  then have h: "hasFullOuterParens ?p" by (simp add: hasFullOuterParens_def startsWith_def endsWith_def suffix_def)
  have t: "trim ?p = ?p" by (intro trim_by_id) (simp add: trimmed_by_def is_space_code)
  have i: "slice_inner ?p = s" by (simp add: slice_inner_def slice_def)
  have "unwrap_parens ?p = unwrap_parens s" using h i assms(2) by (subst unwrap_parens.simps) simp
  also have "\<dots> = s" using assms(3) by (subst unwrap_parens.simps) simp
  finally show ?thesis by (simp only: unwrapOuterParens_def t)
qed

lemma rules_of_factor:
  assumes "factor_shape e"
  shows "tryParseRequestRuleExpr e =
    (case tryParseRuleGroupFactor e of Inl x \<Rightarrow> Inl x | Inr None \<Rightarrow> Inr None | Inr (Some g) \<Rightarrow> Inr (Some [g]))"
proof -
  have "splitTopLevelMultiply e = [e]" using split_factors [of "[e]"] assms by simp
  then show ?thesis
    using factor_trim [OF assms] by (simp add: tryParseRequestRuleExpr_def split: sum.split option.split)
qed

lemma rule_parts_rules:
  "(\<And>e. e \<in> set es \<Longrightarrow> \<exists>g. tryParseRequestRuleExpr e = Inr (Some [g])) \<Longrightarrow> rule_parts es = Inr (es, [])"
  by (induction es) (fastforce split: sum.split)+


lemma rules_read_back:
  assumes "list_all plain_group gs"
  shows "tryParseRequestRuleExpr (buildRequestRuleExpr gs) = Inr (Some (List.map_filter read_group gs))"
proof -
  let ?fs = "map buildRuleGroupFactor (kept_groups gs)"
  note b = build_rules_kept [OF assms]
  have "tryParseRequestRuleExpr (join '' * '' ?fs) = Inr (Some (List.map_filter read_group gs))"
  proof (cases "kept_groups gs = []")
    case True
    then show ?thesis by (simp add: tryParseRequestRuleExpr_def map_filter_kept)
  next
    case False
    then have s: "splitTopLevelMultiply (join '' * '' ?fs) = ?fs"
      using b(2) by (intro split_factors) auto
    have t: "trim (join '' * '' ?fs) = join '' * '' ?fs" "join '' * '' ?fs \<noteq> []"
      using trim_join_factors [of ?fs] b(2) False by auto
    have "parse_groups ?fs = Inr (Some (map (\<lambda>g. the (read_group g)) (kept_groups gs)))"
      using factor_reads(1) assms
      by (intro parse_groups_map) (fastforce simp: kept_groups_def list_all_iff)
    then show ?thesis using s t by (simp add: tryParseRequestRuleExpr_def map_filter_kept)
  qed
  then show ?thesis using b(1) by simp
qed

section \<open>Properties\<close>

text \<open>
  C9: the request rules round trip. What the rule editor builds is read back, without an exception,
  as its groups in normal form: the groups with a numeric multiplier and at least one complete
  condition, with trimmed texts. Building again from the groups that were read gives the same text.
  This is so for plain groups: conditions on the time and on headers, and on parameters by
  presence or equality, with names that print unescaped and names and values without parentheses,
  & and |. A comparison or a contains condition on a parameter is not read back, see
  \<open>param_comparison_unreadable\<close>.
\<close>

theorem request_rules_round_trip:
  assumes "list_all plain_group gs"
  shows "tryParseRequestRuleExpr (buildRequestRuleExpr gs) = Inr (Some (List.map_filter read_group gs)) \<and>
    buildRequestRuleExpr (List.map_filter read_group gs) = buildRequestRuleExpr gs"
  using rules_read_back [OF assms] build_stable [OF assms] by simp

definition sample_groups :: "RequestRuleGroup list" where
  "sample_groups =
     [\<lparr>rg_conditions =
         [ParamHeaderC \<lparr>ph_source = Header, ph_path = ''x-plan'', ph_mode = MATCH_EQ, ph_value = '' pro ''\<rparr>,
          TimeC \<lparr>tc_timeFunc = ''hour'', tc_timezone = ''UTC'', tc_mode = MATCH_RANGE, tc_value = [],
            tc_rangeStart = ''22'', tc_rangeEnd = ''6''\<rparr>],
       rg_multiplier = ''0.5''\<rparr>,
      \<lparr>rg_conditions = [ParamHeaderC createEmptyCondition], rg_multiplier = ''2''\<rparr>]"

lemma plain_samples: "list_all plain_group sample_groups"
  by code_simp

lemma read_samples:
  "List.map_filter read_group sample_groups =
     [\<lparr>rg_conditions =
         [ParamHeaderC \<lparr>ph_source = Header, ph_path = ''x-plan'', ph_mode = MATCH_EQ, ph_value = ''pro''\<rparr>,
          TimeC \<lparr>tc_timeFunc = ''hour'', tc_timezone = ''UTC'', tc_mode = MATCH_RANGE, tc_value = [],
            tc_rangeStart = ''22'', tc_rangeEnd = ''6''\<rparr>],
       rg_multiplier = ''0.5''\<rparr>]"
  by code_simp

theorem request_rules_round_trip_witness:
  "tryParseRequestRuleExpr (buildRequestRuleExpr sample_groups) = Inr (Some
     [\<lparr>rg_conditions =
         [ParamHeaderC \<lparr>ph_source = Header, ph_path = ''x-plan'', ph_mode = MATCH_EQ, ph_value = ''pro''\<rparr>,
          TimeC \<lparr>tc_timeFunc = ''hour'', tc_timezone = ''UTC'', tc_mode = MATCH_RANGE, tc_value = [],
            tc_rangeStart = ''22'', tc_rangeEnd = ''6''\<rparr>],
       rg_multiplier = ''0.5''\<rparr>])"
  using request_rules_round_trip [OF plain_samples] by (simp only: read_samples)


text \<open>
  C10: combining a price expression with request rules and splitting the result returns both parts.
  The rules are those of plain groups as above and not empty; the price expression is trimmed, not
  empty, has balanced parentheses, none around the whole, and is not itself readable as a rule.
\<close>

theorem split_combine:
  assumes "list_all plain_group gs" "buildRequestRuleExpr gs \<noteq> []"
    "trim base = base" "base \<noteq> []" "depth_ok 0 base" "\<not> hasFullOuterParens base"
    "tryParseRuleGroupFactor (''('' @ base @ '')'') = Inr None"
  shows "splitBillingExprAndRequestRules (combineBillingExpr base (buildRequestRuleExpr gs)) =
    Inr \<lparr>se_billingExpr = base, se_requestRuleExpr = buildRequestRuleExpr gs\<rparr>"
proof -
  let ?fs = "map buildRuleGroupFactor (kept_groups gs)" and ?b = "''('' @ base @ '')''"
  note b = build_rules_kept [OF assms(1)]
  have fs: "\<And>e. e \<in> set ?fs \<Longrightarrow> factor_shape e" "?fs \<noteq> []" using b assms(2) by auto
  have bs: "factor_shape ?b" using assms(5) by (auto simp: factor_shape_def)
  have c: "combineBillingExpr base (buildRequestRuleExpr gs) = join '' * '' (?b # ?fs)"
    using trim_join_factors [OF fs] fs(2) assms(3,4) by (simp add: combineBillingExpr_def b(1) join_Cons)
  have all: "\<And>e. e \<in> set (?b # ?fs) \<Longrightarrow> factor_shape e" using fs(1) bs by auto
  have "\<exists>g. tryParseRequestRuleExpr e = Inr (Some [g])" if "e \<in> set ?fs" for e
    using that factor_reads(1) assms(1) rules_of_factor [OF fs(1)]
    by (fastforce simp: kept_groups_def list_all_iff)
  then have "rule_parts ?fs = Inr (?fs, [])" by (rule rule_parts_rules)
  moreover have "tryParseRequestRuleExpr ?b = Inr None" using rules_of_factor [OF bs] assms(7) by simp
  ultimately have "rule_parts (?b # ?fs) = Inr (?fs, [?b])" by simp
  moreover have "trim (join '' * '' (?b # ?fs)) = join '' * '' (?b # ?fs)" "join '' * '' (?b # ?fs) \<noteq> []"
    "splitTopLevelMultiply (join '' * '' (?b # ?fs)) = ?b # ?fs"
    using trim_join_factors [OF all] split_factors [OF all] by blast+
  ultimately have "splitBillingExprAndRequestRules (join '' * '' (?b # ?fs)) =
      Inr \<lparr>se_billingExpr = base, se_requestRuleExpr = join '' * '' ?fs\<rparr>"
    using fs(2) unwrap_once [OF assms(5,3,6)]
    by (simp add: splitBillingExprAndRequestRules_def Let_def del: rule_parts.simps(2) join.simps)
  then show ?thesis unfolding c by (simp only: b(1))
qed

theorem split_combine_witness:
  "splitBillingExprAndRequestRules (combineBillingExpr ''tier(1, p * 3)'' (buildRequestRuleExpr sample_groups)) =
    Inr \<lparr>se_billingExpr = ''tier(1, p * 3)'', se_requestRuleExpr = buildRequestRuleExpr sample_groups\<rparr>"
proof (rule split_combine [OF plain_samples])
  show "buildRequestRuleExpr sample_groups \<noteq> []" "\<not> hasFullOuterParens ''tier(1, p * 3)''"
    "tryParseRuleGroupFactor (''('' @ ''tier(1, p * 3)'' @ '')'') = Inr None"
    "trim ''tier(1, p * 3)'' = ''tier(1, p * 3)''" by code_simp+
qed simp_all

text \<open>
  A comparison of a parameter is built as a conjunction of two terms; the parser splits the
  conjunction first and cannot read the second term alone, so the whole rule is not read back.
\<close>

lemma param_comparison_unreadable:
  assumes "plain_name p" "trim p = p" "p \<noteq> []"
  shows "tryParseRequestRuleExpr (buildRequestRuleExpr
    [\<lparr>rg_conditions = [ParamHeaderC \<lparr>ph_source = Param, ph_path = p, ph_mode = MATCH_GT, ph_value = ''5''\<rparr>],
      rg_multiplier = ''2''\<rparr>]) = Inr None"
proof -
  let ?s = "''param(\"'' @ p @ ''\")''"
  let ?e1 = "?s @ '' != nil''" and ?e2 = "?s @ '' > 5''"
  note z = plain_name_facts [OF assms(1)]
  have n: "isNumericLiteral ''5''" "isNumericLiteral ''2''" "trim ''5'' = ''5''" "trim ''2'' = ''2''" by code_simp+
  have "buildRequestRuleExpr [\<lparr>rg_conditions = [ParamHeaderC
      \<lparr>ph_source = Param, ph_path = p, ph_mode = MATCH_GT, ph_value = ''5''\<rparr>], rg_multiplier = ''2''\<rparr>] =
      ''('' @ join '' && '' [?e1, ?e2] @ '' ? 2 : 1)''"
    using assms(2,3) n z(6)
    by (simp add: buildRequestRuleExpr_def buildRuleGroupFactor_def buildRequestConditionExpr_def Let_def
        normalizeCondition_def partial_param_def source_text_def source_of_def offered_mode_def
        getRequestRuleMatchOptions_def build_param_header_def match_defs)
  moreover have "term_text ?e1" "term_text ?e2"
    using z by (simp_all add: term_text_def no_parens_def is_space_code)
  then have "splitTopLevelAnd (join '' && '' [?e1, ?e2]) = [?e1, ?e2]" by (intro split_terms) auto
  moreover have "tryParseRequestCondition ?e2 = Inr None"
    using z(2) assms(3)
    by (simp add: tryParseRequestCondition_def not_time_condition_simps header_exists_re_def
        param_exists_re_def header_contains_re_def param_contains_re_def param_compare_def
        param_compare_re_def equals_condition_def equals_re_def rx del: run.simps)
  moreover have "factor_shape (''('' @ join '' && '' [?e1, ?e2] @ '' ? 2 : 1)'')"
    unfolding factor_shape_def
    using z by (intro exI [of _ "join '' && '' [?e1, ?e2] @ '' ? 2 : 1''"]) (simp add: no_parens_def)
  moreover have "rmatch factor_re (''('' @ join '' && '' [?e1, ?e2] @ '' ? '' @ ''2'' @ '' : 1)'') =
      Some [(2, ''2''), (1, join '' && '' [?e1, ?e2])]"
    by (rule factor_match) (simp_all add: num_char_def is_digit_def)
  ultimately show ?thesis
    using rules_of_factor parse_exists(2) [OF z(2) assms(3)] term_text_trim
      \<open>term_text ?e1\<close> \<open>term_text ?e2\<close>
    by (simp add: tryParseRuleGroupFactor_def grp_def)
qed

end
