(* ===== verification/Tier_Laws.thy ===== *)
theory Tier_Laws
  imports Tier_Expr Billing_Laws
begin

text \<open>
  The expression that the visual editor builds is read back: the editor gets its configuration, the
  price pages get the tiers with their conditions and prices, and the match loops end on every text.
\<close>

section \<open>Numbers\<close>

definition plain_num :: "char \<Rightarrow> bool" where
  "plain_num c \<longleftrightarrow> is_digit c \<or> c = CHR ''.'' \<or> c = CHR ''-''"

lemma plain_digits_chars: "c \<in> set (plain_digits m k) \<Longrightarrow> is_digit c \<or> c = CHR ''.''"
  by (auto simp: plain_digits_def dest: nat_digits_digits pad_digits_digits split: if_splits)

lemma number_chars:
  assumes "printable_number x"
  shows "list_all plain_num (number_to_string x)" "number_to_string x \<noteq> []"
    "0 \<le> x \<Longrightarrow> list_all (\<lambda>c. is_digit c \<or> c = CHR ''.'') (number_to_string x)"
proof -
  obtain k where k: "decimals x = Some k" "plain_range x" using assms by (auto simp: printable_number_def)
  then have s: "number_to_string x = (if x < 0 then ''-'' else []) @ plain_digits (nat \<lfloor>\<bar>x\<bar> * 10 ^ k\<rfloor>) k"
    by (simp add: number_to_string_def Let_def)
  show "list_all plain_num (number_to_string x)"
    using plain_digits_chars by (auto simp: s list_all_iff plain_num_def)
  show "number_to_string x \<noteq> []" using plain_digits_head by (simp add: s)
  show "list_all (\<lambda>c. is_digit c \<or> c = CHR ''.'') (number_to_string x)" if "0 \<le> x"
    using plain_digits_chars that by (auto simp: s list_all_iff)
qed

lemma unsigned_decimal_json:
  assumes "p_unsigned s = Some (x, [])"
  shows "unsigned_decimal s = Some x"
proof (cases "dropWhile is_digit s")
  case Nil
  then show ?thesis
    using assms unfolding p_unsigned_def unsigned_decimal_def Let_def Nil
    by (simp add: p_fraction_def p_exponent_def split: if_splits)
next
  case (Cons c r)
  show ?thesis
  proof (cases "c = CHR ''.''")
    case True
    then show ?thesis
      using assms unfolding p_unsigned_def unsigned_decimal_def Let_def Cons
      by (auto simp: p_fraction_def Let_def split: if_splits Option.bind_splits)
  next
    case False
    then show ?thesis
      using assms unfolding p_unsigned_def unsigned_decimal_def Let_def Cons
      by (auto simp: p_fraction_def split: if_splits Option.bind_splits)
  qed
qed

lemma plain_num_not_space: "plain_num c \<Longrightarrow> \<not> is_space c"
  by (auto simp: plain_num_def is_space_code is_digit_def)

lemma js_Number_string:
  assumes "printable_number x"
  shows "js_Number (number_to_string x) = Some x"
proof -
  let ?s = "number_to_string x"
  note n = number_chars [OF assms]
  have t: "trim ?s = ?s" using n(1) plain_num_not_space by (intro trim_by_no_space) (auto simp: list_all_iff)
  have p: "p_number ?s = Some (x, [])"
    using p_number_to_string [OF assms, of "[]"] by (simp add: number_stop_def)
  obtain c r where c: "?s = c # r" using n(2) by (cases ?s) auto
  have "c \<noteq> CHR ''+''" using n(1) by (auto simp: c plain_num_def is_digit_def)
  then show ?thesis
    using p t by (auto simp: js_Number_def p_number_def c unsigned_decimal_json split: if_splits option.splits
        Option.bind_splits)
qed

section \<open>The cost terms\<close>

text \<open>The cost terms of a body: number of the group, variable and cost; a zero cost is left out.\<close>

fun cost_text :: "(nat \<times> string \<times> number) list \<Rightarrow> string" where
  "cost_text [] = []"
| "cost_text ((n, v, x) # ts) = (if x = 0 then [] else '' + '' @ v @ '' * '' @ number_to_string x) @ cost_text ts"

fun cost_caps :: "(nat \<times> string \<times> number) list \<Rightarrow> (nat \<times> string) list \<Rightarrow> (nat \<times> string) list" where
  "cost_caps [] caps = caps"
| "cost_caps ((n, v, x) # ts) caps = cost_caps ts (if x = 0 then caps else (n, number_to_string x) # caps)"

definition var_name :: "string \<Rightarrow> bool" where
  "var_name v \<longleftrightarrow> v \<noteq> [] \<and> list_all word_char v"

lemma spaces_seq [rx]:
  "rejects is_space r \<Longrightarrow> run (RSeq spaces r) (b, cs, caps) =
     run r (rev (takeWhile is_space cs) @ b, dropWhile is_space cs, caps)"
  by (simp add: spaces_def run_star_seq del: run.simps)

lemma rejects_spaces:
  "(\<And>c. p c \<Longrightarrow> \<not> is_space c) \<Longrightarrow> rejects p r \<Longrightarrow> rejects p (RSeq spaces r)"
  unfolding spaces_def by (intro rejects_star_seq) (simp_all add: rejects_char)

lemma space_simps [simp]: "is_space CHR '' ''" "\<not> is_space CHR ''+''" "\<not> is_space CHR ''*''" "\<not> is_space CHR '')''"
  "\<not> is_space CHR ''?''" "\<not> is_space CHR ''&''" "\<not> is_space CHR ''<''" "\<not> is_space CHR ''>''" "\<not> is_space CHR ''t''"
  "\<not> is_space CHR ''p''" "\<not> is_space CHR ''c''" "\<not> is_space CHR '':''" "\<not> is_space CHR ''l''"
  by (simp_all add: is_space_code)

lemma word_not_space: "word_char c \<Longrightarrow> \<not> is_space c \<and> c \<noteq> CHR ''*''"
  by (auto simp: word_char_def is_space_code)

lemma plain_num_num: "plain_num c \<Longrightarrow> num_char c"
  by (auto simp: plain_num_def num_char_def)

lemma num_rejects_space: "rejects is_space (RSeq (numbers n) r)"
  unfolding rejects_def
proof (intro allI impI)
  fix b c cs caps
  assume "is_space c"
  then have "\<not> num_char c" using num_not_space by blast
  then show "run (RSeq (numbers n) r) (b, c # cs, caps) = []" by (simp add: rplus_def)
qed

lemma lit_rejects_space: "\<not> is_space c \<Longrightarrow> rejects is_space (RSeq (lit (c # w)) r)"
  by (simp add: rejects_rx)

lemma var_rejects_space: "var_name v \<Longrightarrow> rejects is_space (RSeq (lit v) r)"
  using word_not_space by (cases v) (auto simp: var_name_def lit_rejects_space)

lemma number_space [simp]:
  assumes "printable_number x"
  shows "takeWhile is_space (number_to_string x @ u) = []" "dropWhile is_space (number_to_string x @ u) = number_to_string x @ u"
  using number_chars [OF assms] plain_num_not_space by (cases "number_to_string x"; auto)+

lemma var_space [simp]:
  assumes "var_name v"
  shows "takeWhile is_space (v @ u) = []" "dropWhile is_space (v @ u) = v @ u"
  using assms word_not_space by (cases v; auto simp: var_name_def)+

lemma num_seq:
  assumes "printable_number x" "cs = [] \<or> \<not> num_char (hd cs)" "rejects plain_num r"
  shows "run (RSeq (numbers n) r) (b, number_to_string x @ cs, caps) =
    run r (rev (number_to_string x) @ b, cs, (n, number_to_string x) # caps)"
proof (rule run_plus_group_word)
  note num = number_chars [OF assms(1)]
  show "list_all num_char (number_to_string x)" using num(1) plain_num_num by (auto simp: list_all_iff)
  show "rejects (\<lambda>c. c \<in> set (number_to_string x)) r"
    using num(1) by (intro rejects_mono [OF assms(3)]) (auto simp: list_all_iff)
qed (use number_chars [OF assms(1)] assms(2) in auto)

text \<open>A cost term that stands in the text, and one that does not\<close>

lemma term_present:
  assumes "var_name v" "printable_number x" "cs = [] \<or> \<not> num_char (hd cs)" "rejects plain_num r"
  shows "\<exists>b'. run (RSeq (cache_term n v) r) (b, '' + '' @ v @ '' * '' @ number_to_string x @ cs, caps) =
    run r (b', cs, (n, number_to_string x) # caps) @
    run r (b, '' + '' @ v @ '' * '' @ number_to_string x @ cs, caps)"
proof -
  have "run (RSeq (numbers n) (RSeq (rseq []) r)) (b', number_to_string x @ cs, caps) =
      run r (rev (number_to_string x) @ b', cs, (n, number_to_string x) # caps)" for b'
    using assms by (subst num_seq) (simp_all add: rx del: run.simps)
  then show ?thesis
    using assms(1,2) num_rejects_space var_rejects_space [OF assms(1)]
    by (auto simp: cache_term_def rx simp del: run.simps)
qed

lemma var_prefix:
  assumes "var_name v" "var_name w" "v \<noteq> w" "prefix v (w @ CHR '' '' # u)"
  shows "\<exists>c w'. word_char c \<and> drop (length v) (w @ CHR '' '' # u) = c # w'"
proof -
  have "prefix v w"
  proof (rule ccontr)
    assume "\<not> prefix v w"
    then obtain v' where v: "v = w @ v'" "v' \<noteq> []" "prefix v' (CHR '' '' # u)"
      using assms(3,4) by (auto simp: prefix_append)
    then have "CHR '' '' \<in> set v" by (cases v') auto
    then have "word_char CHR '' ''" using assms(1) by (simp add: var_name_def list_all_iff)
    then show False by (simp add: word_char_def)
  qed
  then obtain t where t: "w = v @ t" by (auto simp: prefix_def)
  then obtain c t' where c: "t = c # t'" using assms(3) by (cases t) auto
  then have "word_char c" using assms(2) by (simp add: t var_name_def)
  then show ?thesis by (simp add: t c)
qed

lemma term_absent:
  assumes "var_name v" "cs = CHR '')'' # u0 \<or> (\<exists>w u. var_name w \<and> w \<noteq> v \<and> cs = '' + '' @ w @ '' * '' @ u)"
  shows "run (RSeq (cache_term n v) r) (b, cs, caps) = run r (b, cs, caps)"
  using assms(2)
proof (elim disjE exE conjE)
  assume "cs = CHR '')'' # u0"
  then show ?thesis by (simp add: cache_term_def rx del: run.simps)
next
  fix w u assume w: "var_name w" "w \<noteq> v" "cs = '' + '' @ w @ '' * '' @ u"
  show ?thesis
  proof (cases "prefix v (w @ CHR '' '' # CHR ''*'' # CHR '' '' # u)")
    case True
    obtain c w' where c: "word_char c" "drop (length v) (w @ CHR '' '' # CHR ''*'' # CHR '' '' # u) = c # w'"
      using var_prefix [OF assms(1) w(1) _ True] w(2) by blast
    have "CHR ''*'' \<noteq> c" using word_not_space [OF c(1)] by auto
    then show ?thesis
      using c True assms(1) w word_not_space [OF c(1)] var_rejects_space [OF assms(1)] num_rejects_space
      by (simp add: cache_term_def rx del: run.simps)
  next
    case False
    then show ?thesis
      using assms(1) w var_rejects_space [OF assms(1)]
      by (simp add: cache_term_def rx del: run.simps)
  qed
qed

abbreviation term_ok :: "nat \<times> string \<times> number \<Rightarrow> bool" where
  "term_ok t \<equiv> var_name (fst (snd t)) \<and> printable_number (snd (snd t))"

abbreviation term_res :: "(nat \<times> string \<times> number) list \<Rightarrow> regex \<Rightarrow> regex" where
  "term_res ts r \<equiv> foldr (\<lambda>(n, v, x). RSeq (cache_term n v)) ts r"

lemma terms_reject: "rejects plain_num r \<Longrightarrow> rejects plain_num (term_res ts r)"
proof (induction ts)
  case (Cons t ts)
  obtain n v x where t: "t = (n, v, x)" by (cases t)
  have "rejects plain_num (RSeq spaces (RSeq (lit ''+'') q))" for q
    by (intro rejects_spaces) (auto simp: plain_num_not_space rx plain_num_def is_digit_def intro!: rejects_seq)
  then show ?case
    using Cons unfolding t cache_term_def by (auto simp: intro!: rejects_opt_seq)
qed simp

lemma cost_text_head:
  "cost_text ts @ '')'' @ u = CHR '')'' # u \<or>
   (\<exists>t u'. t \<in> set ts \<and> cost_text ts @ '')'' @ u = '' + '' @ fst (snd t) @ '' * '' @ u')"
proof (induction ts)
  case (Cons t ts)
  obtain n v x where t: "t = (n, v, x)" by (cases t)
  show ?case
  proof (cases "x = 0")
    case True
    then show ?thesis using Cons by (auto simp: t)
  next
    case False
    then show ?thesis
      by (intro disjI2 exI [of _ t] exI [of _ "number_to_string x @ cost_text ts @ '')'' @ u"]) (simp add: t)
  qed
qed simp

lemma cost_text_stop: "cost_text ts @ '')'' @ u = [] \<or> \<not> num_char (hd (cost_text ts @ '')'' @ u))"
  using cost_text_head [of ts u] by (elim disjE exE conjE) (simp_all add: num_char_def is_digit_def)

lemma terms_run:
  assumes "list_all term_ok ts" "distinct (map (fst \<circ> snd) ts)" "rejects plain_num r"
  shows "\<exists>b' more. run (term_res ts r) (b, cost_text ts @ '')'' @ u, caps) =
    run r (b', '')'' @ u, cost_caps ts caps) @ more"
  using assms
proof (induction ts arbitrary: b caps)
  case (Cons t ts)
  obtain n v x where t: "t = (n, v, x)" by (cases t)
  let ?R = "term_res ts r"
  have IH: "\<exists>b' more. run ?R (b, cost_text ts @ '')'' @ u, caps) = run r (b', '')'' @ u, cost_caps ts caps) @ more" for b caps
    using Cons by (simp add: comp_def)
  show ?case
  proof (cases "x = 0")
    case True
    have "cost_text ts @ '')'' @ u = CHR '')'' # u \<or>
        (\<exists>w u'. var_name w \<and> w \<noteq> v \<and> cost_text ts @ '')'' @ u = '' + '' @ w @ '' * '' @ u')"
      using cost_text_head [of ts u]
    proof (elim disjE exE conjE)
      fix t' u' assume t': "t' \<in> set ts" "cost_text ts @ '')'' @ u = '' + '' @ fst (snd t') @ '' * '' @ u'"
      then have "var_name (fst (snd t'))" "fst (snd t') \<noteq> v"
        using Cons.prems(1,2) by (auto simp: t list_all_iff)
      then show ?thesis using t'(2) by blast
    qed simp
    moreover have "var_name v" using Cons.prems(1) by (simp add: t)
    ultimately have "run (RSeq (cache_term n v) ?R) (b, cost_text ts @ '')'' @ u, caps) =
        run ?R (b, cost_text ts @ '')'' @ u, caps)" by (intro term_absent)
    then show ?thesis using IH True by (simp add: t del: run.simps)
  next
    case False
    have vx: "var_name v" "printable_number x" using Cons.prems(1) by (simp_all add: t)
    obtain b' where "run (RSeq (cache_term n v) ?R) (b, '' + '' @ v @ '' * '' @ number_to_string x @ cost_text ts @ '')'' @ u, caps) =
        run ?R (b', cost_text ts @ '')'' @ u, (n, number_to_string x) # caps) @
        run ?R (b, '' + '' @ v @ '' * '' @ number_to_string x @ cost_text ts @ '')'' @ u, caps)"
      using term_present [OF vx cost_text_stop terms_reject [OF Cons.prems(3)]] by blast
    moreover obtain b'' more where "run ?R (b', cost_text ts @ '')'' @ u, (n, number_to_string x) # caps) =
        run r (b'', '')'' @ u, cost_caps ts ((n, number_to_string x) # caps)) @ more" using IH by blast
    ultimately show ?thesis using False by (intro exI [of _ b'']) (simp add: t del: run.simps)
  qed
qed auto
section \<open>The body of a tier\<close>

definition tier_costs :: "nat \<Rightarrow> VisualTier \<Rightarrow> (nat \<times> string \<times> number) list" where
  "tier_costs n tier =
     map (\<lambda>(i, (field, v)). (n + i, v, nullish (tier_field tier field) 0)) (enumerate 0 BILLING_CACHE_VAR_MAP)"

definition costs_printable :: "VisualTier \<Rightarrow> bool" where
  "costs_printable tier \<longleftrightarrow> (\<forall>f\<in>set COST_FIELDS. printable_number (nullish (tier_field tier f) 0))"

lemma cache_vars:
  "BILLING_CACHE_VAR_MAP =
     [(''cache_read_unit_cost'', ''cr''), (''cache_create_unit_cost'', ''cc''), (''cache_create_1h_unit_cost'', ''cc1h''),
      (''image_unit_cost'', ''img''), (''image_output_unit_cost'', ''img_o''), (''audio_input_unit_cost'', ''ai''),
      (''audio_output_unit_cost'', ''ao'')]"
  by (simp add: BILLING_CACHE_VAR_MAP_def BILLING_EXTRA_VARS_def BILLING_VARS_def price_var_def)

lemma cost_text_filter:
  "cost_text (map (\<lambda>(i, (f, v)). (n + i, v, g f)) (enumerate k ms)) =
     concat (map ((@) '' + '') (List.map_filter (\<lambda>(f, v).
       let x = g f in if x \<noteq> 0 then Some (v @ '' * '' @ number_to_string x) else None) ms))"
  by (induction ms arbitrary: k) (auto simp: Let_def map_filter_simps)

lemma body_text:
  "buildTierBodyExpr tier = ''p * '' @ number_to_string (vt_input_unit_cost tier) @ '' + c * '' @
     number_to_string (vt_output_unit_cost tier) @ cost_text (tier_costs n tier)"
  by (simp add: buildTierBodyExpr_def tier_costs_def cost_text_filter join_concat)

lemma tier_costs_ok:
  assumes "costs_printable tier"
  shows "list_all term_ok (tier_costs n tier)" "distinct (map (fst \<circ> snd) (tier_costs n tier))"
    "distinct (map fst (tier_costs n tier))"
proof -
  show "list_all term_ok (tier_costs n tier)"
    using assms by (simp add: tier_costs_def cache_vars costs_printable_def COST_FIELDS_def var_name_def word_char_def)
  show "distinct (map (fst \<circ> snd) (tier_costs n tier))" by (simp add: tier_costs_def cache_vars)
  show "distinct (map fst (tier_costs n tier))" by (simp add: tier_costs_def cache_vars)
qed

lemma bodyPat_terms:
  "foldr RSeq (bodyPat n) r = foldr RSeq [lit ''p'', spaces, lit ''*'', spaces, numbers n, spaces, lit ''+'', spaces,
     lit ''c'', spaces, lit ''*'', spaces, numbers (n + 1)] (term_res (tier_costs (n + 2) tier) r)"
  by (simp add: bodyPat_def tier_costs_def cache_vars)

lemma spaces_reject_num: "rejects plain_num r \<Longrightarrow> rejects plain_num (RSeq spaces r)"
  by (rule rejects_spaces) (simp add: plain_num_not_space)

lemma body_run:
  assumes "costs_printable tier" "rejects plain_num r"
  shows "\<exists>b' more. run (foldr RSeq (bodyPat n) r) (b, buildTierBodyExpr tier @ '')'' @ u, caps) =
    run r (b', '')'' @ u, cost_caps (tier_costs (n + 2) tier)
      ((n + 1, number_to_string (vt_output_unit_cost tier)) # (n, number_to_string (vt_input_unit_cost tier)) # caps)) @ more"
proof -
  let ?x = "vt_input_unit_cost tier" and ?y = "vt_output_unit_cost tier" and ?ts = "tier_costs (n + 2) tier"
  have p: "printable_number ?x" "printable_number ?y"
    using assms(1) by (simp_all add: costs_printable_def COST_FIELDS_def tier_field_def)
  have y: "run (RSeq (numbers (n + 1)) (term_res ?ts r)) (b1, number_to_string ?y @ cost_text ?ts @ '')'' @ u, caps1) =
      run (term_res ?ts r) (rev (number_to_string ?y) @ b1, cost_text ?ts @ '')'' @ u, (n + 1, number_to_string ?y) # caps1)"
    for b1 caps1 using p assms(2) cost_text_stop terms_reject by (intro num_seq)
  have x: "run (RSeq (numbers n) (RSeq spaces (RSeq (lit ''+'') q))) (b1, number_to_string ?x @ CHR '' '' # u', caps1) =
      run (RSeq spaces (RSeq (lit ''+'') q)) (rev (number_to_string ?x) @ b1, CHR '' '' # u', (n, number_to_string ?x) # caps1)"
    for b1 caps1 u' q
    using p by (intro num_seq spaces_reject_num)
      (auto simp: rx num_char_def plain_num_def is_digit_def intro!: rejects_seq)
  have "\<exists>b1. run (foldr RSeq (bodyPat n) r) (b, buildTierBodyExpr tier @ '')'' @ u, caps) =
      run (term_res ?ts r) (b1, cost_text ?ts @ '')'' @ u, (n + 1, number_to_string ?y) # (n, number_to_string ?x) # caps)"
    unfolding bodyPat_terms [of n r tier] body_text [of tier "n + 2"]
    using x y p num_rejects_space lit_rejects_space
    by (auto simp: rx simp del: run.simps)
  then show ?thesis
    using terms_run [OF tier_costs_ok(1,2) [OF assms(1)] assms(2)] by metis
qed
text \<open>What the groups of a matched body say about the costs\<close>

lemma cost_caps_other: "k \<notin> fst ` set ts \<Longrightarrow> map_of (cost_caps ts caps) k = map_of caps k"
proof (induction ts arbitrary: caps)
  case (Cons t ts)
  then show ?case by (cases t) auto
qed simp

lemma cost_caps_of:
  "distinct (map fst ts) \<Longrightarrow> (k, v, x) \<in> set ts \<Longrightarrow>
   map_of (cost_caps ts caps) k = (if x = 0 then map_of caps k else Some (number_to_string x))"
proof (induction ts arbitrary: caps)
  case (Cons t ts)
  show ?case
  proof (cases "t = (k, v, x)")
    case True
    then have "k \<notin> fst ` set ts" using Cons.prems(1) by auto
    then show ?thesis by (simp add: True cost_caps_other)
  next
    case False
    then have "(k, v, x) \<in> set ts" using Cons.prems(2) by simp
    moreover obtain n w y where t: "t = (n, w, y)" by (cases t)
    moreover have "n \<noteq> k" using calculation Cons.prems(1) by force
    ultimately show ?thesis using Cons by simp
  qed
qed simp

lemma map_of_map_filter:
  "distinct (map key xs) \<Longrightarrow> x \<in> set xs \<Longrightarrow>
   map_of (List.map_filter (\<lambda>x. map_option (\<lambda>t. (key x, val t)) (h x)) xs) (key x) = map_option val (h x)"
proof (induction xs)
  case (Cons y ys)
  have "map_of (List.map_filter (\<lambda>x. map_option (\<lambda>t. (key x, val t)) (h x)) zs) (key y) = None"
    if "key y \<notin> key ` set zs" for zs
    using that by (induction zs) (auto simp: map_filter_simps split: option.split)
  moreover have "x \<in> set ys \<Longrightarrow> key x \<noteq> key y" using Cons.prems(1) by (metis distinct.simps(2) imageI list.simps(9) set_map)
  ultimately show ?case using Cons by (auto simp: map_filter_simps split: option.split)
qed simp

definition tier_complete :: "VisualTier \<Rightarrow> bool" where
  "tier_complete tier \<longleftrightarrow> (\<forall>f\<in>set COST_FIELDS. tier_field tier f \<noteq> None) \<and>
     vt_cache_mode tier =
       (if nullish (vt_cache_create_1h_unit_cost tier) 0 > 0 then CACHE_MODE_TIMED else CACHE_MODE_GENERIC)"

lemma matched_extra:
  assumes "costs_printable tier" "distinct (map fst ts)" "ts = tier_costs (n + 2) tier" "(i, (f, v)) \<in> set (enumerate 0 BILLING_CACHE_VAR_MAP)"
    "map_of caps (n + 2 + i) = None"
  shows "nullish (map_of (matched_costs n (cost_caps ts caps)) f) 0 = nullish (tier_field tier f) 0"
proof -
  let ?x = "nullish (tier_field tier f) 0" and ?m = "cost_caps ts caps"
  have f: "f \<in> set COST_FIELDS" "f \<noteq> ''input_unit_cost''" "f \<noteq> ''output_unit_cost''"
    using assms(4) by (auto simp: cache_vars COST_FIELDS_def)
  have "(n + 2 + i, v, ?x) \<in> set ts" using assms(3,4) by (force simp: tier_costs_def)
  then have "map_of ?m (n + 2 + i) = (if ?x = 0 then None else Some (number_to_string ?x))"
    using cost_caps_of [OF assms(2)] assms(5) by simp
  moreover have "map_of (matched_costs n ?m) f = map_option (\<lambda>t. nullish (js_Number t) 0) (map_of ?m (n + 2 + i))"
    using map_of_map_filter [of "fst \<circ> snd" "enumerate 0 BILLING_CACHE_VAR_MAP" "(i, (f, v))"
        "\<lambda>t. nullish (js_Number t) 0" "\<lambda>z. map_of ?m (n + 2 + fst z)"] assms(4) f(2,3)
    by (simp add: matched_costs_def case_prod_unfold comp_def) (simp add: cache_vars)
  moreover have "printable_number ?x" using assms(1) f(1) by (simp add: costs_printable_def)
  ultimately show ?thesis by (simp add: js_Number_string)
qed

lemma tier_values:
  assumes "tier_complete tier" "\<And>f. f \<in> set COST_FIELDS \<Longrightarrow> nullish (map_of cs f) 0 = nullish (tier_field tier f) 0"
  shows "normalizeVisualTier \<lparr>pa_label = Some (vt_label tier), pa_conditions = Some (vt_conditions tier),
    pa_cache_mode = None, pa_costs = cs\<rparr> = tier"
proof -
  have "tier_field tier f = Some (nullish (map_of cs f) 0)" if "f \<in> set COST_FIELDS" for f
    using that assms by (auto simp: tier_complete_def)
  note v = this [unfolded COST_FIELDS_def]
  show ?thesis
    using assms(1) v [of "''input_unit_cost''"] v [of "''output_unit_cost''"] v [of "''cache_read_unit_cost''"]
      v [of "''cache_create_unit_cost''"] v [of "''cache_create_1h_unit_cost''"] v [of "''image_unit_cost''"]
      v [of "''image_output_unit_cost''"] v [of "''audio_input_unit_cost''"] v [of "''audio_output_unit_cost''"]
    by (cases tier) (simp add: normalizeVisualTier_def getTierCacheMode_def partial_cost_def tier_field_def tier_complete_def)
qed

lemma matched_tier_back:
  assumes "costs_printable tier" "tier_complete tier" "fst ` set caps \<subseteq> {..<n}"
    "List.map_filter visual_condition (parse_tier_conditions condStr) = vt_conditions tier"
  shows "matched_tier n (vt_label tier) condStr (cost_caps (tier_costs (n + 2) tier)
    ((n + 1, number_to_string (vt_output_unit_cost tier)) # (n, number_to_string (vt_input_unit_cost tier)) # caps)) = tier"
proof -
  let ?c = "(n + 1, number_to_string (vt_output_unit_cost tier)) # (n, number_to_string (vt_input_unit_cost tier)) # caps"
  let ?m = "cost_caps (tier_costs (n + 2) tier) ?c"
  note ok = tier_costs_ok [OF assms(1), of "n + 2"]
  have later: "map_of ?c (n + 2 + i) = None" for i
    using assms(3) by (auto simp: map_of_eq_None_iff)
  have "n \<notin> fst ` set (tier_costs (n + 2) tier)" "n + 1 \<notin> fst ` set (tier_costs (n + 2) tier)"
    by (auto simp: tier_costs_def)
  then have "map_of ?m n = Some (number_to_string (vt_input_unit_cost tier))"
    "map_of ?m (n + 1) = Some (number_to_string (vt_output_unit_cost tier))" by (simp_all add: cost_caps_other)
  moreover have "printable_number (vt_input_unit_cost tier)" "printable_number (vt_output_unit_cost tier)"
    using assms(1) by (simp_all add: costs_printable_def COST_FIELDS_def tier_field_def)
  ultimately have base: "nullish (map_of (matched_costs n ?m) f) 0 = nullish (tier_field tier f) 0"
    if "f = ''input_unit_cost'' \<or> f = ''output_unit_cost''" for f
    using that by (auto simp: matched_costs_def grp_def js_Number_string tier_field_def)
  have "nullish (map_of (matched_costs n ?m) f) 0 = nullish (tier_field tier f) 0" if f: "f \<in> set COST_FIELDS" for f
  proof (cases "f = ''input_unit_cost'' \<or> f = ''output_unit_cost''")
    case False
    then have "f \<in> fst ` set BILLING_CACHE_VAR_MAP"
      using f by (simp add: COST_FIELDS_def cache_vars)
    then obtain i v where "i < length BILLING_CACHE_VAR_MAP" "BILLING_CACHE_VAR_MAP ! i = (f, v)"
      by (metis imageE in_set_conv_nth prod.collapse)
    then have "(i, (f, v)) \<in> set (enumerate 0 BILLING_CACHE_VAR_MAP)" by (simp add: in_set_enumerate_eq)
    then show ?thesis by (rule matched_extra [OF assms(1) ok(3) refl _ later])
  qed (rule base)
  then show ?thesis using tier_values [OF assms(2)] assms(4) by (simp add: matched_tier_def)
qed

end
