(* ===== verification/Tier_Conditions.thy ===== *)
theory Tier_Conditions
  imports Tier_Laws
begin

text \<open>
  The conditions of a tier in the text of an expression: the pattern of a condition group takes all
  of them, and splitting the group at the conjunctions gives them back.
\<close>
section \<open>A comparison\<close>

definition cond_text :: "TierConditionInput \<Rightarrow> string" where
  "cond_text c = ti_var c @ '' '' @ ti_op c @ '' '' @ value_text (ti_value c)"

definition cond_ok :: "TierConditionInput \<Rightarrow> bool" where
  "cond_ok c \<longleftrightarrow> ti_var c \<in> set [''p'', ''c'', ''len''] \<and> ti_op c \<in> set [''<'', ''<='', ''>'', ''>=''] \<and>
     (case ti_value c of NumberValue x \<Rightarrow> 0 \<le> x \<and> printable_number x | TextValue s \<Rightarrow> False)"

lemma plain_num_not_amp: "plain_num c \<Longrightarrow> \<not> is_space c \<and> c \<noteq> CHR ''&''"
  using plain_num_not_space [of c] by (auto simp: plain_num_def is_digit_def)

lemma cond_value:
  assumes "cond_ok c"
  shows "list_all cond_char (value_text (ti_value c))" "value_text (ti_value c) \<noteq> []"
    "list_all (\<lambda>c. \<not> is_space c \<and> c \<noteq> CHR ''&'') (value_text (ti_value c))"
proof -
  obtain x where x: "ti_value c = NumberValue x" "0 \<le> x" "printable_number x"
    using assms by (auto simp: cond_ok_def split: ConditionValue.splits)
  note n = number_chars [OF x(3)]
  show "list_all cond_char (value_text (ti_value c))"
    using n(3) [OF x(2)] by (auto simp: x(1) value_text_def cond_char_def list_all_iff)
  show "value_text (ti_value c) \<noteq> []" using n(2) by (simp add: x(1) value_text_def)
  show "list_all (\<lambda>c. \<not> is_space c \<and> c \<noteq> CHR ''&'') (value_text (ti_value c))"
    using n(1) plain_num_not_amp by (simp add: x(1) value_text_def list_all_iff)
qed

lemma cond_char_not: "cond_char c \<Longrightarrow> \<not> is_space c \<and> c \<noteq> CHR ''?'' \<and> c \<noteq> CHR ''&''"
  by (auto simp: cond_char_def is_space_code is_digit_def)

lemma plus_rejects_space: "rejects is_space (RSeq (rplus (RChar cond_char)) r)"
  using cond_char_not by (auto simp: rejects_def rplus_def)

lemma plus_rejected: "\<not> p c \<Longrightarrow> run (RSeq (rplus (RChar p)) r) (b, c # cs, caps) = []"
  by (simp add: rplus_def)

lemma ops_reject_space: "rejects is_space (RSeq (alts [''<'', ''<='', ''>'', ''>='']) r)"
  by (auto simp: rx rejects_def simp del: run.simps)

lemma comparison_run:
  assumes "cond_ok c"
  shows "run (foldr RSeq comparison r) (b, cond_text c @ cs, caps) =
    run (RSeq (rplus (RChar cond_char)) r) (rev (ti_var c @ '' '' @ ti_op c @ '' '') @ b, value_text (ti_value c) @ cs, caps)"
proof -
  have v: "takeWhile is_space (value_text (ti_value c) @ cs) = []"
    "dropWhile is_space (value_text (ti_value c) @ cs) = value_text (ti_value c) @ cs"
    using cond_value [OF assms] by (cases "value_text (ti_value c)"; simp)+
  have no: "\<not> cond_char CHR ''=''" "\<not> is_space CHR ''=''" by (simp_all add: cond_char_def is_digit_def is_space_code)
  have "ti_var c = ''p'' \<or> ti_var c = ''c'' \<or> ti_var c = ''len''"
    "ti_op c = ''<'' \<or> ti_op c = ''<='' \<or> ti_op c = ''>'' \<or> ti_op c = ''>=''"
    using assms by (simp_all add: cond_ok_def)
  then show ?thesis
    using v no plus_rejects_space ops_reject_space [unfolded alts_simps]
    by (elim disjE) (simp_all add: comparison_def cond_text_def rx plus_rejected del: run.simps)
qed
section \<open>A group of comparisons\<close>

text \<open>A comparison is read up to its end; any shorter way leaves a character of the value next.\<close>

lemma comparison_ways:
  assumes "cond_ok c" "cs = [] \<or> \<not> cond_char (hd cs)"
  shows "\<exists>b' ways. (\<forall>r. run (foldr RSeq comparison r) (b, cond_text c @ cs, caps) =
      run r (b', cs, caps) @ concat (map (run r) ways)) \<and>
    (\<forall>w\<in>set ways. \<exists>b' d cs'. w = (b', d # cs', caps) \<and> cond_char d)"
proof -
  let ?v = "value_text (ti_value c)" and ?b = "rev (ti_var c @ '' '' @ ti_op c @ '' '') @ b"
  note v = cond_value [OF assms(1)]
  have t: "takeWhile cond_char (?v @ cs) = ?v" "dropWhile cond_char (?v @ cs) = cs"
    using v(1) assms(2) by (cases cs; auto simp: list_all_iff takeWhile_append dropWhile_append)+
  obtain ways where w: "run (rplus (RChar cond_char)) (?b, ?v @ cs, caps) = (rev ?v @ ?b, cs, caps) # ways"
    "\<forall>w\<in>set ways. \<exists>b' d cs'. w = (b', d # cs', caps) \<and> cond_char d"
    using plus_class [of cond_char "?v @ cs" ?b caps] v(2) by (auto simp only: t)
  have "run (foldr RSeq comparison r) (b, cond_text c @ cs, caps) =
      run r (rev ?v @ ?b, cs, caps) @ concat (map (run r) ways)" for r
    unfolding comparison_run [OF assms(1)] run.simps(3) w(1) by simp
  then show ?thesis using w(2) by blast
qed

definition blocked :: "string \<Rightarrow> bool" where
  "blocked t = (case dropWhile is_space t of [] \<Rightarrow> True | c # _ \<Rightarrow> c \<noteq> CHR ''?'')"

definition and_cmp :: regex where
  "and_cmp = rseq ([spaces, lit ''&&'', spaces] @ comparison)"

abbreviation more_res :: regex where
  "more_res \<equiv> RStar and_cmp"

definition more_text :: "TierConditionInput list \<Rightarrow> string" where
  "more_text cs = concat (map (\<lambda>c. '' && '' @ cond_text c) cs)"

lemma and_rejects: "run and_cmp (b, t, caps) = []"
  if "\<not> prefix ''&&'' (dropWhile is_space t)" for b t caps
  using that by (simp add: and_cmp_def rx rejects_seq del: run.simps)

lemma vars_reject_space: "rejects is_space (foldr RSeq comparison r)"
  unfolding comparison_def list.simps foldr.simps comp_def alts_simps
  by (intro rejects_seq rejects_or) (simp_all add: rx)

lemma more_step:
  assumes "cond_ok c" "cs = [] \<or> \<not> cond_char (hd cs)"
  shows "\<exists>b' ways. run and_cmp (b, '' && '' @ cond_text c @ cs, caps) =
      (b', cs, caps) # ways \<and> (\<forall>w\<in>set ways. \<exists>b' d cs'. w = (b', d # cs', caps) \<and> cond_char d)"
proof -
  have "takeWhile is_space (cond_text c @ cs) = []" "dropWhile is_space (cond_text c @ cs) = cond_text c @ cs"
    using assms(1) by (auto simp: cond_ok_def cond_text_def)
  then have "\<exists>b1. run and_cmp (b, '' && '' @ cond_text c @ cs, caps) =
      run (foldr RSeq comparison REmpty) (b1, cond_text c @ cs, caps)"
    using vars_reject_space by (auto simp: and_cmp_def rseq_def rx rejects_seq simp del: run.simps run_rseq)
  then obtain b1 where b1: "run and_cmp (b, '' && '' @ cond_text c @ cs, caps) =
      run (foldr RSeq comparison REmpty) (b1, cond_text c @ cs, caps)" by blast
  obtain b' ways where w: "run (foldr RSeq comparison REmpty) (b1, cond_text c @ cs, caps) =
      run REmpty (b', cs, caps) @ concat (map (run REmpty) ways)"
    "\<forall>w\<in>set ways. \<exists>b' d cs'. w = (b', d # cs', caps) \<and> cond_char d"
    using comparison_ways [OF assms, of b1 caps] by metis
  have "concat (map (run REmpty) ways) = ways" by (induction ways) simp_all
  then show ?thesis using w b1 by simp
qed
lemma blocked_cond: "cond_char d \<Longrightarrow> blocked (d # cs)"
  using cond_char_not [of d] by (simp add: blocked_def)

lemma more_stops: "cond_char d \<Longrightarrow> run more_res (b, d # cs, caps) = [(b, d # cs, caps)]"
proof -
  assume "cond_char d"
  then have "\<not> prefix ''&&'' (dropWhile is_space (d # cs))" using cond_char_not [of d] by auto
  then show ?thesis by (subst run_star_unfold) (simp add: and_rejects del: run.simps)
qed

abbreviation way_ok :: "(nat \<times> string) list \<Rightarrow> rpos \<Rightarrow> bool" where
  "way_ok caps w \<equiv> snd (snd w) = caps \<and> blocked (fst (snd w))"

text \<open>What follows a group: not a character of a value, and no conjunction.\<close>

definition group_end :: "string \<Rightarrow> bool" where
  "group_end u \<longleftrightarrow> (u = [] \<or> \<not> cond_char (hd u)) \<and> \<not> prefix ''&&'' (dropWhile is_space u)"

lemma more_head: "group_end u \<Longrightarrow> more_text cs @ u = [] \<or> \<not> cond_char (hd (more_text cs @ u))"
  by (cases cs) (auto simp: more_text_def group_end_def cond_char_def is_digit_def)

lemma more_run:
  assumes "list_all cond_ok cs" "group_end u"
  shows "\<exists>b' ways. run more_res (b, more_text cs @ u, caps) = (b', u, caps) # ways \<and> (\<forall>w\<in>set ways. way_ok caps w)"
  using assms(1)
proof (induction cs arbitrary: b)
  case Nil
  have "run and_cmp (b, u, caps) = []"
    using assms(2) by (simp add: and_rejects group_end_def del: run.simps)
  then show ?case by (subst run_star_unfold) (simp add: more_text_def del: run.simps)
next
  case (Cons c cs)
  let ?A = and_cmp and ?T = "more_text cs @ u"
  let ?s = "(b, '' && '' @ cond_text c @ ?T, caps)"
  obtain b1 ways1 where 1: "run ?A ?s = (b1, ?T, caps) # ways1"
    "\<forall>w\<in>set ways1. \<exists>b' d cs'. w = (b', d # cs', caps) \<and> cond_char d"
    using more_step more_head [OF assms(2)] Cons.prems by (metis list.pred_inject(2))
  obtain b' ways where 2: "run more_res (b1, ?T, caps) = (b', u, caps) # ways" "\<forall>w\<in>set ways. way_ok caps w"
    using Cons by (metis list.pred_inject(2))
  let ?w1 = "filter (\<lambda>s'. remaining s' < remaining ?s) ways1"
  have "run more_res w = [w]" if "w \<in> set ?w1" for w using 1(2) that more_stops by fastforce
  then have "concat (map (run more_res) ?w1) = ?w1" by (rule concat_self)
  moreover have "run more_res ?s = run more_res (b1, ?T, caps) @ concat (map (run more_res) ?w1) @ [?s]"
    by (subst run_star_unfold) (simp only: 1(1), simp del: run.simps)
  ultimately have "run more_res ?s = (b', u, caps) # ways @ ?w1 @ [?s]" using 2(1) by simp
  moreover have "blocked ('' && '' @ cond_text c @ ?T)" by (simp add: blocked_def)
  moreover have "\<forall>w\<in>set ?w1. way_ok caps w" using 1(2) blocked_cond by fastforce
  ultimately show ?case using 2(2) by (intro exI [of _ b'] exI [of _ "ways @ ?w1 @ [?s]"]) (auto simp: more_text_def)
qed
definition conds_text :: "TierConditionInput list \<Rightarrow> string" where
  "conds_text cs = join '' && '' (map cond_text cs)"

lemma conds_text_Cons: "conds_text (c # cs) = cond_text c @ more_text cs"
  by (simp add: conds_text_def more_text_def join_concat comp_def)

lemma conds_run:
  assumes "list_all cond_ok (c # cs)" "group_end u"
  shows "\<exists>b' ways. run (rseq (comparison @ [more_res])) (b, conds_text (c # cs) @ u, caps) = (b', u, caps) # ways \<and>
    (\<forall>w\<in>set ways. way_ok caps w)"
proof -
  let ?T = "more_text cs @ u" and ?r = "RSeq more_res REmpty"
  obtain b1 ways1 where 1: "run (foldr RSeq comparison ?r) (b, cond_text c @ ?T, caps) =
      run ?r (b1, ?T, caps) @ concat (map (run ?r) ways1)"
    "\<forall>w\<in>set ways1. \<exists>b' d cs'. w = (b', d # cs', caps) \<and> cond_char d"
    using comparison_ways more_head [OF assms(2)] assms(1) by (metis list.pred_inject(2))
  obtain b' ways where 2: "run more_res (b1, ?T, caps) = (b', u, caps) # ways" "\<forall>w\<in>set ways. way_ok caps w"
    using more_run [OF _ assms(2)] assms(1) by (metis list.pred_inject(2))
  have "run ?r w = [w]" if "w \<in> set ways1" for w using 1(2) that more_stops run_seq_empty by fastforce
  then have "concat (map (run ?r) ways1) = ways1" by (rule concat_self)
  then have "run (rseq (comparison @ [more_res])) (b, conds_text (c # cs) @ u, caps) = (b', u, caps) # ways @ ways1"
    using 1(1) 2(1) unfolding conds_text_Cons by (simp add: rseq_def run_seq_empty del: run.simps run_rseq)
  moreover have "\<forall>w\<in>set ways1. way_ok caps w" using 1(2) blocked_cond by fastforce
  ultimately show ?thesis using 2(2) by (intro exI [of _ b'] exI [of _ "ways @ ways1"]) auto
qed

lemma condGroup_run:
  assumes "list_all cond_ok (c # cs)" "group_end u" "\<And>b t caps. blocked t \<Longrightarrow> run r (b, t, caps) = []"
  shows "\<exists>b'. run (RSeq (condGroup n) r) (b, conds_text (c # cs) @ u, caps) =
    run r (b', u, (n, conds_text (c # cs)) # caps)"
proof -
  obtain b' ways where w: "run (rseq (comparison @ [more_res])) (b, conds_text (c # cs) @ u, caps) = (b', u, caps) # ways"
    "\<And>w. w \<in> set ways \<Longrightarrow> blocked (fst (snd w))" using conds_run [OF assms(1,2)] by metis
  from group_first_by [where P = blocked, OF w assms(3), of n] show ?thesis
    by (intro exI [of _ b']) (simp add: condGroup_def and_cmp_def del: run.simps)
qed
section \<open>Splitting a group\<close>

lemma and_none: "\<not> prefix ''&&'' (dropWhile is_space t) \<Longrightarrow> run and_re (b, t, caps) = []"
  by (simp add: and_re_def rx rejects_seq del: run.simps)

lemma split_skip:
  "CHR ''&'' \<notin> set w \<Longrightarrow> w \<noteq> [] \<longrightarrow> \<not> is_space (last w) \<Longrightarrow>
   split_at and_re b cur (w @ rest) = split_at and_re (rev w @ b) (cur @ w) rest"
proof (induction w arbitrary: b cur)
  case (Cons c w)
  have "\<exists>d t. d \<noteq> CHR ''&'' \<and> dropWhile is_space ((c # w) @ rest) = d # t"
    using Cons.prems
  proof (induction w arbitrary: c)
    case (Cons e w)
    then show ?case by (cases "is_space c") auto
  qed auto
  then have "run and_re (b, c # w @ rest, []) = []" by (intro and_none) auto
  then show ?case using Cons by (cases w) (auto simp del: run.simps)
qed simp

lemma run_seq_nil: "run (RSeq r (rseq [])) s = run r s"
  by (simp add: rseq_def run_seq_empty del: run.simps)

lemma split_and:
  assumes "\<not> is_space d"
  shows "\<exists>b'. split_at and_re b cur ('' && '' @ d # t) = cur # split_at and_re b' [] (d # t)"
proof -
  have "\<exists>b' more. run and_re (b, '' && '' @ d # t, []) = (b', d # t, []) # more"
    using assms star_class [of is_space "''&& '' @ b" "'' '' @ d # t" "[]"]
    by (auto simp: and_re_def rx run_seq_nil rejects_seq spaces_def simp del: run.simps)
  then show ?thesis by (auto simp del: run.simps)
qed

lemma cond_trimmed:
  assumes "cond_ok c"
  shows "trim (cond_text c) = cond_text c" "CHR ''&'' \<notin> set (cond_text c)" "\<not> is_space (last (cond_text c))"
    "\<exists>d t. \<not> is_space d \<and> cond_text c = d # t"
proof -
  note v = cond_value [OF assms]
  have no_amp: "CHR ''&'' \<notin> set (value_text (ti_value c))" using v(3) unfolding list_all_iff by blast
  have "last (value_text (ti_value c)) \<in> set (value_text (ti_value c))" using v(2) by simp
  then have "\<not> is_space (last (value_text (ti_value c)))" using v(3) unfolding list_all_iff by blast
  then show l: "\<not> is_space (last (cond_text c))" using v(2) by (simp add: cond_text_def)
  have var: "ti_var c = ''p'' \<or> ti_var c = ''c'' \<or> ti_var c = ''len''"
    "ti_op c = ''<'' \<or> ti_op c = ''<='' \<or> ti_op c = ''>'' \<or> ti_op c = ''>=''"
    using assms by (simp_all add: cond_ok_def)
  from var(1) show h: "\<exists>d t. \<not> is_space d \<and> cond_text c = d # t" by (elim disjE) (simp_all add: cond_text_def)
  show "trim (cond_text c) = cond_text c" using l h by (intro trim_by_id) (auto simp: trimmed_by_def)
  show "CHR ''&'' \<notin> set (cond_text c)"
    using no_amp var by (elim disjE) (simp_all add: cond_text_def)
qed

lemma split_conds:
  "list_all cond_ok (c # cs) \<Longrightarrow> split_at and_re b [] (cond_text c @ more_text cs) = map cond_text (c # cs)"
proof (induction cs arbitrary: b c)
  case Nil
  then show ?case
    using split_skip [of "cond_text c" b "[]" "[]"] cond_trimmed(2,3) [of c] by (simp add: more_text_def del: run.simps split_at.simps(2))
next
  case (Cons e cs)
  obtain d t where d: "\<not> is_space d" "cond_text e = d # t" using cond_trimmed(4) [of e] Cons.prems by auto
  obtain b' where b': "split_at and_re (rev (cond_text c) @ b) (cond_text c) ('' && '' @ d # t @ more_text cs) =
      cond_text c # split_at and_re b' [] (d # t @ more_text cs)" using split_and [OF d(1)] by blast
  have "split_at and_re b [] (cond_text c @ more_text (e # cs)) =
      split_at and_re (rev (cond_text c) @ b) (cond_text c) ('' && '' @ d # t @ more_text cs)"
    using split_skip [of "cond_text c" b "[]" "more_text (e # cs)"] cond_trimmed(2,3) [of c] Cons.prems
    by (simp add: more_text_def d(2) del: run.simps split_at.simps(2))
  then show ?case using b' Cons.IH [of e b'] Cons.prems by (simp add: d(2) del: run.simps split_at.simps(2))
qed
definition read_condition :: "TierConditionInput \<Rightarrow> TierCondition" where
  "read_condition c = \<lparr>tn_var = ti_var c, tn_op = ti_op c,
     tn_value = (case ti_value c of NumberValue x \<Rightarrow> Some x | TextValue s \<Rightarrow> None)\<rparr>"

lemma condition_match:
  assumes "cond_ok c"
  shows "rmatch condition_re (cond_text c) = Some [(3, value_text (ti_value c)), (2, ti_op c), (1, ti_var c)]"
proof -
  let ?v = "value_text (ti_value c)"
  note v = cond_value [OF assms]
  have sp: "takeWhile is_space ?v = []" "dropWhile is_space ?v = ?v" "takeWhile cond_char ?v = ?v" "dropWhile cond_char ?v = []"
    using v by (cases ?v; simp add: list_all_iff)+
  have ne: "takeWhile cond_char ?v \<noteq> []" using v(2) unfolding sp(3) .
  have no: "\<not> cond_char CHR ''=''" "\<not> is_space CHR ''=''" by (simp_all add: cond_char_def is_digit_def is_space_code)
  have rj: "rejects is_space (RSeq (RGroup 2 (ROr (lit ''<'') (ROr (lit ''<='') (ROr (lit ''>'') (lit ''>=''))))) r)"
    "rejects is_space (RSeq (RGroup 3 (rplus (RChar cond_char))) r)" for r
  proof -
    show "rejects is_space (RSeq (RGroup 2 (ROr (lit ''<'') (ROr (lit ''<='') (ROr (lit ''>'') (lit ''>=''))))) r)"
      by (intro rejects_seq rejects_group rejects_or) (simp_all add: rx)
    show "rejects is_space (RSeq (RGroup 3 (rplus (RChar cond_char))) r)"
      using cond_char_not unfolding rplus_def by (intro rejects_seq rejects_group) (auto simp: rejects_char)
  qed
  have "ti_var c = ''p'' \<or> ti_var c = ''c'' \<or> ti_var c = ''len''"
    "ti_op c = ''<'' \<or> ti_op c = ''<='' \<or> ti_op c = ''>'' \<or> ti_op c = ''>=''"
    using assms by (simp_all add: cond_ok_def)
  then show ?thesis
    using sp ne v(2) no rj by (elim disjE) (simp_all add: condition_re_def cond_text_def rx rejects_seq del: run.simps)
qed

lemma parse_conds:
  assumes "list_all cond_ok cs"
  shows "parse_tier_conditions (conds_text cs) = map read_condition cs"
proof (cases cs)
  case Nil
  then show ?thesis by (simp add: parse_tier_conditions_def conds_text_def)
next
  case (Cons c cs')
  define f where "f cp = map_option (\<lambda>cm. \<lparr>tn_var = grp 1 cm, tn_op = grp 2 cm, tn_value = js_Number (grp 3 cm)\<rparr>)
    (rmatch condition_re (trim cp))" for cp
  have one: "f (cond_text d) = Some (read_condition d)" if "cond_ok d" for d
    using that by (simp add: f_def cond_trimmed(1) condition_match grp_def read_condition_def)
      (auto simp: cond_ok_def value_text_def js_Number_string split: ConditionValue.splits)
  have "List.map_filter f (map cond_text ds) = map read_condition ds" if "list_all cond_ok ds" for ds
    using that by (induction ds) (simp_all add: map_filter_simps one)
  moreover have "conds_text cs \<noteq> []" using cond_trimmed(4) [of c] assms by (auto simp: Cons conds_text_Cons)
  moreover have "rsplit and_re (conds_text cs) = map cond_text cs"
    using split_conds [of c cs' "[]"] assms by (simp add: rsplit_def Cons conds_text_Cons)
  ultimately show ?thesis using assms by (simp only: parse_tier_conditions_def f_def [symmetric] if_False)
qed

lemma visual_conds:
  "list_all cond_ok cs \<Longrightarrow> List.map_filter visual_condition (map read_condition cs) = cs"
  by (induction cs)
    (auto simp: map_filter_simps visual_condition_def read_condition_def cond_ok_def split: ConditionValue.splits)

lemma condition_str:
  "list_all cond_ok cs \<Longrightarrow> buildConditionStr cs = conds_text cs"
proof -
  assume ok: "list_all cond_ok cs"
  have "ti_var c \<noteq> [] \<and> ti_op c \<noteq> [] \<and> ti_value c \<noteq> TextValue []" if "cond_ok c" for c
    using that by (cases "ti_value c") (auto simp: cond_ok_def)
  with ok have "filter (\<lambda>c. ti_var c \<noteq> [] \<and> ti_op c \<noteq> [] \<and> ti_value c \<noteq> TextValue []) cs = cs"
    by (intro filter_True) (simp add: list_all_iff)
  then show ?thesis by (simp add: buildConditionStr_def conds_text_def cond_text_def cong: map_cong)
qed

end
