(* ===== verification/Tier_Round_Trip.thy ===== *)
theory Tier_Round_Trip
  imports Tier_Conditions
begin

text \<open>
  The expression that the visual editor builds is read back: the editor gets its configuration, the
  price pages get the tiers with their conditions and prices, and the match loops end on every text.
\<close>
section \<open>One tier in the text\<close>

definition tier_text :: "VisualTier \<Rightarrow> string" where
  "tier_text tier =
     (if vt_conditions tier = [] then [] else conds_text (vt_conditions tier) @ '' ? '') @ tier_call (vt_label tier) tier"

text \<open>
  The tiers that the text determines: a label that is not empty and has no quote, comparisons of one
  of the three lengths with a number that is not negative, costs that print in plain decimals.
\<close>

definition tier_ok :: "VisualTier \<Rightarrow> bool" where
  "tier_ok tier \<longleftrightarrow> vt_label tier \<noteq> [] \<and> list_all not_quote (vt_label tier) \<and> costs_printable tier \<and>
     tier_complete tier \<and> list_all cond_ok (vt_conditions tier)"

lemma cond_rejects: "rejects (\<lambda>c. c \<in> set ''t :'') (RSeq (rseq [condGroup 1, spaces, lit ''?'', spaces]) r)"
  unfolding condGroup_def comparison_def list.simps append.simps run_rseq(2) alts_simps
  by (intro rejects_seq rejects_group rejects_or) (simp_all add: rx)

lemma group_end_question: "group_end ('' ? '' @ u)"
  by (simp add: group_end_def cond_char_def is_digit_def)

lemma opt_cond_run:
  assumes "list_all cond_ok cs" "rejects is_space r"
  shows "\<exists>b' more. run (RSeq (ropt (rseq [condGroup 1, spaces, lit ''?'', spaces])) r)
      (b, (if cs = [] then [] else conds_text cs @ '' ? '') @ CHR ''t'' # u, caps) =
    run r (b', CHR ''t'' # u, (if cs = [] then caps else (1, conds_text cs) # caps)) @ more"
proof (cases cs)
  case Nil
  have "run (RSeq (rseq [condGroup 1, spaces, lit ''?'', spaces]) r) (b, CHR ''t'' # u, caps) = []"
    using cond_rejects [of r] by (simp add: rejects_def del: run.simps run_rseq)
  then show ?thesis
    by (intro exI [of _ b] exI [of _ "[]"]) (simp add: Nil run_opt_seq del: run.simps run_rseq)
next
  case (Cons c cs')
  let ?R = "RSeq (RSeq spaces (RSeq (lit ''?'') (RSeq spaces (rseq [])))) r"
  have bl: "blocked t \<Longrightarrow> run ?R (b, t, caps) = []" for b t caps
    by (cases "dropWhile is_space t") (simp_all add: blocked_def rx rejects_seq del: run.simps dropWhile_eq_Nil_conv)
  obtain b1 where b1: "run (RSeq (condGroup 1) ?R) (b, conds_text cs @ '' ? '' @ CHR ''t'' # u, caps) =
      run ?R (b1, '' ? '' @ CHR ''t'' # u, (1, conds_text cs) # caps)"
    using condGroup_run [of c cs' "'' ? '' @ CHR ''t'' # u" ?R 1 b caps] assms(1) group_end_question bl Cons by blast
  have "\<exists>b'. run ?R (b1, '' ? '' @ CHR ''t'' # u, (1, conds_text cs) # caps) =
      run r (b', CHR ''t'' # u, (1, conds_text cs) # caps)"
    using assms(2) by (auto simp: rx rejects_seq simp del: run.simps)
  moreover have "run (RSeq (rseq [condGroup 1, spaces, lit ''?'', spaces]) r) s = run (RSeq (condGroup 1) ?R) s" for s
    by (simp only: run_rseq(2) run_seq_assoc(1))
  ultimately show ?thesis
    using b1 by (auto simp: Cons run_opt_seq simp del: run.simps run_rseq)
qed
text \<open>The groups of a match: condition, label and costs\<close>

definition cost_groups :: "nat \<Rightarrow> VisualTier \<Rightarrow> (nat \<times> string) list \<Rightarrow> (nat \<times> string) list" where
  "cost_groups n tier caps = cost_caps (tier_costs (n + 2) tier)
     ((n + 1, number_to_string (vt_output_unit_cost tier)) # (n, number_to_string (vt_input_unit_cost tier)) # caps)"

definition cond_groups :: "VisualTier \<Rightarrow> (nat \<times> string) list" where
  "cond_groups tier = (if vt_conditions tier = [] then [] else [(1, conds_text (vt_conditions tier))])"

lemma label_first:
  assumes "list_all not_quote l"
  shows "\<exists>b' more. run (RSeq (lit ''tier(\"'') (RSeq (RGroup n (RStar (RChar not_quote))) (RSeq (lit ''\",'') (RSeq spaces r))))
      (b, ''tier(\"'' @ l @ ''\", '' @ CHR ''p'' # u, caps) = run r (b', CHR ''p'' # u, (n, l) # caps) @ more"
proof -
  have "takeWhile not_quote (l @ CHR 0x22 # t) = l" "dropWhile not_quote (l @ CHR 0x22 # t) = CHR 0x22 # t" for t
    using assms(1) by (auto simp: list_all_iff takeWhile_append dropWhile_append not_quote_def)
  moreover have "rejects not_quote (RSeq (lit ''\",'') q)" for q
    by (intro rejects_seq) (simp add: rx not_quote_def)
  moreover have "run (RSeq spaces r) (b, CHR '' '' # CHR ''p'' # u, caps) =
      run r (CHR '' '' # b, CHR ''p'' # u, caps) @ run r (b, CHR '' '' # CHR ''p'' # u, caps)" for b caps
    by (simp add: spaces_def)
  ultimately show ?thesis by (auto simp: rx simp del: run.simps)
qed

lemma body_starts: "\<exists>t. buildTierBodyExpr tier = CHR ''p'' # t"
  unfolding body_text [of tier 0] by simp

lemma tier_call_run:
  assumes "tier_ok tier" "rejects plain_num r"
  shows "\<exists>b' more. run (RSeq (lit ''tier(\"'') (RSeq (RGroup k (RStar (RChar not_quote))) (RSeq (lit ''\",'')
      (RSeq spaces (foldr RSeq (bodyPat n) r))))) (b, tier_call (vt_label tier) tier @ u, caps) =
    run r (b', '')'' @ u, cost_groups n tier ((k, vt_label tier) # caps)) @ more"
proof -
  obtain t where t: "buildTierBodyExpr tier = CHR ''p'' # t" using body_starts by blast
  obtain b1 more1 where "run (RSeq (lit ''tier(\"'') (RSeq (RGroup k (RStar (RChar not_quote))) (RSeq (lit ''\",'')
      (RSeq spaces (foldr RSeq (bodyPat n) r))))) (b, tier_call (vt_label tier) tier @ u, caps) =
      run (foldr RSeq (bodyPat n) r) (b1, buildTierBodyExpr tier @ '')'' @ u, (k, vt_label tier) # caps) @ more1"
    using label_first [of "vt_label tier" k "foldr RSeq (bodyPat n) r" b "t @ '')'' @ u" caps] assms(1)
    by (auto simp: tier_call_def t tier_ok_def simp del: run.simps)
  then show ?thesis
    using body_run [OF _ assms(2)] assms(1) unfolding tier_ok_def cost_groups_def by (metis append_assoc)
qed

lemma visual_run:
  assumes "tier_ok tier"
  shows "\<exists>b' more. run visualTierRe (b, tier_text tier @ u, []) =
    (b', u, cost_groups 3 tier ((2, vt_label tier) # cond_groups tier)) # more"
proof -
  let ?B = "foldr RSeq (bodyPat 3) (RSeq (lit '')'') REmpty)"
  let ?R = "RSeq (lit ''tier(\"'') (RSeq (RGroup 2 (RStar (RChar not_quote))) (RSeq (lit ''\",'') (RSeq spaces ?B)))"
  have v: "visualTierRe = RSeq (ropt (rseq [condGroup 1, spaces, lit ''?'', spaces])) ?R"
    by (simp add: visualTierRe_def rseq_def)
  obtain t where t: "tier_call (vt_label tier) tier @ u = CHR ''t'' # t" by (simp add: tier_call_def)
  have "rejects is_space ?R" by (intro rejects_seq) (simp add: rx)
  then obtain b1 more where 1: "run visualTierRe (b, tier_text tier @ u, []) =
      run ?R (b1, tier_call (vt_label tier) tier @ u, cond_groups tier) @ more"
    using opt_cond_run [of "vt_conditions tier" ?R b t "[]"] assms
    unfolding v tier_text_def cond_groups_def append_assoc t tier_ok_def by blast
  have "rejects plain_num (RSeq (lit '')'') REmpty)"
    by (intro rejects_seq) (simp add: rx plain_num_def is_digit_def)
  then obtain b2 more2 where "run ?R (b1, tier_call (vt_label tier) tier @ u, cond_groups tier) =
      run (RSeq (lit '')'') REmpty) (b2, '')'' @ u, cost_groups 3 tier ((2, vt_label tier) # cond_groups tier)) @ more2"
    using tier_call_run [OF assms] by blast
  then show ?thesis using 1 by (simp add: rx del: run.simps) (simp add: run.simps)
qed
section \<open>The match loop over the tiers\<close>

text \<open>A text without a quote has no tier.\<close>

lemma no_quote_no_match:
  assumes "quote_c \<notin> set cs" "over (\<lambda>c. True) r1"
  shows "run (RSeq r1 (RSeq (lit ''tier(\"'') r)) (b, cs, caps) = []"
proof -
  have "run (RSeq (lit ''tier(\"'') r) s = []" if "s \<in> set (run r1 (b, cs, caps))" for s
  proof -
    obtain b' cs' caps' where s: "s = (b', cs', caps')" by (cases s)
    have "set cs' \<subseteq> set cs" using run_consumed [OF assms(2) that] by (auto simp: consumed_def s)
    then have "\<not> prefix ''tier(\"'' cs'" using assms(1) by (auto simp: prefix_def)
    then show ?thesis by (simp add: s run_lit_seq del: run.simps)
  qed
  then show ?thesis by (simp add: concat_eq_Nil_conv)
qed

lemma no_quote_no_tier:
  assumes "quote_c \<notin> set cs" "over (\<lambda>c. True) r1"
  shows "exec_all (RSeq r1 (RSeq (lit ''tier(\"'') r)) b cs = Some []"
  using assms(1)
proof (induction cs arbitrary: b)
  case Nil
  then show ?case by (intro exec_all_Nil no_quote_no_match assms(2))
next
  case (Cons c cs)
  then have "exec_all (RSeq r1 (RSeq (lit ''tier(\"'') r)) (c # b) cs = Some []" by simp
  with Cons.prems show ?case by (intro exec_all_skip no_quote_no_match assms(2))
qed

lemma over_cond: "over (\<lambda>c. True) (ropt (rseq [condGroup 1, spaces, lit ''?'', spaces]))"
  by (simp add: condGroup_def comparison_def alts_simps spaces_def)

section \<open>The whole configuration\<close>

text \<open>
  One tier, with or without conditions, or several of which exactly the last has none: the others
  lead to texts that the visual editor does not read back.
\<close>

definition tiers_ok :: "VisualTier list \<Rightarrow> bool" where
  "tiers_ok ts \<longleftrightarrow> ts \<noteq> [] \<and> list_all tier_ok ts \<and>
     (1 < length ts \<longrightarrow> list_all (\<lambda>t. vt_conditions t \<noteq> []) (butlast ts) \<and> vt_conditions (last ts) = [])"

definition config_end :: "VisualTier list \<Rightarrow> string" where
  "config_end ts = (if length ts = 1 \<and> vt_conditions (hd ts) \<noteq> [] then '' : '' @ ZERO_EXPR else [])"

lemma conds_text_Nil: "conds_text cs = [] \<longleftrightarrow> cs = []"
  by (cases cs) (simp add: conds_text_def, simp add: conds_text_Cons cond_text_def)

lemma part_text:
  assumes "tier_ok tier" "Suc i < n \<longleftrightarrow> vt_conditions tier \<noteq> []"
  shows "tier_part n (i, tier) = tier_text tier"
  using assms by (auto simp: tier_part_def tier_text_def tier_ok_def Let_def condition_str conds_text_Nil or_string_def)

lemma parts_text:
  assumes "tiers_ok ts" "1 < length ts"
  shows "map (tier_part (length ts)) (enumerate 0 ts) = map tier_text ts"
proof (rule nth_equalityI)
  show "length (map (tier_part (length ts)) (enumerate 0 ts)) = length (map tier_text ts)" by simp
  fix i assume "i < length (map (tier_part (length ts)) (enumerate 0 ts))"
  then have i: "i < length ts" by simp
  have "Suc i < length ts \<longleftrightarrow> vt_conditions (ts ! i) \<noteq> []"
  proof (cases "Suc i < length ts")
    case True
    then have "ts ! i \<in> set (butlast ts)" by (metis i in_set_conv_nth length_butlast less_diff_conv nth_butlast Suc_eq_plus1)
    then show ?thesis using assms True by (simp add: tiers_ok_def list_all_iff)
  next
    case False
    then have "ts ! i = last ts" using i by (metis Suc_lessI diff_Suc_1 last_conv_nth length_0_conv not_less_zero)
    then show ?thesis using assms False by (simp add: tiers_ok_def)
  qed
  then have "tier_part (length ts) (i, ts ! i) = tier_text (ts ! i)"
    using assms(1) i by (intro part_text) (auto simp: tiers_ok_def list_all_length)
  then show "map (tier_part (length ts)) (enumerate 0 ts) ! i = map tier_text ts ! i"
    using i by (simp add: nth_enumerate_eq)
qed

lemma config_text:
  assumes "tiers_ok ts"
  shows "generateExprFromVisualConfig (Some \<lparr>vc_tiers = ts\<rparr>) = join '' : '' (map tier_text ts) @ config_end ts"
proof -
  consider tier where "ts = [tier]" | t1 t2 us where "ts = t1 # t2 # us"
    using assms by (cases ts rule: remdups_adj.cases) (auto simp: tiers_ok_def)
  then show ?thesis
  proof cases
    case 1
    then show ?thesis
      using assms by (auto simp: generateExprFromVisualConfig_def tiers_ok_def tier_ok_def config_end_def tier_text_def
          condition_str conds_text_Nil or_string_def Let_def)
  next
    case 2
    then show ?thesis
      using parts_text [OF assms] by (simp add: generateExprFromVisualConfig_def config_end_def del: enumerate_simps)
  qed
qed

lemma normal_tier: "tier_complete tier \<Longrightarrow> normalizeVisualTier (partial_tier tier) = tier"
  by (cases tier) (auto simp: tier_complete_def COST_FIELDS_def tier_field_def normalizeVisualTier_def partial_tier_def
      getTierCacheMode_def partial_cost_def map_filter_simps)

lemma normal_config:
  "tiers_ok ts \<Longrightarrow> normalizeVisualConfig (Some \<lparr>vc_tiers = ts\<rparr>) = \<lparr>vc_tiers = ts\<rparr>"
  by (auto simp: normalizeVisualConfig_def tiers_ok_def tier_ok_def list_all_iff normal_tier intro!: map_idI)
section \<open>The round trip\<close>

lemma tier_text_head: "tier_ok tier \<Longrightarrow> \<exists>c t. c \<noteq> CHR ''v'' \<and> tier_text tier = c # t"
proof (cases "vt_conditions tier")
  case (Cons c cs)
  assume "tier_ok tier"
  then have "ti_var c = ''p'' \<or> ti_var c = ''c'' \<or> ti_var c = ''len''" by (simp add: tier_ok_def Cons cond_ok_def)
  then show ?thesis by (elim disjE) (simp_all add: tier_text_def Cons conds_text_Cons cond_text_def)
qed (simp add: tier_text_def tier_call_def)

lemma config_text_head:
  assumes "tiers_ok ts"
  shows "\<exists>c t. c \<noteq> CHR ''v'' \<and> join '' : '' (map tier_text ts) @ config_end ts = c # t"
proof -
  obtain tier us where ts: "ts = tier # us" using assms by (cases ts) (auto simp: tiers_ok_def)
  then obtain c t where "c \<noteq> CHR ''v''" "tier_text tier = c # t" using tier_text_head [of tier] assms by (auto simp: tiers_ok_def)
  then show ?thesis by (simp add: ts join_concat)
qed

lemma no_version: "c \<noteq> CHR ''v'' \<Longrightarrow> stripExprVersion (c # t) = (Some 1, c # t)"
  by (simp add: stripExprVersion_def version_re_def rx del: run.simps)

lemma costs_later: "k < n + 2 \<Longrightarrow> map_of (cost_caps (tier_costs (n + 2) tier) caps) k = map_of caps k"
  by (rule cost_caps_other) (auto simp: tier_costs_def)

lemma visual_groups:
  "grp 2 (cost_groups 3 tier ((2, vt_label tier) # cond_groups tier)) = vt_label tier"
  "grp 1 (cost_groups 3 tier ((2, vt_label tier) # cond_groups tier)) = conds_text (vt_conditions tier)"
  using costs_later [of 2 3] costs_later [of 1 3]
  by (simp_all add: grp_def cost_groups_def cond_groups_def conds_text_def)

lemma visual_matched:
  assumes "tier_ok tier"
  shows "matched_tier 3 (vt_label tier) (conds_text (vt_conditions tier))
    (cost_groups 3 tier ((2, vt_label tier) # cond_groups tier)) = tier"
  unfolding cost_groups_def
  using assms by (intro matched_tier_back) (auto simp: tier_ok_def cond_groups_def parse_conds visual_conds)

definition tier_pattern :: "regex \<Rightarrow> regex" where
  "tier_pattern r = RSeq (ropt (rseq [condGroup 1, spaces, lit ''?'', spaces])) (RSeq (lit ''tier(\"'') r)"

lemma tier_pattern_rejects: "rejects (\<lambda>c. c \<in> set '' : '') (tier_pattern r)"
proof -
  have "rejects (\<lambda>c. c \<in> set '' : '') (RSeq (lit ''tier(\"'') r)" by (intro rejects_seq) (simp add: rx)
  moreover have "rejects (\<lambda>c. c \<in> set '' : '') (RSeq (rseq [condGroup 1, spaces, lit ''?'', spaces]) REmpty)"
    by (rule rejects_mono [OF cond_rejects]) auto
  then have "rejects (\<lambda>c. c \<in> set '' : '') (rseq [condGroup 1, spaces, lit ''?'', spaces])"
    by (simp add: rejects_def run_seq_empty del: run.simps)
  ultimately show ?thesis unfolding tier_pattern_def by (rule rejects_opt_seq [rotated])
qed

lemma tier_text_ne: "tier_text tier \<noteq> []"
  by (simp add: tier_text_def tier_call_def)

lemma tier_matches:
  assumes "tiers_ok ts"
    "\<And>tier b u. tier_ok tier \<Longrightarrow> \<exists>b' ways. run (tier_pattern r) (b, tier_text tier @ u, []) = (b', u, g tier) # ways"
  shows "match_list (tier_pattern r) (join '' : '' (map tier_text ts) @ config_end ts) = map g ts"
proof -
  have "quote_c \<notin> set (config_end ts)" by (simp add: config_end_def ZERO_EXPR_def)
  from no_quote_no_tier [OF this over_cond]
  have "exec_all (tier_pattern r) b (config_end ts) = Some []" for b by (simp only: tier_pattern_def)
  then have "exec_all (tier_pattern r) [] (join '' : '' (map tier_text ts) @ config_end ts) = Some (map g ts)"
    using assms(1) tier_text_ne
    by (intro exec_texts(2) [OF assms(2) _ tier_pattern_rejects]) (auto simp: tiers_ok_def list_all_iff)
  then show ?thesis by (simp add: match_list_def)
qed

lemma visual_pattern: "\<exists>r. visualTierRe = tier_pattern r"
  by (simp add: visualTierRe_def tier_pattern_def)

lemma visual_matches:
  assumes "tiers_ok ts"
  shows "match_list visualTierRe (join '' : '' (map tier_text ts) @ config_end ts) =
    map (\<lambda>tier. cost_groups 3 tier ((2, vt_label tier) # cond_groups tier)) ts"
proof -
  obtain r where r: "visualTierRe = tier_pattern r" using visual_pattern by blast
  show ?thesis unfolding r by (rule tier_matches [OF assms visual_run [unfolded r]])
qed

lemma single_parse:
  assumes "tier_ok tier" "vt_conditions tier = []"
  shows "rmatch singleRe (tier_text tier) = Some (cost_groups 2 tier [(1, vt_label tier)])"
proof -
  let ?r = "RSeq (lit '')'') (RSeq REnd REmpty)"
  have "rejects plain_num ?r" by (intro rejects_seq) (simp add: rx plain_num_def is_digit_def)
  then obtain b' more where "run (RSeq (lit ''tier(\"'') (RSeq (RGroup 1 (RStar (RChar not_quote))) (RSeq (lit ''\",'')
      (RSeq spaces (foldr RSeq (bodyPat 2) ?r))))) ([], tier_call (vt_label tier) tier @ [], []) =
      run ?r (b', '')'' @ [], cost_groups 2 tier [(1, vt_label tier)]) @ more"
    using tier_call_run [OF assms(1)] by blast
  moreover have "run ?r (b', '')'' @ [], cs) = [('')'' @ b', [], cs)]" for cs by (simp add: run_lit)
  moreover have s: "singleRe = RSeq RStart (RSeq (lit ''tier(\"'') (RSeq (RGroup 1 (RStar (RChar not_quote))) (RSeq (lit ''\",'')
      (RSeq spaces (foldr RSeq (bodyPat 2) ?r)))))" by (simp add: singleRe_def rseq_def)
  ultimately show ?thesis using assms(2) unfolding s rmatch_start by (simp add: tier_text_def del: run.simps)
qed

lemma single_refused:
  assumes "tier_ok tier" "vt_conditions tier \<noteq> []"
  shows "rmatch singleRe (tier_text tier @ u) = None"
proof -
  obtain c cs where c: "vt_conditions tier = c # cs" using assms(2) by (cases "vt_conditions tier") auto
  then have "ti_var c = ''p'' \<or> ti_var c = ''c'' \<or> ti_var c = ''len''" using assms(1) by (simp add: tier_ok_def cond_ok_def)
  then show ?thesis
    by (elim disjE) (simp_all add: singleRe_def rmatch_start run_lit_seq tier_text_def c conds_text_Cons cond_text_def del: run.simps)
qed

lemma parse_text:
  assumes "tiers_ok ts"
  shows "tryParseVisualConfig (Some (join '' : '' (map tier_text ts) @ config_end ts)) = Some \<lparr>vc_tiers = ts\<rparr>"
proof -
  let ?t = "join '' : '' (map tier_text ts) @ config_end ts"
  obtain c t where c: "c \<noteq> CHR ''v''" "?t = c # t" using config_text_head [OF assms] by blast
  then have strip: "?t \<noteq> []" "snd (stripExprVersion ?t) = ?t" by (simp_all add: no_version)
  obtain tier us where ts: "ts = tier # us" using assms by (cases ts) (auto simp: tiers_ok_def)
  have ok: "tier_ok tier" using assms by (simp add: tiers_ok_def ts)
  show ?thesis
  proof (cases "vt_conditions tier = []")
    case True
    then have us: "us = []" using assms by (auto simp: tiers_ok_def ts split: if_splits)
    then have "?t = tier_text tier" using True by (simp add: ts config_end_def)
    moreover have "grp 1 (cost_groups 2 tier [(1, vt_label tier)]) = vt_label tier"
      using costs_later [of 1 2] by (simp add: grp_def cost_groups_def)
    moreover have "matched_tier 2 (vt_label tier) [] (cost_groups 2 tier [(1, vt_label tier)]) = tier"
      unfolding cost_groups_def using ok True
      by (intro matched_tier_back) (auto simp: tier_ok_def parse_tier_conditions_def map_filter_simps)
    ultimately show ?thesis
      using strip single_parse [OF ok True] normal_config [OF assms]
      by (simp add: tryParseVisualConfig_def ts us)
  next
    case False
    have "?t = tier_text tier @ concat (map ((@) '' : '') (map tier_text us)) @ config_end ts"
      by (simp only: ts list.map(2) join_concat append_assoc)
    then have "rmatch singleRe ?t = None" using single_refused [OF ok False] by (simp only:)
    moreover have "map (\<lambda>m. matched_tier 3 (grp 2 m) (grp 1 m) m) (match_list visualTierRe ?t) = ts"
      using assms visual_groups visual_matched
      by (simp add: visual_matches comp_def tiers_ok_def list_all_iff cong: map_cong)
    moreover have "ts \<noteq> []" by (simp add: ts)
    ultimately show ?thesis
      using strip normal_config [OF assms] config_text [OF assms]
      by (simp only: tryParseVisualConfig_def option.case if_False Let_def) simp
  qed
qed

text \<open>
  C11: The configuration of the visual editor is read back from the expression it generates: one tier
  with or without conditions, or several of which exactly the last has none.
\<close>

theorem visual_round_trip:
  assumes "tiers_ok (vc_tiers cfg)"
  shows "tryParseVisualConfig (Some (generateExprFromVisualConfig (Some cfg))) = Some cfg"
proof -
  have "cfg = \<lparr>vc_tiers = vc_tiers cfg\<rparr>" by simp
  then show ?thesis using config_text [OF assms] parse_text [OF assms] by metis
qed

definition short_tier :: VisualTier where
  "short_tier = \<lparr>vt_label = ''short'', vt_conditions = [\<lparr>ti_var = ''len'', ti_op = ''<='', ti_value = NumberValue 200000\<rparr>,
       \<lparr>ti_var = ''c'', ti_op = ''<'', ti_value = NumberValue 8000\<rparr>],
     vt_input_unit_cost = 3, vt_output_unit_cost = 15, vt_cache_mode = CACHE_MODE_TIMED,
     vt_cache_read_unit_cost = Some (3 / 10), vt_cache_create_unit_cost = Some 0, vt_cache_create_1h_unit_cost = Some 6,
     vt_image_unit_cost = Some 0, vt_image_output_unit_cost = Some 0, vt_audio_input_unit_cost = Some 0,
     vt_audio_output_unit_cost = Some 0\<rparr>"

definition long_tier :: VisualTier where
  "long_tier = short_tier\<lparr>vt_label := ''long'', vt_conditions := [], vt_input_unit_cost := 6\<rparr>"

lemma printable_decimal:
  "is_integer (x * 10 ^ k) \<Longrightarrow> k < 1100 \<Longrightarrow> plain_range x \<Longrightarrow> printable_number x"
  by (auto simp: printable_number_def decimals_def find_None_iff)

lemma example_ok: "tiers_ok [short_tier, long_tier]"
proof -
  have "printable_number 0" "printable_number 3" "printable_number 6" "printable_number 15" "printable_number 8000"
    "printable_number 200000" "printable_number (3 / 10)"
    by (rule printable_decimal [of _ 1]; simp add: is_integer_def plain_range_def)+
  then show ?thesis
    by (simp add: tiers_ok_def tier_ok_def short_tier_def long_tier_def not_quote_def costs_printable_def tier_complete_def
        COST_FIELDS_def tier_field_def cond_ok_def del: not_None_eq)
qed

theorem visual_round_trip_witness:
  "tiers_ok [short_tier, long_tier] \<and>
   tryParseVisualConfig (Some (generateExprFromVisualConfig (Some \<lparr>vc_tiers = [short_tier, long_tier]\<rparr>))) =
     Some \<lparr>vc_tiers = [short_tier, long_tier]\<rparr>"
  using visual_round_trip [of "\<lparr>vc_tiers = [short_tier, long_tier]\<rparr>"] example_ok by simp

end
