(* ===== verification/Tier_Display.thy ===== *)
theory Tier_Display
  imports Tier_Round_Trip
begin

text \<open>
  What the price pages show of an expression that the visual editor generated: its tiers, with their
  conditions and prices.
\<close>
section \<open>The prices of a body\<close>

definition PRICE_KEYS :: "string list" where
  "PRICE_KEYS = map bv_key BILLING_PRICING_VARS"

lemma price_keys: "PRICE_KEYS = [''p'', ''c'', ''cr'', ''cc'', ''cc1h'', ''img'', ''img_o'', ''ai'', ''ao'']"
  by (simp add: PRICE_KEYS_def BILLING_PRICING_VARS_def BILLING_VARS_def price_var_def)

lemma key_var: "v \<in> set PRICE_KEYS \<Longrightarrow> var_name v"
  by (auto simp: price_keys var_name_def word_char_def)

lemma num_first:
  assumes "printable_number x" "u = [] \<or> \<not> num_char (hd u)"
  shows "\<exists>b' ways. run (RSeq (numbers n) (rseq [])) (b, number_to_string x @ u, caps) =
    (b', u, (n, number_to_string x) # caps) # ways"
proof -
  let ?x = "number_to_string x"
  have "list_all num_char ?x" "?x \<noteq> []" using number_chars [OF assms(1)] plain_num_num by (auto simp: list_all_iff)
  then have t: "takeWhile num_char (?x @ u) = ?x" "dropWhile num_char (?x @ u) = u"
    using assms(2) by (cases u; auto simp: list_all_iff takeWhile_append dropWhile_append)+
  obtain ways where "run (rplus (RChar num_char)) (b, ?x @ u, caps) = (rev ?x @ b, u, caps) # ways"
    using plus_class [of num_char "?x @ u" b caps] \<open>?x \<noteq> []\<close> by (auto simp only: t)
  then show ?thesis by (simp add: run_seq_nil del: run.simps) simp
qed

lemma price_run:
  assumes "v \<in> set PRICE_KEYS" "printable_number x" "u = [] \<or> \<not> num_char (hd u)" "\<not> word_at b"
  shows "\<exists>b' ways. run BILLING_VAR_REGEX (b, v @ '' * '' @ number_to_string x @ u, []) =
    (b', u, [(2, number_to_string x), (1, v)]) # ways"
proof -
  let ?t = "'' * '' @ number_to_string x @ u" and ?N = "RSeq (numbers 2) (rseq [])"
  let ?R = "RSeq spaces (RSeq (lit ''*'') (RSeq spaces ?N))"
  note v = key_var [OF assms(1)]
  have other: "run ?R (rev w @ b, drop (length w) (v @ ?t), (1, w) # []) = []"
    if w: "w \<in> set PRICE_KEYS" "w \<noteq> v" "prefix w (v @ ?t)" for w
  proof -
    obtain c t' where c: "word_char c" "drop (length w) (v @ ?t) = c # t'"
      using var_prefix [OF key_var [OF w(1)] v w(2), of "''* '' @ number_to_string x @ u"] w(3) by auto
    then have "CHR ''*'' \<noteq> c" "\<not> is_space c" using word_not_space [OF c(1)] by auto
    then show ?thesis unfolding c(2) by (simp add: rx rejects_seq num_rejects_space del: run.simps)
  qed
  have "word_at (v @ ?t)" using v by (cases v) (auto simp: var_name_def word_at_def)
  then have "run BILLING_VAR_REGEX (b, v @ ?t, []) = run (RSeq (RGroup 1 (alts PRICE_KEYS)) ?R) (b, v @ ?t, [])"
    using assms(4) by (simp add: BILLING_VAR_REGEX_def PRICE_KEYS_def)
  also have "\<dots> = run ?R (rev v @ b, drop (length v) (v @ ?t), [(1, v)])"
    using assms(1) by (intro run_alts_group_by other) (auto simp: price_keys)
  also have "\<dots> = run ?N ('' * '' @ rev v @ b, number_to_string x @ u, [(1, v)])"
    using assms(2) by (simp add: rx rejects_seq num_rejects_space del: run.simps)
  finally show ?thesis using num_first [OF assms(2,3)] by metis
qed
definition term_str :: "string \<times> number \<Rightarrow> string" where
  "term_str t = fst t @ '' * '' @ number_to_string (snd t)"

definition term_groups :: "string \<times> number \<Rightarrow> (nat \<times> string) list" where
  "term_groups t = [(2, number_to_string (snd t)), (1, fst t)]"

abbreviation price_ok :: "string \<times> number \<Rightarrow> bool" where
  "price_ok t \<equiv> fst t \<in> set PRICE_KEYS \<and> printable_number (snd t)"

lemma var_regex_rejects: "rejects (\<lambda>c. c \<in> set '' + '') BILLING_VAR_REGEX"
proof -
  have "rejects (\<lambda>c. c \<in> set '' + '') (RSeq RWord r)" if "rejects (\<lambda>c. c \<in> set '' + '') r" for r
    using that by (simp add: rejects_def)
  moreover have "rejects (\<lambda>c. c \<in> set '' + '') (RSeq (RGroup 1 (alts PRICE_KEYS)) r)" for r
    unfolding price_keys alts_simps by (intro rejects_seq rejects_group rejects_or) (simp_all add: rx)
  ultimately show ?thesis by (simp add: BILLING_VAR_REGEX_def PRICE_KEYS_def)
qed

lemma var_not_nullable: "\<not> nullable BILLING_VAR_REGEX"
  by (simp add: BILLING_VAR_REGEX_def)

lemma exec_term:
  assumes "price_ok t" "u = [] \<or> \<not> num_char (hd u)" "\<not> word_at b" "\<And>b. exec_all BILLING_VAR_REGEX b u = Some ms"
  shows "exec_all BILLING_VAR_REGEX b (term_str t @ u) = Some (term_groups t # ms)"
proof -
  obtain b' ways where "run BILLING_VAR_REGEX (b, term_str t @ u, []) = (b', u, term_groups t) # ways"
    using price_run [of "fst t" "snd t" u b] assms(1-3) by (auto simp: term_str_def term_groups_def)
  then show ?thesis using assms(4) by (subst exec_all_hit) (auto simp: term_str_def)
qed

definition rest_terms :: "(string \<times> number) list \<Rightarrow> string" where
  "rest_terms ts = concat (map ((@) '' + '') (map term_str ts))"

lemma rest_terms_simps:
  "rest_terms [] = []" "rest_terms (t # ts) = '' + '' @ term_str t @ rest_terms ts"
  by (simp_all add: rest_terms_def)

lemma rest_terms_stop: "rest_terms ts = [] \<or> \<not> num_char (hd (rest_terms ts))"
  by (cases ts) (auto simp: rest_terms_simps num_char_def is_digit_def)

lemma exec_terms:
  "list_all price_ok ts \<Longrightarrow>
   exec_all BILLING_VAR_REGEX b (rest_terms ts) = Some (map term_groups ts)"
proof (induction ts arbitrary: b)
  case Nil
  have "run BILLING_VAR_REGEX (b, [], []) = []" by (rule run_at_end) (rule var_not_nullable)
  then show ?case by (simp add: rest_terms_simps exec_all_Nil)
next
  case (Cons t ts)
  have "exec_all BILLING_VAR_REGEX ('' + '' @ b) (term_str t @ rest_terms ts) =
      Some (term_groups t # map term_groups ts)"
    using Cons rest_terms_stop by (intro exec_term) (auto simp: word_at_def word_char_def)
  then show ?case
    using var_regex_rejects by (auto simp: rest_terms_simps rejects_def intro!: exec_all_skip)
qed

definition price_terms :: "VisualTier \<Rightarrow> (string \<times> number) list" where
  "price_terms tier = (''p'', vt_input_unit_cost tier) # (''c'', vt_output_unit_cost tier) #
     filter (\<lambda>t. snd t \<noteq> 0) (map (\<lambda>(f, v). (v, nullish (tier_field tier f) 0)) BILLING_CACHE_VAR_MAP)"

lemma body_terms: "buildTierBodyExpr tier = join '' + '' (map term_str (price_terms tier))"
proof -
  have "List.map_filter (\<lambda>(f, v). let x = g f in if x \<noteq> 0 then Some (v @ '' * '' @ number_to_string x) else None) ms =
      map term_str (filter (\<lambda>t. snd t \<noteq> 0) (map (\<lambda>(f, v). (v, g f)) ms))" for g ms
    by (induction ms) (auto simp: map_filter_simps Let_def term_str_def)
  from this [of "\<lambda>f. nullish (tier_field tier f) 0" BILLING_CACHE_VAR_MAP] show ?thesis
    by (simp add: buildTierBodyExpr_def price_terms_def term_str_def)
qed

lemma price_terms_ok:
  assumes "costs_printable tier"
  shows "list_all price_ok (price_terms tier)" "distinct (map fst (price_terms tier))"
proof -
  let ?ms = "map (\<lambda>(f, v). (v, nullish (tier_field tier f) 0)) BILLING_CACHE_VAR_MAP"
  have "list_all price_ok ?ms"
    using assms by (simp add: cache_vars price_keys costs_printable_def COST_FIELDS_def)
  then show "list_all price_ok (price_terms tier)"
    using assms by (auto simp: price_terms_def list_all_iff price_keys costs_printable_def COST_FIELDS_def tier_field_def)
  have "distinct (map fst (filter (\<lambda>t. snd t \<noteq> 0) ?ms))" by (rule distinct_map_filter) (simp add: cache_vars)
  moreover have "''p'' \<notin> fst ` set ?ms" "''c'' \<notin> fst ` set ?ms" by (simp_all add: cache_vars)
  ultimately show "distinct (map fst (price_terms tier))"
    by (auto simp: price_terms_def)
qed

lemma body_matches:
  assumes "costs_printable tier"
  shows "match_list BILLING_VAR_REGEX (buildTierBodyExpr tier) = map term_groups (price_terms tier)"
proof -
  obtain t ts where t: "price_terms tier = t # ts" by (simp add: price_terms_def)
  have "exec_all BILLING_VAR_REGEX [] (term_str t @ rest_terms ts) = Some (term_groups t # map term_groups ts)"
    using price_terms_ok(1) [OF assms] exec_terms [of ts] rest_terms_stop by (intro exec_term) (auto simp: t word_at_def)
  then show ?thesis by (simp add: body_terms t join_concat match_list_def rest_terms_def)
qed

definition displayed_prices :: "VisualTier \<Rightarrow> (string \<times> number) list" where
  "displayed_prices tier =
     map (\<lambda>v. (nullish (bv_field v) [], nullish (tier_field tier (nullish (bv_tierField v) [])) 0)) BILLING_PRICING_VARS"

lemma coefficients_terms:
  assumes "match_list BILLING_VAR_REGEX body = map term_groups ts" "distinct (map fst ts)" "list_all price_ok ts"
  shows "coefficients body = map (\<lambda>t. (fst t, Some (snd t))) ts"
proof -
  have "foldl (\<lambda>coeffs m. if grp 1 m \<in> fst ` set coeffs then coeffs else coeffs @ [(grp 1 m, js_Number (grp 2 m))])
      cs (map term_groups us) = cs @ map (\<lambda>t. (fst t, Some (snd t))) us"
    if "distinct (map fst cs @ map fst us)" "list_all price_ok us" for cs :: "(string \<times> number option) list" and us
    using that
  proof (induction us arbitrary: cs)
    case (Cons t us)
    then have "fst t \<notin> fst ` set cs" by auto
    moreover have "grp 1 (term_groups t) = fst t" "js_Number (grp 2 (term_groups t)) = Some (snd t)"
      using Cons.prems(2) by (auto simp: grp_def term_groups_def js_Number_string)
    ultimately show ?case using Cons.IH [of "cs @ [(fst t, Some (snd t))]"] Cons.prems by simp
  qed simp
  from this [of "[]" ts] show ?thesis using assms by (simp add: coefficients_def)
qed

lemma price_lookup:
  "nullish (nullish (map_of (map (\<lambda>t. (fst t, Some (snd t))) ts) k) None) 0 = nullish (map_of ts k) 0"
  by (induction ts) auto

lemma lookup_filter: "nullish (map_of (filter (\<lambda>t. snd t \<noteq> 0) ms) k) 0 = nullish (map_of ms k) (0 :: number)"
  if "distinct (map fst ms)"
  using that
proof (induction ms)
  case (Cons t ms)
  have "map_of ms (fst t) = None" using Cons.prems by (simp add: map_of_eq_None_iff)
  then show ?case using Cons by (cases t) auto
qed simp

lemma body_prices:
  assumes "costs_printable tier"
  shows "parseTierBody (buildTierBodyExpr tier) = displayed_prices tier"
proof -
  let ?ms = "map (\<lambda>(f, v). (v, nullish (tier_field tier f) 0)) BILLING_CACHE_VAR_MAP"
  have c: "coefficients (buildTierBodyExpr tier) = map (\<lambda>t. (fst t, Some (snd t))) (price_terms tier)"
    using coefficients_terms [OF body_matches [OF assms]] price_terms_ok [OF assms] by blast
  have d: "distinct (map fst ?ms)" by (simp add: cache_vars)
  have k: "nullish (map_of (price_terms tier) k) 0 =
      (if k = ''p'' then vt_input_unit_cost tier else if k = ''c'' then vt_output_unit_cost tier
       else nullish (map_of ?ms k) 0)" for k
    using lookup_filter [OF d, of k] by (simp add: price_terms_def)
  show ?thesis
    unfolding parseTierBody_def Let_def c price_lookup k
    by (simp add: displayed_prices_def BILLING_VAR_KEY_TO_FIELD_def BILLING_PRICING_VARS_def BILLING_VARS_def price_var_def
        cache_vars tier_field_def)
qed

section \<open>The tiers of the price pages\<close>

definition displayed_tier :: "VisualTier \<Rightarrow> ParsedTier" where
  "displayed_tier tier = \<lparr>pt_label = vt_label tier, pt_conditions = map read_condition (vt_conditions tier),
     pt_prices = displayed_prices tier\<rparr>"

lemma body_no_paren:
  assumes "costs_printable tier"
  shows "list_all (\<lambda>c. c \<noteq> CHR '')'') (buildTierBodyExpr tier)"
proof -
  have "CHR '')'' \<notin> set (term_str t)" if "price_ok t" for t
  proof -
    have "\<not> word_char CHR '')''" "\<not> plain_num CHR '')''" by (simp_all add: word_char_def plain_num_def is_digit_def)
    then show ?thesis
      using that key_var [of "fst t"] number_chars(1) [of "snd t"] by (auto simp: term_str_def var_name_def list_all_iff)
  qed
  moreover have "CHR '')'' \<notin> set (join '' + '' ws)" if "\<forall>w\<in>set ws. CHR '')'' \<notin> set w" for ws
    using that by (induction "'' + ''" ws rule: join.induct) auto
  moreover have "\<forall>t\<in>set (price_terms tier). price_ok t" using price_terms_ok(1) [OF assms] by (simp add: list_all_iff)
  ultimately have "CHR '')'' \<notin> set (join '' + '' (map term_str (price_terms tier)))" by simp
  then show ?thesis unfolding body_terms list_all_iff by blast
qed

lemma display_run:
  assumes "tier_ok tier"
  shows "\<exists>b' ways. run tierRe (b, tier_text tier @ u, []) =
    (b', u, (3, buildTierBodyExpr tier) # (2, vt_label tier) # cond_groups tier) # ways"
proof -
  let ?p = "\<lambda>c. c \<noteq> CHR '')''" and ?B = "buildTierBodyExpr tier"
  let ?G = "RSeq (RGroup 3 (rplus (RChar ?p))) (RSeq (lit '')'') REmpty)"
  let ?R = "RSeq (lit ''tier(\"'') (RSeq (RGroup 2 (RStar (RChar not_quote))) (RSeq (lit ''\",'') (RSeq spaces ?G)))"
  have v: "tierRe = RSeq (ropt (rseq [condGroup 1, spaces, lit ''?'', spaces])) ?R" by (simp add: tierRe_def rseq_def)
  obtain t where t: "tier_call (vt_label tier) tier @ u = CHR ''t'' # t" by (simp add: tier_call_def)
  have "rejects is_space ?R" by (intro rejects_seq) (simp add: rx)
  then obtain b1 more where 1: "run tierRe (b, tier_text tier @ u, []) =
      run ?R (b1, tier_call (vt_label tier) tier @ u, cond_groups tier) @ more"
    using opt_cond_run [of "vt_conditions tier" ?R b t "[]"] assms
    unfolding v tier_text_def cond_groups_def append_assoc t tier_ok_def by blast
  obtain t' where t': "?B = CHR ''p'' # t'" using body_starts by blast
  obtain b2 more2 where 2: "run ?R (b1, tier_call (vt_label tier) tier @ u, cond_groups tier) =
      run ?G (b2, ?B @ '')'' @ u, (2, vt_label tier) # cond_groups tier) @ more2"
    using label_first [of "vt_label tier" 2 ?G b1 "t' @ '')'' @ u" "cond_groups tier"] assms
    by (auto simp: tier_call_def t' tier_ok_def simp del: run.simps)
  have "takeWhile ?p (?B @ '')'' @ u) = ?B" "dropWhile ?p (?B @ '')'' @ u) = '')'' @ u"
    using body_no_paren assms by (auto simp: tier_ok_def list_all_iff takeWhile_append dropWhile_append)
  moreover have "rejects ?p (RSeq (lit '')'') REmpty)" by (intro rejects_seq) (simp add: rx)
  ultimately have "run ?G (b2, ?B @ '')'' @ u, caps) = [('')'' @ rev ?B @ b2, u, (3, ?B) # caps)]" for caps
    using t' by (simp add: run_plus_group_seq run_lit_seq del: run.simps) (simp add: run.simps)
  then show ?thesis using 1 2 by simp
qed

lemma display_matches:
  assumes "tiers_ok ts"
  shows "match_list tierRe (join '' : '' (map tier_text ts) @ config_end ts) =
    map (\<lambda>tier. (3, buildTierBodyExpr tier) # (2, vt_label tier) # cond_groups tier) ts"
proof -
  have "\<exists>r. tierRe = tier_pattern r" by (simp add: tierRe_def tier_pattern_def)
  then obtain r where r: "tierRe = tier_pattern r" by blast
  show ?thesis unfolding r by (rule tier_matches [OF assms display_run [unfolded r]])
qed

text \<open>
  C12: The price pages show an expression of the visual editor as its tiers: the label, the conditions and
  the prices of every tier, in their order. The configuration has the shape of the round trip.
\<close>

theorem tiers_displayed:
  assumes "tiers_ok (vc_tiers cfg)"
  shows "parseTiersFromExpr (generateExprFromVisualConfig (Some cfg)) = map displayed_tier (vc_tiers cfg)"
proof -
  let ?ts = "vc_tiers cfg"
  have e: "generateExprFromVisualConfig (Some cfg) = join '' : '' (map tier_text ?ts) @ config_end ?ts"
    using config_text [OF assms] by (metis VisualConfig.surjective old.unit.exhaust)
  obtain c t where c: "c \<noteq> CHR ''v''" "generateExprFromVisualConfig (Some cfg) = c # t"
    using config_text_head [OF assms] e by auto
  have "parsed_tier ((3, buildTierBodyExpr tier) # (2, vt_label tier) # cond_groups tier) = displayed_tier tier"
    if "tier \<in> set ?ts" for tier
  proof -
    have "tier_ok tier" using assms that by (simp add: tiers_ok_def list_all_iff)
    then show ?thesis
      using parse_conds [of "vt_conditions tier"] body_prices [of tier]
      by (auto simp: parsed_tier_def displayed_tier_def grp_def cond_groups_def tier_ok_def conds_text_def)
  qed
  then have "map parsed_tier (match_list tierRe (c # t)) = map displayed_tier ?ts"
    using display_matches [OF assms] c(2) by (simp add: e)
  then show ?thesis using c by (simp add: parseTiersFromExpr_def no_version)
qed

theorem tiers_displayed_witness:
  "tiers_ok [short_tier, long_tier] \<and>
   parseTiersFromExpr (generateExprFromVisualConfig (Some \<lparr>vc_tiers = [short_tier, long_tier]\<rparr>)) =
     [displayed_tier short_tier, displayed_tier long_tier]"
  using tiers_displayed [of "\<lparr>vc_tiers = [short_tier, long_tier]\<rparr>"] example_ok by simp

section \<open>The match loops end\<close>

text \<open>
  C13: The match loops over an expression end: none of the three patterns can match without consuming
  text, whatever the text is.
\<close>

theorem expr_loops_end:
  "exec_all tierRe [] s \<noteq> None \<and> exec_all visualTierRe [] s \<noteq> None \<and> exec_all BILLING_VAR_REGEX [] s \<noteq> None"
  by (intro conjI exec_all_ends)
    (simp_all add: tierRe_def visualTierRe_def BILLING_VAR_REGEX_def)

end
