(* ===== verification/Editor_Laws.thy ===== *)
theory Editor_Laws
  imports Tiered_Editor Tier_Display
begin

text \<open>
  The price editor: its effects come to rest, a price of the visual editor survives being opened and
  edited, and what happens to prices that the visual editor cannot read.
\<close>
section \<open>The effects come to rest\<close>

definition reported_rules :: "Editor \<Rightarrow> string" where
  "reported_rules s = (if te_mode s = VisualMode then buildRequestRuleExpr (te_groups s) else te_rules s)"

lemma commit_Inr:
  assumes "canUseVisualRules s = Inr u" "effectiveExpr s = Inr eff" "loadExpr s = Inr l"
  shows "commit s = Inr ((resetInit l)\<lparr>te_expr := eff, te_rules := reported_rules s,
    te_seen := Some (te_expr s, te_rules s), te_seenModel := Some (te_model s)\<rparr>)"
proof -
  have "te_expr l = te_expr s" "te_rules l = te_rules s"
    using assms(3) by (auto simp: loadExpr_def Let_def split: if_splits option.splits sum.splits)
  then have "te_expr (resetInit l) = te_expr s" "te_rules (resetInit l) = te_rules s" by (simp_all add: resetInit_def)
  then have "reportExpr s eff (resetInit l) = (resetInit l)\<lparr>te_expr := eff\<rparr>"
    "\<And>n. te_rules n = te_rules s \<Longrightarrow> reportRules s n = n\<lparr>te_rules := reported_rules s\<rparr>"
    by (auto simp: reportExpr_def reportRules_def reported_rules_def Let_def)
  then show ?thesis
    using assms \<open>te_rules (resetInit l) = te_rules s\<close> by (simp add: commit_def)
qed

lemma commit_cases:
  assumes "commit s = Inr s'"
  obtains u eff l where "canUseVisualRules s = Inr u" "effectiveExpr s = Inr eff" "loadExpr s = Inr l"
    "s' = (resetInit l)\<lparr>te_expr := eff, te_rules := reported_rules s,
      te_seen := Some (te_expr s, te_rules s), te_seenModel := Some (te_model s)\<rparr>"
proof -
  obtain u eff l where "canUseVisualRules s = Inr u" "effectiveExpr s = Inr eff" "loadExpr s = Inr l"
    using assms by (auto simp: commit_def split: sum.splits)
  then show thesis using that commit_Inr assms by fastforce
qed

text \<open>\<open>known\<close>: the effect on the model name has run for this name.\<close>

abbreviation known :: "Editor \<Rightarrow> bool" where
  "known s \<equiv> te_seenModel s = Some (te_model s)"

lemma commit_known: "commit s = Inr s' \<Longrightarrow> known s' \<and> te_model s' = te_model s"
  by (erule commit_cases)
    (auto simp: resetInit_def loadExpr_def Let_def split: if_splits option.splits sum.splits)

text \<open>A commit that does not load changes nothing but what the parent is told.\<close>

lemma commit_idle:
  assumes "commit s = Inr s'" "known s" "te_init s \<or> te_seen s = Some (te_expr s, te_rules s)"
  shows "\<exists>eff. effectiveExpr s = Inr eff \<and>
    s' = s\<lparr>te_expr := eff, te_rules := reported_rules s, te_seen := Some (te_expr s, te_rules s)\<rparr>"
  using assms(1)
proof (rule commit_cases)
  fix u eff l
  assume a: "effectiveExpr s = Inr eff" "loadExpr s = Inr l"
    "s' = (resetInit l)\<lparr>te_expr := eff, te_rules := reported_rules s,
      te_seen := Some (te_expr s, te_rules s), te_seenModel := Some (te_model s)\<rparr>"
  have "l = s" using a(2) assms(3) by (auto simp: loadExpr_def)
  then have "s' = s\<lparr>te_expr := eff, te_rules := reported_rules s, te_seen := Some (te_expr s, te_rules s)\<rparr>"
    using a(3) assms(2) by (cases s) (simp add: resetInit_def)
  then show ?thesis using a(1) by blast
qed

lemma effective_local:
  "te_mode s' = te_mode s \<Longrightarrow> te_visual s' = te_visual s \<Longrightarrow> te_raw s' = te_raw s \<Longrightarrow> effectiveExpr s' = effectiveExpr s"
  by (simp add: effectiveExpr_def)

lemma rules_local: "te_rules s' = te_rules s \<Longrightarrow> canUseVisualRules s' = canUseVisualRules s"
  by (simp add: canUseVisualRules_def)

lemma idle_rest:
  assumes "commit s = Inr s1" "commit s1 = Inr s2" "known s" "te_init s"
  shows "at_rest s2"
proof -
  obtain eff where 1: "effectiveExpr s = Inr eff"
    "s1 = s\<lparr>te_expr := eff, te_rules := reported_rules s, te_seen := Some (te_expr s, te_rules s)\<rparr>"
    using commit_idle [OF assms(1,3)] assms(4) by blast
  have e1: "effectiveExpr s1 = Inr eff" using effective_local [of s1 s] 1 by simp
  have r1: "reported_rules s1 = te_rules s1" by (simp add: 1(2) reported_rules_def)
  obtain eff' where "effectiveExpr s1 = Inr eff'"
    "s2 = s1\<lparr>te_expr := eff', te_rules := reported_rules s1, te_seen := Some (te_expr s1, te_rules s1)\<rparr>"
    using commit_idle [OF assms(2)] assms(3,4) 1(2) by auto
  then have 2: "s2 = s1\<lparr>te_seen := Some (te_expr s1, te_rules s1)\<rparr>" using e1 r1 1(2) by simp
  obtain u where "canUseVisualRules s1 = Inr u" using assms(2) by (rule commit_cases)
  then have "canUseVisualRules s2 = Inr u" using rules_local [of s2 s1] by (simp add: 2)
  moreover have "effectiveExpr s2 = Inr eff" using effective_local [of s2 s1] e1 2 by simp
  moreover have "loadExpr s2 = Inr s2" by (simp add: loadExpr_def 2)
  ultimately have "commit s2 = Inr ((resetInit s2)\<lparr>te_expr := eff, te_rules := reported_rules s2,
      te_seen := Some (te_expr s2, te_rules s2), te_seenModel := Some (te_model s2)\<rparr>)"
    by (rule commit_Inr)
  moreover have "reported_rules s2 = te_rules s2" using r1 by (auto simp: 2 reported_rules_def split: if_splits)
  ultimately show ?thesis using assms(3) by (simp add: at_rest_def 2 1(2) resetInit_def)
qed

definition settles :: "nat \<Rightarrow> Editor \<Rightarrow> bool" where
  "settles n s = (case commits n s of Inl e \<Rightarrow> True | Inr s' \<Rightarrow> commit s' = Inr s')"

lemma settles_Suc: "(\<And>s'. commit s = Inr s' \<Longrightarrow> settles n s') \<Longrightarrow> settles (Suc n) s"
  by (cases "commit s") (simp_all add: settles_def)

lemma settles_rest: "at_rest s \<Longrightarrow> settles n s"
  by (induction n) (simp_all add: settles_def at_rest_def)

lemma settles_init:
  assumes "known s" "te_init s"
  shows "settles (Suc (Suc n)) s"
proof (intro settles_Suc settles_rest)
  fix s1 s2 assume "commit s = Inr s1" "commit s1 = Inr s2"
  then show "at_rest s2" using idle_rest assms by blast
qed

text \<open>A commit that loads leaves the editor initialised.\<close>

lemma commit_load:
  assumes "commit s = Inr s'" "known s" "\<not> te_init s" "te_seen s \<noteq> Some (te_expr s, te_rules s)"
  shows "te_init s'"
  using assms(1)
proof (rule commit_cases)
  fix l eff
  assume a: "loadExpr s = Inr l" "s' = (resetInit l)\<lparr>te_expr := eff, te_rules := reported_rules s,
      te_seen := Some (te_expr s, te_rules s), te_seenModel := Some (te_model s)\<rparr>"
  have "te_init l" "te_seenModel l = te_seenModel s" "te_model l = te_model s"
    using a(1) assms(3,4) by (auto simp: loadExpr_def Let_def split: option.splits sum.splits if_splits)
  then show ?thesis using a(2) assms(2) by (simp add: resetInit_def)
qed

lemma settles_fresh:
  assumes "known s" "te_seen s \<noteq> Some (te_expr s, te_rules s)"
  shows "settles (Suc (Suc (Suc n))) s"
proof (rule settles_Suc)
  fix s1 assume c: "commit s = Inr s1"
  have "te_init s1"
  proof (cases "te_init s")
    case True
    then show ?thesis using commit_idle [OF c assms(1)] by auto
  next
    case False
    then show ?thesis using commit_load [OF c assms(1)] assms(2) by simp
  qed
  then show "settles (Suc (Suc n)) s1" using settles_init commit_known [OF c] by blast
qed

lemma settles_known:
  assumes "known s"
  shows "settles 4 s"
proof (cases "te_init s \<or> te_seen s \<noteq> Some (te_expr s, te_rules s)")
  case True
  then show ?thesis using settles_init [OF assms, of 2] settles_fresh [OF assms, of 1] by (auto simp: numeral_eq_Suc)
next
  case False
  have "settles (Suc 3) s"
  proof (rule settles_Suc)
    fix s1 assume c: "commit s = Inr s1"
    obtain eff where 1: "effectiveExpr s = Inr eff"
      "s1 = s\<lparr>te_expr := eff, te_rules := reported_rules s, te_seen := Some (te_expr s, te_rules s)\<rparr>"
      using commit_idle [OF c assms] False by blast
    show "settles 3 s1"
    proof (cases "te_expr s1 = te_expr s \<and> te_rules s1 = te_rules s")
      case True
      then have "s1 = s" using 1(2) False by (cases s) simp
      then have "at_rest s1" using c by (simp add: at_rest_def)
      then show ?thesis by (rule settles_rest)
    next
      case False
      then have "te_seen s1 \<noteq> Some (te_expr s1, te_rules s1)" by (auto simp: 1(2))
      then show ?thesis using settles_fresh [of s1 0] commit_known [OF c] by (simp add: numeral_eq_Suc)
    qed
  qed
  then show ?thesis by (simp add: numeral_eq_Suc)
qed

lemma settles_five: "settles 5 s"
  using settles_Suc [of s 4] settles_known commit_known by (force simp: numeral_eq_Suc)

text \<open>
  C18: The effects of the price editor come to rest: after at most five renderings nothing changes any
  more, from any state and whatever the texts are.
\<close>

theorem editor_settles:
  "case commits 5 s of Inl e \<Rightarrow> True | Inr s' \<Rightarrow> commit s' = Inr s'"
  using settles_five [of s] by (simp add: settles_def)
section \<open>A price of the visual editor\<close>

text \<open>The editor shows a configuration and rules, and the parent has their texts.\<close>

definition shows_price :: "VisualConfig \<Rightarrow> RequestRuleGroup list \<Rightarrow> Editor \<Rightarrow> bool" where
  "shows_price cfg gs s \<longleftrightarrow> te_mode s = VisualMode \<and> te_visual s = Some cfg \<and>
     te_expr s = generateExprFromVisualConfig (Some cfg) \<and> te_rules s = buildRequestRuleExpr gs \<and>
     te_groups s \<in> {gs, List.map_filter read_group gs}"

lemma visual_read:
  "tiers_ok (vc_tiers cfg) \<Longrightarrow> tryParseVisualConfig (Some (generateExprFromVisualConfig (Some cfg))) = Some cfg"
  using config_text parse_text by (cases cfg) simp

lemma rules_read:
  assumes "list_all plain_group gs"
  shows "parsed_rules (buildRequestRuleExpr gs) = Inr (List.map_filter read_group gs)"
    "te_rules s = buildRequestRuleExpr gs \<Longrightarrow> canUseVisualRules s = Inr True"
  using rules_read_back [OF assms] by (simp_all add: parsed_rules_def canUseVisualRules_def)

lemma commit_shows:
  assumes "shows_price cfg gs s" "tiers_ok (vc_tiers cfg)" "list_all plain_group gs"
  shows "\<exists>s'. commit s = Inr s' \<and> shows_price cfg gs s'"
proof -
  note s = assms(1) [unfolded shows_price_def]
  have "\<exists>l. loadExpr s = Inr l \<and> shows_price cfg gs l"
    using s rules_read(1) [OF assms(3)] visual_read [OF assms(2)]
    by (auto simp: loadExpr_def shows_price_def)
  then obtain l where l: "loadExpr s = Inr l" "shows_price cfg gs l" by blast
  moreover have "effectiveExpr s = Inr (te_expr s)" using s by (simp add: effectiveExpr_def)
  moreover have "reported_rules s = te_rules s"
    using s build_stable [OF assms(3)] by (auto simp: reported_rules_def)
  ultimately show ?thesis
    using commit_Inr [OF rules_read(2) [OF assms(3)], of s] s by (auto simp: shows_price_def resetInit_def)
qed

lemma commits_shows:
  assumes "shows_price cfg gs s" "tiers_ok (vc_tiers cfg)" "list_all plain_group gs"
  shows "\<exists>s'. commits n s = Inr s' \<and> shows_price cfg gs s'"
  using assms(1)
proof (induction n arbitrary: s)
  case (Suc n)
  then obtain s1 where "commit s = Inr s1" "shows_price cfg gs s1" using commit_shows assms(2,3) by blast
  then show ?case using Suc.IH by simp
qed simp

lemma settled: "commits 5 s = Inr s' \<Longrightarrow> at_rest s'"
  using settles_five [of s] by (simp add: settles_def at_rest_def)

lemma no_rules: "parsed_rules [] = Inr []" "buildRequestRuleExpr [] = []"
  by (simp_all add: parsed_rules_def tryParseRequestRuleExpr_def buildRequestRuleExpr_def)

text \<open>Rules that the editor cannot show are read as no rules, and the first rendering reports that.\<close>

lemma open_erases:
  assumes "tiers_ok (vc_tiers cfg)" "tryParseRequestRuleExpr r = Inr None"
  obtains s s1 where "openEditor modelName (generateExprFromVisualConfig (Some cfg)) r = Inr s"
    "commit s = Inr s1" "shows_price cfg [] s1"
proof -
  note v = visual_read [OF assms(1)]
  have r: "parsed_rules r = Inr []" using assms(2) by (simp add: parsed_rules_def)
  obtain s where s: "openEditor modelName (generateExprFromVisualConfig (Some cfg)) r = Inr s"
    "te_mode s = VisualMode" "te_visual s = Some cfg" "te_expr s = generateExprFromVisualConfig (Some cfg)"
    "te_groups s = []" "te_rules s = r"
    using r v by (simp add: openEditor_def)
  have c: "\<exists>u. canUseVisualRules s = Inr u" using assms(2) s(6) by (auto simp: canUseVisualRules_def)
  have e: "effectiveExpr s = Inr (te_expr s)" using s by (simp add: effectiveExpr_def)
  have "\<exists>l. loadExpr s = Inr l \<and> te_mode l = VisualMode \<and> te_visual l = Some cfg \<and> te_groups l = []"
    using s r v by (auto simp: loadExpr_def)
  then obtain l where l: "loadExpr s = Inr l" "te_mode l = VisualMode" "te_visual l = Some cfg" "te_groups l = []"
    by blast
  have "\<exists>s1. commit s = Inr s1 \<and> shows_price cfg [] s1"
    using c commit_Inr [OF _ e l(1)] l s by (auto simp: shows_price_def resetInit_def reported_rules_def)
  then show thesis using that s(1) by blast
qed

lemma opened_price:
  assumes "tiers_ok (vc_tiers cfg)" "list_all plain_group gs" "shows_price cfg gs s1" "commits n s = Inr s1" "n \<le> 5"
  shows "\<exists>s'. commits 5 s = Inr s' \<and> at_rest s' \<and> shows_price cfg gs s'"
proof -
  have add: "commits (n + k) s = commits k s1" for k
    using assms(4) by (induction n arbitrary: s) (auto split: sum.splits)
  obtain s' where "commits (5 - n) s1 = Inr s'" "shows_price cfg gs s'" using commits_shows assms(1-3) by blast
  then show ?thesis using add [of "5 - n"] assms(5) settled by (metis le_add_diff_inverse)
qed

text \<open>
  C16: Opening the editor on a price of the visual editor (one tier with or without conditions, or
  several of which exactly the last has none) keeps the price and shows its configuration. Request
  rules are kept when the editor can read what it builds from them, that is for conditions on the
  time, on headers, and on parameters by presence and equality. Rules that the editor cannot
  read, which those with a comparison or a contains condition on a parameter are, are erased.
\<close>

theorem open_keeps_price:
  assumes "tiers_ok (vc_tiers cfg)" "list_all plain_group gs" "tryParseRequestRuleExpr r = Inr None"
  shows "(\<exists>s s'. openEditor modelName (generateExprFromVisualConfig (Some cfg)) (buildRequestRuleExpr gs) = Inr s \<and>
    commits 5 s = Inr s' \<and> at_rest s' \<and> te_expr s' = generateExprFromVisualConfig (Some cfg) \<and>
    te_rules s' = buildRequestRuleExpr gs \<and> te_mode s' = VisualMode \<and> te_visual s' = Some cfg) \<and>
    (\<exists>s s'. openEditor modelName (generateExprFromVisualConfig (Some cfg)) r = Inr s \<and>
    commits 5 s = Inr s' \<and> at_rest s' \<and> te_expr s' = generateExprFromVisualConfig (Some cfg) \<and>
    te_rules s' = [] \<and> te_mode s' = VisualMode \<and> te_visual s' = Some cfg)"
proof
  obtain s where s: "openEditor modelName (generateExprFromVisualConfig (Some cfg)) (buildRequestRuleExpr gs) = Inr s"
    "shows_price cfg gs s"
    using rules_read(1) [OF assms(2)] visual_read [OF assms(1)] by (simp add: openEditor_def shows_price_def)
  then show "\<exists>s s'. openEditor modelName (generateExprFromVisualConfig (Some cfg)) (buildRequestRuleExpr gs) = Inr s \<and>
    commits 5 s = Inr s' \<and> at_rest s' \<and> te_expr s' = generateExprFromVisualConfig (Some cfg) \<and>
    te_rules s' = buildRequestRuleExpr gs \<and> te_mode s' = VisualMode \<and> te_visual s' = Some cfg"
    using opened_price [OF assms(1,2) s(2), of 0] by (auto simp: shows_price_def)
  obtain s s1 where e: "openEditor modelName (generateExprFromVisualConfig (Some cfg)) r = Inr s"
    "commit s = Inr s1" "shows_price cfg [] s1"
    using open_erases [OF assms(1,3)] by blast
  then show "\<exists>s s'. openEditor modelName (generateExprFromVisualConfig (Some cfg)) r = Inr s \<and>
    commits 5 s = Inr s' \<and> at_rest s' \<and> te_expr s' = generateExprFromVisualConfig (Some cfg) \<and>
    te_rules s' = [] \<and> te_mode s' = VisualMode \<and> te_visual s' = Some cfg"
    using opened_price [OF assms(1) _ e(3), of 1 s] no_rules(2) by (auto simp: shows_price_def)
qed

lemma rest_fields:
  assumes "at_rest s"
  shows "known s" "te_seen s = Some (te_expr s, te_rules s)" "te_rules s = reported_rules s"
proof -
  have c: "commit s = Inr s" using assms by (simp add: at_rest_def)
  then show "known s" using commit_known by blast
  show "te_seen s = Some (te_expr s, te_rules s)" "te_rules s = reported_rules s"
    using c by (auto elim!: commit_cases dest: arg_cong [of _ _ te_seen] arg_cong [of _ _ te_rules])
qed

lemma edit_settles:
  assumes "at_rest s" "te_mode s = VisualMode" "list_all plain_group (te_groups s)" "tiers_ok (vc_tiers next)"
  shows "\<exists>s'. commits 5 (handleVisualChange next s) = Inr s' \<and> at_rest s' \<and> te_mode s' = VisualMode \<and>
    te_visual s' = Some next \<and> te_expr s' = generateExprFromVisualConfig (Some next) \<and> te_rules s' = te_rules s"
proof -
  let ?s = "handleVisualChange next s"
  note r = rest_fields [OF assms(1)]
  have rules: "te_rules s = buildRequestRuleExpr (te_groups s)" using r(3) assms(2) by (simp add: reported_rules_def)
  have "canUseVisualRules ?s = Inr True"
    using rules_read(2) [OF assms(3)] rules by (simp add: handleVisualChange_def)
  moreover have "effectiveExpr ?s = Inr (generateExprFromVisualConfig (Some next))" "loadExpr ?s = Inr ?s"
    using assms(2) r(2) by (simp_all add: handleVisualChange_def effectiveExpr_def loadExpr_def)
  ultimately obtain s1 where c: "commit ?s = Inr s1" "s1 = ?s\<lparr>te_expr := generateExprFromVisualConfig (Some next),
      te_rules := reported_rules ?s, te_seen := Some (te_expr ?s, te_rules ?s), te_seenModel := Some (te_model ?s)\<rparr>"
    using commit_Inr r(1) by (fastforce simp: resetInit_def handleVisualChange_def)
  have "shows_price next (te_groups s) s1"
    using assms(2) rules by (simp add: c(2) shows_price_def handleVisualChange_def reported_rules_def)
  then obtain s' where s': "commits 4 s1 = Inr s'" "shows_price next (te_groups s) s'"
    using commits_shows assms(3,4) by blast
  then have "commits 5 ?s = Inr s'" using c(1) by (simp add: numeral_eq_Suc)
  then show ?thesis using s'(2) settled rules unfolding shows_price_def by auto
qed


text \<open>
  C17: An edit in the visual editor is kept: whatever the editor had loaded before, it comes to rest with
  the edited configuration, the parent has its expression, and the request rules are the same. The
  edited configuration has the shape that can be read back, and the rules on show are plain groups.
\<close>

theorem visual_edit_kept:
  assumes "at_rest s" "te_mode s = VisualMode" "list_all plain_group (te_groups s)" "tiers_ok (vc_tiers next)"
  shows "\<exists>s'. commits 5 (handleVisualChange next s) = Inr s' \<and> at_rest s' \<and> te_mode s' = VisualMode \<and>
    te_visual s' = Some next \<and> te_expr s' = generateExprFromVisualConfig (Some next) \<and> te_rules s' = te_rules s"
  using assms by (rule edit_settles)

section \<open>A price that the visual editor cannot read\<close>

lemma no_quote_unreadable:
  assumes "quote_c \<notin> set (c # t)" "c \<noteq> CHR ''v''"
  shows "tryParseVisualConfig (Some (c # t)) = None"
proof -
  have "match_list visualTierRe (c # t) = []"
    using no_quote_no_tier [OF assms(1) over_cond] by (simp add: match_list_def visualTierRe_def)
  moreover have "\<not> prefix ''tier(\"'' (c # t)" using assms(1) by (auto simp: prefix_def)
  then have "rmatch singleRe (c # t) = None"
    by (auto simp: singleRe_def rmatch_start run_lit_seq simp del: run.simps)
  ultimately show ?thesis using no_version [OF assms(2)] by (simp add: tryParseVisualConfig_def)
qed

lemma zero_unreadable: "tryParseVisualConfig (Some ZERO_EXPR) = None"
  unfolding ZERO_EXPR_def by (rule no_quote_unreadable) simp_all

lemma zero_split: "splitBillingExprAndRequestRules ZERO_EXPR = Inr \<lparr>se_billingExpr = ZERO_EXPR, se_requestRuleExpr = []\<rparr>"
  by code_simp

lemma plain_combine: "trim X = X \<Longrightarrow> combineBillingExpr X [] = X"
  by (simp add: combineBillingExpr_def)

lemma zero_trim: "trim ZERO_EXPR = ZERO_EXPR"
  by code_simp

text \<open>
  C21: Opening the editor on a price that the visual editor cannot read, without request rules, sets the
  price to zero: when the effects have come to rest the parent has \<open>p * 0 + c * 0\<close>, and the expression
  editor shows that text instead of the price.
\<close>

theorem open_resets_price:
  assumes "tryParseVisualConfig (Some X) = None" "X \<noteq> []" "X \<noteq> ZERO_EXPR" "trim X = X"
    "splitBillingExprAndRequestRules X = Inr \<lparr>se_billingExpr = X, se_requestRuleExpr = []\<rparr>"
  shows "\<exists>s s'. openEditor modelName X [] = Inr s \<and> commits 5 s = Inr s' \<and> at_rest s' \<and>
    te_mode s' = RawMode \<and> te_raw s' = ZERO_EXPR \<and> te_expr s' = ZERO_EXPR"
proof -
  define s where "s = \<lparr>te_mode = VisualMode, te_visual = None, te_raw = X, te_groups = [], te_init = False,
    te_expr = X, te_rules = [], te_model = modelName, te_seen = None, te_seenModel = None\<rparr>"
  have o: "openEditor modelName X [] = Inr s"
    using assms by (simp add: openEditor_def no_rules plain_combine s_def)
  note defs = commit_def reportExpr_def reportRules_def Let_def canUseVisualRules_def effectiveExpr_def loadExpr_def resetInit_def reported_rules_def no_rules
    zero_unreadable zero_split plain_combine zero_trim generateExprFromVisualConfig_def
  have z: "ZERO_EXPR \<noteq> []" by (simp add: ZERO_EXPR_def)
  have 1: "commit s = Inr (s\<lparr>te_mode := RawMode, te_expr := ZERO_EXPR, te_seen := Some (X, []), te_seenModel := Some modelName\<rparr>)"
    using assms by (simp add: s_def defs)
  let ?s1 = "s\<lparr>te_mode := RawMode, te_expr := ZERO_EXPR, te_seen := Some (X, []), te_seenModel := Some modelName\<rparr>"
  have 2: "commit ?s1 = Inr (s\<lparr>te_mode := RawMode, te_raw := ZERO_EXPR, te_init := True,
      te_seen := Some (ZERO_EXPR, []), te_seenModel := Some modelName\<rparr>)"
    using assms z by (simp add: s_def defs)
  let ?s2 = "s\<lparr>te_mode := RawMode, te_raw := ZERO_EXPR, te_init := True,
      te_seen := Some (ZERO_EXPR, []), te_seenModel := Some modelName\<rparr>"
  have 3: "commit ?s2 = Inr (?s2\<lparr>te_expr := ZERO_EXPR, te_seen := Some (X, [])\<rparr>)"
    using assms z by (simp add: s_def defs)
  let ?s3 = "?s2\<lparr>te_expr := ZERO_EXPR, te_seen := Some (X, [])\<rparr>"
  have 4: "commit ?s3 = Inr (?s3\<lparr>te_seen := Some (ZERO_EXPR, [])\<rparr>)"
    using assms z by (simp add: s_def defs)
  have 5: "commit (?s3\<lparr>te_seen := Some (ZERO_EXPR, [])\<rparr>) = Inr (?s3\<lparr>te_seen := Some (ZERO_EXPR, [])\<rparr>)"
    using assms z by (simp add: s_def defs)
  have five: "(5 :: nat) = Suc (Suc (Suc (Suc (Suc 0))))" by simp
  have "commits 5 s = Inr (?s3\<lparr>te_seen := Some (ZERO_EXPR, [])\<rparr>)"
    unfolding five commits.simps 1 2 3 4 5 sum.case by (rule refl)
  then show ?thesis using o 5 by (auto simp: at_rest_def s_def)
qed
theorem open_keeps_price_witness:
  "(\<exists>s s'. openEditor ''model'' (generateExprFromVisualConfig (Some \<lparr>vc_tiers = [short_tier, long_tier]\<rparr>))
      (buildRequestRuleExpr sample_groups) = Inr s \<and> commits 5 s = Inr s' \<and>
    te_rules s' = buildRequestRuleExpr sample_groups \<and> te_visual s' = Some \<lparr>vc_tiers = [short_tier, long_tier]\<rparr>) \<and>
   (\<exists>s s'. openEditor ''model'' (generateExprFromVisualConfig (Some \<lparr>vc_tiers = [short_tier, long_tier]\<rparr>))
      (buildRequestRuleExpr [\<lparr>rg_conditions = [ParamHeaderC \<lparr>ph_source = Param, ph_path = ''n'', ph_mode = MATCH_GT,
        ph_value = ''5''\<rparr>], rg_multiplier = ''2''\<rparr>]) = Inr s \<and> commits 5 s = Inr s' \<and> te_rules s' = [])"
proof -
  have n: "plain_name ''n''" "trim ''n'' = ''n''" "''n'' \<noteq> []" by code_simp+
  show ?thesis
    using open_keeps_price [OF _ plain_samples param_comparison_unreadable [OF n],
        of "\<lparr>vc_tiers = [short_tier, long_tier]\<rparr>" "''model''"] example_ok
    by auto
qed

theorem open_resets_price_witness:
  "\<exists>s s'. openEditor ''model'' ''p * 2'' [] = Inr s \<and> commits 5 s = Inr s' \<and> te_expr s' = ''p * 0 + c * 0''"
proof -
  have "tryParseVisualConfig (Some ''p * 2'') = None" by (rule no_quote_unreadable) simp_all
  moreover have "''p * 2'' \<noteq> ZERO_EXPR" by (simp add: ZERO_EXPR_def)
  moreover have "trim ''p * 2'' = ''p * 2''"
    "splitBillingExprAndRequestRules ''p * 2'' = Inr \<lparr>se_billingExpr = ''p * 2'', se_requestRuleExpr = []\<rparr>"
    by code_simp+
  ultimately show ?thesis using open_resets_price [of "''p * 2''" "''model''"] by (auto simp: ZERO_EXPR_def)
qed

lemma example_long_ok: "tiers_ok [long_tier]"
  using example_ok by (simp add: tiers_ok_def)

lemma example_rest:
  obtains s where "at_rest s" "te_mode s = VisualMode" "list_all plain_group (te_groups s)"
    "te_expr s = generateExprFromVisualConfig (Some \<lparr>vc_tiers = [short_tier, long_tier]\<rparr>)"
proof -
  let ?cfg = "\<lparr>vc_tiers = [short_tier, long_tier]\<rparr>"
  have ok: "tiers_ok (vc_tiers ?cfg)" "list_all plain_group []" using example_ok by simp_all
  obtain s0 where "shows_price ?cfg [] s0"
    by (rule that [of "\<lparr>te_mode = VisualMode, te_visual = Some ?cfg, te_raw = [], te_groups = [], te_init = False,
      te_expr = generateExprFromVisualConfig (Some ?cfg), te_rules = [], te_model = [], te_seen = None, te_seenModel = None\<rparr>"])
      (simp add: shows_price_def no_rules)
  then obtain s where s: "commits 5 s0 = Inr s" "shows_price ?cfg [] s" using commits_shows ok by blast
  then show thesis using settled by (intro that [of s]) (auto simp: shows_price_def map_filter_simps)
qed

theorem visual_edit_kept_witness:
  "\<exists>s s'. at_rest s \<and> te_expr s = generateExprFromVisualConfig (Some \<lparr>vc_tiers = [short_tier, long_tier]\<rparr>) \<and>
     commits 5 (handleVisualChange \<lparr>vc_tiers = [long_tier]\<rparr> s) = Inr s' \<and> at_rest s' \<and>
     te_expr s' = generateExprFromVisualConfig (Some \<lparr>vc_tiers = [long_tier]\<rparr>)"
proof -
  obtain s where s: "at_rest s" "te_mode s = VisualMode" "list_all plain_group (te_groups s)"
    "te_expr s = generateExprFromVisualConfig (Some \<lparr>vc_tiers = [short_tier, long_tier]\<rparr>)" using example_rest .
  have "tiers_ok (vc_tiers \<lparr>vc_tiers = [long_tier]\<rparr>)" using example_long_ok by simp
  from visual_edit_kept [OF s(1,2,3) this] obtain s' where "commits 5 (handleVisualChange \<lparr>vc_tiers = [long_tier]\<rparr> s) = Inr s'" "at_rest s'"
    "te_expr s' = generateExprFromVisualConfig (Some \<lparr>vc_tiers = [long_tier]\<rparr>)"
    by blast
  then show ?thesis using s(1,4) by blast
qed

section \<open>Adding and removing tiers\<close>

lemma nat_digits_not_quote: "list_all not_quote (nat_digits n)"
  using nat_digits_digits by (fastforce simp: list_all_iff not_quote_def is_digit_def)

lemma tier_field_conditions [simp]: "tier_field (tier\<lparr>vt_conditions := cs\<rparr>) f = tier_field tier f"
  by (simp add: tier_field_def)

lemma bounded_tier:
  assumes "tier_ok tier"
  shows "normalizeVisualTier (partial_tier (tier\<lparr>vt_conditions := [DEFAULT_BOUND var]\<rparr>)) =
      tier\<lparr>vt_conditions := [DEFAULT_BOUND var]\<rparr>"
    "var \<in> set CONDITION_INPUTS \<Longrightarrow> tier_ok (tier\<lparr>vt_conditions := [DEFAULT_BOUND var]\<rparr>)"
proof -
  have "tier_complete (tier\<lparr>vt_conditions := [DEFAULT_BOUND var]\<rparr>)" using assms by (simp add: tier_ok_def tier_complete_def)
  moreover have "printable_number 200000" by (rule printable_decimal [of _ 0]) (simp_all add: is_integer_def plain_range_def)
  ultimately show "normalizeVisualTier (partial_tier (tier\<lparr>vt_conditions := [DEFAULT_BOUND var]\<rparr>)) =
      tier\<lparr>vt_conditions := [DEFAULT_BOUND var]\<rparr>"
    "var \<in> set CONDITION_INPUTS \<Longrightarrow> tier_ok (tier\<lparr>vt_conditions := [DEFAULT_BOUND var]\<rparr>)"
    using assms by (auto simp: normal_tier tier_ok_def costs_printable_def cond_ok_def DEFAULT_BOUND_def CONDITION_INPUTS_def)
qed

lemma new_tier_ok:
  "tier_ok (normalizeVisualTier \<lparr>pa_label = Some (''tier_'' @ nat_digits n), pa_conditions = Some [],
     pa_cache_mode = None, pa_costs = [(''input_unit_cost'', 0), (''output_unit_cost'', 0)]\<rparr>)"
proof -
  have "printable_number 0" by (rule printable_decimal [of _ 0]) (simp_all add: is_integer_def plain_range_def)
  then show ?thesis
    using nat_digits_not_quote [of n]
    by (simp add: tier_ok_def normalizeVisualTier_def getTierCacheMode_def partial_cost_def costs_printable_def
        COST_FIELDS_def tier_field_def tier_complete_def not_quote_def)
qed

lemma new_tier_conditions:
  "vt_conditions (normalizeVisualTier \<lparr>pa_label = l, pa_conditions = Some [], pa_cache_mode = m, pa_costs = cs\<rparr>) = []"
  by (simp add: normalizeVisualTier_def)

lemma update_last: "ts \<noteq> [] \<Longrightarrow> ts[length ts - 1 := x] = butlast ts @ [x]"
  by (metis append_butlast_last_id length_butlast list_update_length)

lemma drop_index_split: "i < length xs \<Longrightarrow> drop_index i xs = take i xs @ drop (Suc i) xs"
proof -
  have "map snd (filter (\<lambda>(j, x). j \<noteq> k + i) (enumerate k xs)) = take i xs @ drop (Suc i) xs" if "i < length xs" for k
    using that
  proof (induction xs arbitrary: i k)
    case (Cons x xs)
    have keep: "filter (\<lambda>(j, x). j \<noteq> k) (enumerate m xs) = enumerate m xs" if "k < m" for m
      using that by (intro filter_True) (auto simp: in_set_enumerate_eq)
    show ?case
    proof (cases i)
      case 0
      then show ?thesis using keep [of "Suc k"] by simp
    next
      case (Suc i')
      then show ?thesis using Cons.IH [of i' "Suc k"] Cons.prems by simp
    qed
  qed simp
  from this [of 0] show "i < length xs \<Longrightarrow> ?thesis" by (simp add: drop_index_def)
qed

lemma tiers_ok_append:
  "tiers_ok (ts @ [t]) \<longleftrightarrow> list_all tier_ok ts \<and> tier_ok t \<and>
     (ts \<noteq> [] \<longrightarrow> list_all (\<lambda>t. vt_conditions t \<noteq> []) ts \<and> vt_conditions t = [])"
  by (cases ts) (auto simp: tiers_ok_def)

lemma add_tier_ok:
  assumes "tiers_ok (vc_tiers cfg)"
  shows "tiers_ok (vc_tiers (handleAddTier cfg))"
proof -
  let ?ts = "vc_tiers cfg"
  have ts: "?ts = butlast ?ts @ [last ?ts]" "?ts \<noteq> []" using assms by (auto simp: tiers_ok_def)
  then have ok: "list_all tier_ok (butlast ?ts)" "tier_ok (last ?ts)"
    "butlast ?ts \<noteq> [] \<longrightarrow> list_all (\<lambda>t. vt_conditions t \<noteq> []) (butlast ?ts) \<and> vt_conditions (last ?ts) = []"
    using assms tiers_ok_append [of "butlast ?ts" "last ?ts"] by auto
  have l: "?ts ! (length ?ts - 1) = last ?ts" using ts(2) by (simp add: last_conv_nth)
  define bounded where "bounded = (if vt_conditions (last ?ts) = []
    then butlast ?ts @ [(last ?ts)\<lparr>vt_conditions := [DEFAULT_BOUND ''len'']\<rparr>] else ?ts)"
  obtain new where new: "vc_tiers (handleAddTier cfg) = bounded @ [new]" "tier_ok new" "vt_conditions new = []"
    using new_tier_ok bounded_tier(1) [OF ok(2)] ts(2) l update_last [OF ts(2)]
    by (simp add: handleAddTier_def Let_def bounded_def new_tier_conditions)
  have "list_all tier_ok bounded \<and> list_all (\<lambda>t. vt_conditions t \<noteq> []) bounded"
  proof (cases "vt_conditions (last ?ts) = []")
    case True
    then show ?thesis
      using ok bounded_tier(2) [OF ok(2), of "''len''"] by (auto simp: bounded_def CONDITION_INPUTS_def)
  next
    case False
    then have "?ts = [last ?ts]" using ok(3) ts(1) by (metis append_Nil)
    then have "bounded = [last ?ts]" using False by (simp add: bounded_def)
    then show ?thesis using ok(2) False by simp
  qed
  then show ?thesis using new by (simp add: tiers_ok_append)
qed

lemma remove_tier_ok:
  assumes "tiers_ok (vc_tiers cfg)" "Suc i < length (vc_tiers cfg)"
  shows "tiers_ok (vc_tiers (handleRemoveTier i cfg))"
proof -
  let ?ts = "vc_tiers cfg"
  have ts: "?ts = butlast ?ts @ [last ?ts]" using assms by (auto simp: tiers_ok_def)
  have "drop_index i ?ts = drop_index i (butlast ?ts) @ [last ?ts]"
    using assms(2) by (subst (1 2) drop_index_split, simp_all) (subst (1 2) ts, simp)
  moreover have "set (drop_index i (butlast ?ts)) \<subseteq> set (butlast ?ts)"
    using assms(2) drop_index_split [of i "butlast ?ts"] by (auto dest: in_set_takeD in_set_dropD)
  moreover have "butlast ?ts \<noteq> []" using assms(2) by (cases ?ts rule: rev_cases) auto
  moreover from this have "list_all tier_ok (butlast ?ts)" "tier_ok (last ?ts)"
    "list_all (\<lambda>t. vt_conditions t \<noteq> []) (butlast ?ts)" "vt_conditions (last ?ts) = []"
    using assms tiers_ok_append [of "butlast ?ts" "last ?ts"] ts by (auto simp: tiers_ok_def)
  ultimately show ?thesis by (auto simp: handleRemoveTier_def Let_def tiers_ok_append list_all_iff)
qed

text \<open>
  C19: Adding a tier, or removing one that is not the last, keeps a configuration that its expression
  determines: the tier that was the fallback gets a bound, and the new tier is the fallback.
\<close>

theorem tier_edits_readable:
  assumes "tiers_ok (vc_tiers cfg)"
  shows "tiers_ok (vc_tiers (handleAddTier cfg)) \<and>
    (\<forall>i. Suc i < length (vc_tiers cfg) \<longrightarrow> tiers_ok (vc_tiers (handleRemoveTier i cfg)))"
  using add_tier_ok [OF assms] remove_tier_ok [OF assms] by blast

theorem tier_edits_readable_witness:
  "tiers_ok (vc_tiers (handleAddTier \<lparr>vc_tiers = [short_tier, long_tier]\<rparr>)) \<and>
   tiers_ok (vc_tiers (handleRemoveTier 0 \<lparr>vc_tiers = [short_tier, long_tier]\<rparr>))"
  using tier_edits_readable [of "\<lparr>vc_tiers = [short_tier, long_tier]\<rparr>"] example_ok by simp

text \<open>Removing the fallback of two tiers makes every request that the first does not match free.\<close>

lemma remove_fallback_is_free:
  assumes "tier_ok t1" "vt_conditions t1 \<noteq> []"
  shows "generateExprFromVisualConfig (Some (handleRemoveTier 1 \<lparr>vc_tiers = [t1, t2]\<rparr>)) =
    tier_text t1 @ '' : p * 0 + c * 0''"
proof -
  have "handleRemoveTier 1 \<lparr>vc_tiers = [t1, t2]\<rparr> = \<lparr>vc_tiers = [t1]\<rparr>"
    by (simp add: handleRemoveTier_def drop_index_def)
  moreover have "tiers_ok [t1]" using assms(1) by (simp add: tiers_ok_def)
  ultimately show ?thesis using config_text [of "[t1]"] assms(2) by (simp add: config_end_def ZERO_EXPR_def)
qed

end
