(* ===== verification/Js_Expr.thy ===== *)
theory Js_Expr
  imports Regex Json
begin

text \<open>
  A fragment of the expressions of JavaScript: numbers, strings in double quotes, variables, calls,
  arithmetic, comparisons, \<open>&&\<close>, \<open>||\<close> and \<open>?:\<close>. The fragment is closed under what the language says of
  it: \<open>None\<close> means that the text, or the value of a part of it, is outside the fragment, never that
  the fragment gives it another meaning. Numbers are exact.
\<close>

section \<open>Tokens\<close>

datatype token = TNum number | TStr string | TId string | TOp string

definition sticky :: "char \<Rightarrow> bool" where
  "sticky c \<longleftrightarrow> c \<in> set ''+-*/%<>=!&|?^~.''"

definition OPERATORS :: "string list" where
  "OPERATORS = [''+'', ''-'', ''*'', ''/'', ''<'', ''<='', ''>'', ''>='', ''&&'', ''||'', ''?'']"

definition name_start :: "char \<Rightarrow> bool" where
  "name_start c \<longleftrightarrow> word_char c \<and> \<not> is_digit c"

definition RESERVED :: "string list" where
  "RESERVED = [''await'', ''break'', ''case'', ''catch'', ''class'', ''const'', ''continue'', ''debugger'', ''default'',
     ''delete'', ''do'', ''else'', ''enum'', ''export'', ''extends'', ''false'', ''finally'', ''for'', ''function'', ''if'',
     ''implements'', ''import'', ''in'', ''instanceof'', ''interface'', ''let'', ''new'', ''null'', ''package'', ''private'',
     ''protected'', ''public'', ''return'', ''static'', ''super'', ''switch'', ''this'', ''throw'', ''true'', ''try'', ''typeof'',
     ''var'', ''void'', ''while'', ''with'', ''yield'']"

text \<open>Characters of a string literal that stand for themselves.\<close>

definition verbatim_char :: "char \<Rightarrow> bool" where
  "verbatim_char c \<longleftrightarrow> c \<noteq> quote_c \<and> c \<notin> set [CHR 0x5C, CHR 0x0A, CHR 0x0D]"

text \<open>
  The next token and the rest of a text that does not start with white space. Runs of operator
  characters are read as one token, so that comments and the operators \<open>--\<close>, \<open>**\<close> or \<open>?.\<close> are outside
  the fragment.
\<close>

definition next_token :: "string \<Rightarrow> (token \<times> string) option" where
  "next_token s =
     (case s of
        [] \<Rightarrow> None
      | c # r \<Rightarrow>
          if is_digit c
          then (case p_unsigned s of
                  Some (x, r') \<Rightarrow> if word_at r' \<or> prefix ''.'' r' then None else Some (TNum x, r')
                | None \<Rightarrow> None)
          else if name_start c
          then (let w = takeWhile word_char s in if w \<in> set RESERVED then None else Some (TId w, dropWhile word_char s))
          else if c = quote_c
          then (case dropWhile verbatim_char r of
                  q # r' \<Rightarrow> if q = quote_c then Some (TStr (takeWhile verbatim_char r), r') else None
                | [] \<Rightarrow> None)
          else if c \<in> set ''(),:'' then Some (TOp [c], r)
          else if takeWhile sticky s \<in> set OPERATORS then Some (TOp (takeWhile sticky s), dropWhile sticky s)
          else None)"

function js_tokens :: "string \<Rightarrow> token list option" where
  "js_tokens s =
     (case dropWhile is_space s of
        [] \<Rightarrow> Some []
      | c # r \<Rightarrow>
          (case next_token (c # r) of
             Some (t, r') \<Rightarrow> if length r' < length (c # r) then map_option (Cons t) (js_tokens r') else None
           | None \<Rightarrow> None))"
  by pat_completeness auto

termination
proof (relation "measure length")
  fix s c r and r' :: string
  assume "dropWhile is_space s = c # r" "length r' < length (c # r)"
  then show "(r', s) \<in> measure length" using length_dropWhile_le [of is_space s] by simp
qed simp

declare js_tokens.simps [simp del]

section \<open>Syntax\<close>

datatype jexpr =
    JNumber number
  | JString string
  | JVar string
  | JNeg jexpr
  | JBin string jexpr jexpr
  | JIf jexpr jexpr jexpr
  | JCall string "jexpr list"

type_synonym js_parser = "token list \<Rightarrow> (jexpr \<times> token list) option"

text \<open>Left-associative chains of the operators of one level\<close>

function chain_loop :: "string list \<Rightarrow> js_parser \<Rightarrow> jexpr \<Rightarrow> js_parser" where
  "chain_loop ops sub e ts =
     (case ts of
        TOp f # r \<Rightarrow>
          if f \<in> set ops
          then (case sub r of
                  Some (e', r') \<Rightarrow> if length r' < length ts then chain_loop ops sub (JBin f e e') r' else None
                | None \<Rightarrow> None)
          else Some (e, ts)
      | _ \<Rightarrow> Some (e, ts))"
  by pat_completeness auto

termination
  by (relation "measure (\<lambda>(_, _, _, ts). length ts)") auto

declare chain_loop.simps [simp del]

definition chain :: "string list \<Rightarrow> js_parser \<Rightarrow> js_parser" where
  "chain ops sub ts = Option.bind (sub ts) (\<lambda>(e, r). chain_loop ops sub e r)"

text \<open>The arguments of a call up to the closing parenthesis; \<open>p\<close> parses an expression.\<close>

function js_args :: "js_parser \<Rightarrow> token list \<Rightarrow> (jexpr list \<times> token list) option" where
  "js_args p ts =
     (case p ts of
        Some (e, TOp f # r) \<Rightarrow>
          if f = '')'' then Some ([e], r)
          else if f = '','' \<and> length r < length ts
          then map_option (\<lambda>(es, r'). (e # es, r')) (js_args p r) else None
      | _ \<Rightarrow> None)"
  by pat_completeness auto

termination
  by (relation "measure (\<lambda>(_, ts). length ts)") auto

declare js_args.simps [simp del]

definition js_primary :: "js_parser \<Rightarrow> js_parser" where
  "js_primary p ts =
     (case ts of
        TNum x # r \<Rightarrow> Some (JNumber x, r)
      | TStr s # r \<Rightarrow> Some (JString s, r)
      | TId x # r \<Rightarrow>
          (case r of
             TOp f # r' \<Rightarrow>
               if f = ''('' then map_option (\<lambda>(es, r''). (JCall x es, r'')) (js_args p r')
               else Some (JVar x, r)
           | _ \<Rightarrow> Some (JVar x, r))
      | TOp f # r \<Rightarrow>
          if f = ''(''
          then (case p r of Some (e, TOp g # r') \<Rightarrow> if g = '')'' then Some (e, r') else None | _ \<Rightarrow> None)
          else None
      | [] \<Rightarrow> None)"

definition js_unary :: "js_parser \<Rightarrow> js_parser" where
  "js_unary p ts =
     (case ts of
        TOp f # r \<Rightarrow>
          if f = ''-'' then map_option (\<lambda>(e, r'). (JNeg e, r')) (js_primary p r) else js_primary p ts
      | _ \<Rightarrow> js_primary p ts)"

definition js_or :: "js_parser \<Rightarrow> js_parser" where
  "js_or p = chain [''||''] (chain [''&&''] (chain [''<'', ''<='', ''>'', ''>='']
     (chain [''+'', ''-''] (chain [''*'', ''/''] (js_unary p)))))"

definition js_conditional :: "js_parser \<Rightarrow> js_parser" where
  "js_conditional p ts =
     Option.bind (js_or p ts) (\<lambda>(e, r).
       case r of
         TOp f # r1 \<Rightarrow>
           if f = ''?''
           then (case p r1 of
                   Some (e1, TOp g # r2) \<Rightarrow>
                     if g = '':'' then map_option (\<lambda>(e2, r3). (JIf e e1 e2, r3)) (p r2) else None
                 | _ \<Rightarrow> None)
           else Some (e, r)
       | _ \<Rightarrow> Some (e, r))"

text \<open>Expressions nested at most \<open>n\<close> deep\<close>

primrec js_expr :: "nat \<Rightarrow> js_parser" where
  "js_expr 0 ts = None"
| "js_expr (Suc n) ts = js_conditional (js_expr n) ts"

text \<open>The expression of a text; the depth of nesting is at most the number of tokens (\<open>js_expr_enough\<close>).\<close>

definition js_parse :: "string \<Rightarrow> jexpr option" where
  "js_parse s =
     Option.bind (js_tokens s) (\<lambda>ts.
       case js_expr (Suc (length ts)) ts of Some (e, []) \<Rightarrow> Some e | _ \<Rightarrow> None)"

section \<open>Evaluation\<close>

datatype jval = VNum number | VBool bool | VStr string

definition js_truthy :: "jval \<Rightarrow> bool" where
  "js_truthy v = (case v of VNum x \<Rightarrow> x \<noteq> 0 | VBool b \<Rightarrow> b | VStr s \<Rightarrow> s \<noteq> [])"

definition js_binop :: "string \<Rightarrow> number \<Rightarrow> number \<Rightarrow> jval option" where
  "js_binop f x y =
     (if f = ''+'' then Some (VNum (x + y))
      else if f = ''-'' then Some (VNum (x - y))
      else if f = ''*'' then Some (VNum (x * y))
      else if f = ''/'' \<and> y \<noteq> 0 then Some (VNum (x / y))
      else if f = ''<'' then Some (VBool (x < y))
      else if f = ''<='' then Some (VBool (x \<le> y))
      else if f = ''>'' then Some (VBool (x > y))
      else if f = ''>='' then Some (VBool (x \<ge> y))
      else None)"

text \<open>
  A call gives a value and the new state; \<open>env\<close> holds the numbers that the variables name, \<open>call\<close> the
  functions.
\<close>

fun js_eval :: "(string \<Rightarrow> number option) \<Rightarrow> (string \<Rightarrow> jval list \<Rightarrow> 's \<Rightarrow> (jval \<times> 's) option) \<Rightarrow>
    jexpr \<Rightarrow> 's \<Rightarrow> (jval \<times> 's) option"
and js_eval_list :: "(string \<Rightarrow> number option) \<Rightarrow> (string \<Rightarrow> jval list \<Rightarrow> 's \<Rightarrow> (jval \<times> 's) option) \<Rightarrow>
    jexpr list \<Rightarrow> 's \<Rightarrow> (jval list \<times> 's) option" where
  "js_eval env call (JNumber x) s = Some (VNum x, s)"
| "js_eval env call (JString t) s = Some (VStr t, s)"
| "js_eval env call (JVar v) s = map_option (\<lambda>x. (VNum x, s)) (env v)"
| "js_eval env call (JNeg e) s =
     (case js_eval env call e s of Some (VNum x, s') \<Rightarrow> Some (VNum (- x), s') | _ \<Rightarrow> None)"
| "js_eval env call (JBin f e1 e2) s =
     (case js_eval env call e1 s of
        None \<Rightarrow> None
      | Some (v1, s1) \<Rightarrow>
          if f = ''&&'' then (if js_truthy v1 then js_eval env call e2 s1 else Some (v1, s1))
          else if f = ''||'' then (if js_truthy v1 then Some (v1, s1) else js_eval env call e2 s1)
          else (case js_eval env call e2 s1 of
                  None \<Rightarrow> None
                | Some (v2, s2) \<Rightarrow>
                    (case (v1, v2) of
                       (VNum x, VNum y) \<Rightarrow> map_option (\<lambda>v. (v, s2)) (js_binop f x y)
                     | _ \<Rightarrow> None)))"
| "js_eval env call (JIf e e1 e2) s =
     (case js_eval env call e s of
        None \<Rightarrow> None
      | Some (v, s') \<Rightarrow> if js_truthy v then js_eval env call e1 s' else js_eval env call e2 s')"
| "js_eval env call (JCall f es) s =
     (case js_eval_list env call es s of None \<Rightarrow> None | Some (vs, s') \<Rightarrow> call f vs s')"
| "js_eval_list env call [] s = Some ([], s)"
| "js_eval_list env call (e # es) s =
     (case js_eval env call e s of
        None \<Rightarrow> None
      | Some (v, s') \<Rightarrow> map_option (\<lambda>(vs, s''). (v # vs, s'')) (js_eval_list env call es s'))"

section \<open>Reading tokens\<close>

lemma tokens_Nil: "js_tokens [] = Some []"
  by (simp add: js_tokens.simps)

lemma tokens_space: "is_space c \<Longrightarrow> js_tokens (c # s) = js_tokens s"
  by (subst (1 2) js_tokens.simps) simp

lemma tokens_next:
  assumes "next_token s = Some (t, r)" "s \<noteq> []" "\<not> is_space (hd s)" "length r < length s"
  shows "js_tokens s = map_option (Cons t) (js_tokens r)"
  unfolding js_tokens.simps [of s] using assms by (cases s) simp_all

lemma tokens_name:
  assumes "name_start (hd w)" "list_all word_char w" "w \<noteq> []" "w \<notin> set RESERVED" "\<not> word_at r"
  shows "js_tokens (w @ r) = map_option (Cons (TId w)) (js_tokens r)"
proof (rule tokens_next)
  have d: "dropWhile word_char r = r" "takeWhile word_char r = []" using assms(5) by (cases r; simp add: word_at_def)+
  show "next_token (w @ r) = Some (TId w, r)"
    using assms d by (cases w) (auto simp: next_token_def name_start_def Let_def list_all_iff)
  show "\<not> is_space (hd (w @ r))"
    using assms by (cases w) (auto simp: name_start_def word_char_def is_space_code)
qed (use assms in auto)

lemma tokens_unsigned:
  assumes "is_digit (hd w)" "w \<noteq> []" "p_unsigned (w @ r) = Some (x, r)" "\<not> word_at r" "\<not> prefix ''.'' r"
  shows "js_tokens (w @ r) = map_option (Cons (TNum x)) (js_tokens r)"
proof (rule tokens_next)
  show "next_token (w @ r) = Some (TNum x, r)"
    using assms by (cases w) (auto simp: next_token_def)
  show "\<not> is_space (hd (w @ r))"
    using assms by (cases w) (auto simp: is_digit_def is_space_code)
qed (use assms in auto)

lemma tokens_string:
  assumes "list_all verbatim_char w"
  shows "js_tokens (quote_c # w @ quote_c # r) = map_option (Cons (TStr w)) (js_tokens r)"
proof (rule tokens_next)
  have "\<not> is_digit quote_c" "\<not> name_start quote_c" "\<not> verbatim_char quote_c"
    by (simp_all add: is_digit_def name_start_def word_char_def verbatim_char_def)
  then show "next_token (quote_c # w @ quote_c # r) = Some (TStr w, r)"
    using assms by (simp add: next_token_def list_all_iff takeWhile_append2 dropWhile_append2)
qed (simp_all add: is_space_code)

lemma tokens_paren:
  assumes "c \<in> set ''(),:''"
  shows "js_tokens (c # r) = map_option (Cons (TOp [c])) (js_tokens r)"
proof (rule tokens_next)
  have c: "c \<in> {CHR ''('', CHR '')'', CHR '','', CHR '':''}" using assms by simp
  then have "\<not> is_digit c" "\<not> name_start c" "c \<noteq> quote_c"
    by (elim insertE emptyE; simp add: is_digit_def name_start_def word_char_def)+
  then show "next_token (c # r) = Some (TOp [c], r)" using assms by (simp only: next_token_def list.case if_True if_False)
  show "\<not> is_space (hd (c # r))" using c by (elim insertE emptyE; simp add: is_space_code)
qed simp_all

lemma tokens_operator:
  assumes "w \<in> set OPERATORS" "r = [] \<or> \<not> sticky (hd r)"
  shows "js_tokens (w @ r) = map_option (Cons (TOp w)) (js_tokens r)"
proof (rule tokens_next)
  have w: "list_all sticky w" "w \<noteq> []" using assms(1) by (auto simp: OPERATORS_def sticky_def)
  have s: "sticky c \<Longrightarrow> \<not> is_digit c \<and> \<not> name_start c \<and> c \<noteq> quote_c \<and> c \<notin> set ''(),:'' \<and> \<not> is_space c" for c
    by (auto simp: sticky_def is_digit_def name_start_def word_char_def is_space_code)
  obtain c w' where c: "w = c # w'" using w(2) by (cases w) simp_all
  have sc: "sticky c" using w(1) c by simp
  have all: "\<forall>x\<in>set w. sticky x" using w(1) by (simp add: list_all_iff)
  have d: "takeWhile sticky r = []" "dropWhile sticky r = r" using assms(2) by (cases r; simp)+
  have t: "takeWhile sticky (c # w' @ r) = w" "dropWhile sticky (c # w' @ r) = r"
    using takeWhile_append2 [of w sticky r] dropWhile_append2 [of w sticky r] all d by (simp_all add: c)
  show "next_token (w @ r) = Some (TOp w, r)"
    unfolding next_token_def c append_Cons list.case t using s [OF sc] assms(1) by (simp add: c)
  show "\<not> is_space (hd (w @ r))" using s [OF sc] by (simp add: c)
qed (use assms in \<open>auto simp: OPERATORS_def\<close>)

section \<open>The depth is enough\<close>

definition agree :: "nat \<Rightarrow> js_parser \<Rightarrow> js_parser \<Rightarrow> bool" where
  "agree k p q \<longleftrightarrow> (\<forall>ts. length ts < k \<longrightarrow> p ts = q ts)"

definition shrinks :: "js_parser \<Rightarrow> bool" where
  "shrinks p \<longleftrightarrow> (\<forall>ts e r. p ts = Some (e, r) \<longrightarrow> length r < length ts)"

lemma agreeD: "agree k p q \<Longrightarrow> length ts < k \<Longrightarrow> p ts = q ts"
  by (simp add: agree_def)

lemma shrinksD: "shrinks p \<Longrightarrow> p ts = Some (e, r) \<Longrightarrow> length r < length ts"
  by (simp add: shrinks_def)


lemma loop_shrinks:
  assumes "shrinks sub" "chain_loop ops sub e ts = Some (e', r)"
  shows "length r \<le> length ts"
  using assms(2)
proof (induction ops sub e ts rule: chain_loop.induct)
  case (1 ops sub e ts)
  show ?case
  proof (cases "\<exists>f r1 e1 r2. ts = TOp f # r1 \<and> f \<in> set ops \<and> sub r1 = Some (e1, r2)")
    case True
    then obtain f r1 e1 r2 where t: "ts = TOp f # r1" "f \<in> set ops" "sub r1 = Some (e1, r2)" by blast
    with "1.prems" have l: "length r2 < length ts" "chain_loop ops sub (JBin f e e1) r2 = Some (e', r)"
      unfolding chain_loop.simps [of ops sub e ts] by (simp_all split: if_splits)
    show ?thesis using "1.IH" [OF t(1) refl t(2,3) refl l] l(1) by simp
  next
    case False
    then show ?thesis using "1.prems" unfolding chain_loop.simps [of ops sub e ts]
      by (auto split: list.splits token.splits if_splits option.splits)
  qed
qed

lemma chain_shrinks: "shrinks sub \<Longrightarrow> shrinks (chain ops sub)"
  unfolding shrinks_def [of "chain ops sub"] chain_def
  by (auto simp: bind_eq_Some_conv intro: le_less_trans [OF loop_shrinks shrinksD])

lemma args_shrink:
  assumes "shrinks p" "js_args p ts = Some (es, r)"
  shows "length r < length ts"
  using assms
proof (induction p ts arbitrary: es rule: js_args.induct)
  case (1 p ts)
  obtain e f r1 where p: "p ts = Some (e, TOp f # r1)" "f = '')'' \<or> f = '','' \<and> length r1 < length ts"
    using "1.prems" unfolding js_args.simps [of p ts]
    by (auto split: option.splits prod.splits list.splits token.splits if_splits)
  show ?case
  proof (cases "f = '')''")
    case True
    then show ?thesis using "1.prems" p shrinksD [OF "1.prems"(1) p(1)] unfolding js_args.simps [of p ts] by simp
  next
    case False
    then have f: "f = '','' \<and> length r1 < length ts" using p(2) by blast
    then obtain es' where "js_args p r1 = Some (es', r)"
      using "1.prems"(2) p(1) False unfolding js_args.simps [of p ts] by auto
    then have "length r < length r1" by (rule "1.IH" [OF p(1) refl refl refl False f "1.prems"(1)])
    then show ?thesis using f by simp
  qed
qed


lemma primary_shrinks:
  assumes "shrinks p"
  shows "shrinks (js_primary p)"
  unfolding shrinks_def [of "js_primary p"]
proof (intro allI impI)
  fix ts e r
  assume "js_primary p ts = Some (e, r)"
  then show "length r < length ts"
    by (auto simp: js_primary_def split: list.splits token.splits if_splits option.splits
        dest!: args_shrink [OF assms] shrinksD [OF assms])
qed

lemma unary_shrinks:
  assumes "shrinks p"
  shows "shrinks (js_unary p)"
  unfolding shrinks_def [of "js_unary p"]
proof (intro allI impI)
  fix ts e r
  assume "js_unary p ts = Some (e, r)"
  then show "length r < length ts"
    by (auto simp: js_unary_def split: list.splits token.splits if_splits
        dest!: shrinksD [OF primary_shrinks [OF assms]])
qed

lemma or_shrinks: "shrinks p \<Longrightarrow> shrinks (js_or p)"
  unfolding js_or_def by (intro chain_shrinks unary_shrinks)

lemma conditional_shrinks:
  assumes "shrinks p"
  shows "shrinks (js_conditional p)"
  unfolding shrinks_def [of "js_conditional p"]
proof (intro allI impI)
  fix ts e r
  assume c: "js_conditional p ts = Some (e, r)"
  then obtain e0 r0 where o: "js_or p ts = Some (e0, r0)" by (auto simp: js_conditional_def bind_eq_Some_conv)
  then have l: "length r0 < length ts" by (rule shrinksD [OF or_shrinks [OF assms]])
  show "length r < length ts"
  proof (cases "r = r0")
    case False
    then obtain r1 e1 r2 e2 where s: "r0 = TOp ''?'' # r1" "p r1 = Some (e1, TOp '':'' # r2)" "p r2 = Some (e2, r)"
      using c o by (auto simp: js_conditional_def split: list.splits token.splits if_splits option.splits)
    show ?thesis using shrinksD [OF assms s(2)] shrinksD [OF assms s(3)] l s(1) by simp
  qed (use l in simp)
qed

lemma expr_shrinks: "shrinks (js_expr n)"
proof (induction n)
  case 0
  then show ?case by (simp add: shrinks_def)
next
  case (Suc n)
  have "js_expr (Suc n) = js_conditional (js_expr n)" by (rule ext) simp
  then show ?case using conditional_shrinks [OF Suc] by simp
qed

lemma loop_agree:
  assumes "agree k p q" "length ts \<le> k"
  shows "chain_loop ops p e ts = chain_loop ops q e ts"
  using assms
proof (induction ops p e ts rule: chain_loop.induct)
  case (1 ops p e ts)
  show ?case
  proof (cases "\<exists>f r. ts = TOp f # r \<and> f \<in> set ops")
    case True
    then obtain f r where t: "ts = TOp f # r" "f \<in> set ops" by blast
    have pq: "p r = q r" using "1.prems" t(1) by (intro agreeD [of k]) simp_all
    show ?thesis
    proof (cases "p r")
      case (Some er)
      obtain e1 r1 where er: "er = (e1, r1)" by (cases er)
      show ?thesis
      proof (cases "length r1 < length ts")
        case True
        have "chain_loop ops p (JBin f e e1) r1 = chain_loop ops q (JBin f e e1) r1"
          by (rule "1.IH" [OF t(1) refl t(2) Some er [symmetric] True "1.prems"(1)]) (use True "1.prems"(2) in simp)
        then show ?thesis unfolding chain_loop.simps [of ops p e ts] chain_loop.simps [of ops q e ts]
          using t Some er pq True by simp
      next
        case False
        then show ?thesis unfolding chain_loop.simps [of ops p e ts] chain_loop.simps [of ops q e ts]
          using t Some er pq by simp
      qed
    qed (use t pq in \<open>simp add: chain_loop.simps [of ops _ e "_ # _"]\<close>)
  next
    case False
    then show ?thesis unfolding chain_loop.simps [of ops p e ts] chain_loop.simps [of ops q e ts]
      by (auto split: list.splits token.splits)
  qed
qed

lemma chain_agree:
  assumes "agree k p q" "shrinks p"
  shows "agree k (chain ops p) (chain ops q)"
  unfolding agree_def [of k "chain ops p"]
proof (intro allI impI)
  fix ts :: "token list"
  assume l: "length ts < k"
  show "chain ops p ts = chain ops q ts"
  proof (cases "p ts")
    case None
    then show ?thesis using agreeD [OF assms(1) l] by (simp add: chain_def)
  next
    case (Some er)
    obtain e r where er: "er = (e, r)" by (cases er)
    have "length r < length ts" using shrinksD [OF assms(2)] Some er by simp
    then have "chain_loop ops p e r = chain_loop ops q e r" using loop_agree [OF assms(1)] l by simp
    then show ?thesis unfolding chain_def agreeD [OF assms(1) l, symmetric] Some er by simp
  qed
qed

lemma args_agree:
  assumes "agree k p q" "length ts < k"
  shows "js_args p ts = js_args q ts"
  using assms
proof (induction p ts rule: js_args.induct)
  case (1 p ts)
  have pq: "p ts = q ts" by (rule agreeD [OF "1.prems"])
  show ?case
  proof (cases "\<exists>e r. p ts = Some (e, TOp '','' # r) \<and> length r < length ts")
    case True
    then obtain e r where p: "p ts = Some (e, TOp '','' # r)" and l: "length r < length ts" by blast
    have "js_args p r = js_args q r"
      by (rule "1.IH" [OF p refl refl refl _ _ "1.prems"(1)]) (use l "1.prems"(2) in simp_all)
    then show ?thesis unfolding js_args.simps [of p ts] js_args.simps [of q ts] pq [symmetric] p by simp
  next
    case False
    then show ?thesis unfolding js_args.simps [of p ts] js_args.simps [of q ts] pq
      by (auto split: option.splits list.splits token.splits)
  qed
qed

lemma primary_agree:
  assumes "agree k p q"
  shows "agree (Suc k) (js_primary p) (js_primary q)"
  unfolding agree_def [of "Suc k"]
proof (intro allI impI)
  fix ts :: "token list"
  assume l: "length ts < Suc k"
  have a: "ts = t # u # r \<Longrightarrow> js_args p r = js_args q r" for t u r using args_agree [OF assms] l by simp
  have e: "ts = t # r \<Longrightarrow> p r = q r" for t r using agreeD [OF assms] l by simp
  show "js_primary p ts = js_primary q ts"
    unfolding js_primary_def using a e by (auto split: list.splits token.splits)
qed

lemma unary_agree:
  assumes "agree k p q"
  shows "agree (Suc k) (js_unary p) (js_unary q)"
  unfolding agree_def [of "Suc k"]
proof (intro allI impI)
  fix ts :: "token list"
  assume l: "length ts < Suc k"
  have e: "js_primary p ts = js_primary q ts" using agreeD [OF primary_agree [OF assms]] l by simp
  have t: "ts = t # r \<Longrightarrow> js_primary p r = js_primary q r" for t r using agreeD [OF primary_agree [OF assms]] l by simp
  show "js_unary p ts = js_unary q ts"
    unfolding js_unary_def e using t by (auto split: list.splits token.splits)
qed

lemma or_agree: "agree k p q \<Longrightarrow> shrinks p \<Longrightarrow> agree (Suc k) (js_or p) (js_or q)"
  unfolding js_or_def by (intro chain_agree chain_shrinks unary_agree unary_shrinks)

lemma conditional_agree:
  assumes "agree k p q" "shrinks p"
  shows "agree (Suc k) (js_conditional p) (js_conditional q)"
  unfolding agree_def [of "Suc k"]
proof (intro allI impI)
  fix ts :: "token list"
  assume l: "length ts < Suc k"
  have o: "js_or p ts = js_or q ts" using agreeD [OF or_agree [OF assms]] l by simp
  show "js_conditional p ts = js_conditional q ts"
  proof (cases "js_or p ts")
    case None
    then show ?thesis using o by (simp add: js_conditional_def)
  next
    case (Some er)
    obtain e r where er: "er = (e, r)" by (cases er)
    have r: "length r < length ts" using shrinksD [OF or_shrinks [OF assms(2)]] Some er by simp
    have 1: "r = t # r1 \<Longrightarrow> p r1 = q r1" for t r1 using agreeD [OF assms(1)] r l by simp
    have 2: "r = t # r1 \<Longrightarrow> p r1 = Some (e1, u # r2) \<Longrightarrow> p r2 = q r2" for t r1 e1 u r2
      using agreeD [OF assms(1), of r2] shrinksD [OF assms(2), of r1 e1 "u # r2"] r l by simp
    show ?thesis unfolding js_conditional_def o [symmetric] Some er using 1 2
      by (auto split: list.splits token.splits option.splits)
  qed
qed

lemma js_expr_enough: "length ts < n \<Longrightarrow> js_expr (n + m) ts = js_expr n ts"
proof -
  have a: "agree n (js_expr n) (js_expr (Suc n))" for n
  proof (induction n)
    case (Suc n)
    have "js_expr (Suc k) = js_conditional (js_expr k)" for k by (rule ext) simp
    then show ?case using conditional_agree [OF Suc expr_shrinks] by metis
  qed (simp add: agree_def)
  assume l: "length ts < n"
  show "js_expr (n + m) ts = js_expr n ts"
  proof (induction m)
    case (Suc m)
    have "js_expr (n + m) ts = js_expr (Suc (n + m)) ts" using l by (intro agreeD [OF a]) simp
    then show ?case using Suc by (simp only: add_Suc_right)
  qed simp
qed

end
