(* ===== verification/Estimator.thy ===== *)
theory Estimator
  imports Js_Expr Tier_Expr
begin

text \<open>
  The cost estimate: \<open>evalExprLocally\<close> and \<open>exprUsesExtraVars\<close> of \<open>features/pricing/lib/tier-expr.ts\<close>, and
  the state of \<open>CostEstimator\<close> of \<open>features/system-settings/models/tiered-pricing-editor.tsx\<close>. The code
  makes a function of the price with \<open>new Function\<close>. Its result is that of \<open>Js_Expr\<close> for the prices in
  the fragment; for others it is the parameter \<open>fn\<close>, which gives the message of the exception, or the
  number (\<open>None\<close> is \<open>NaN\<close>) with the label of the last call of \<open>tier\<close>.
\<close>

text \<open>Pairs of \<open>var\<close> and \<open>stateKey\<close>\<close>

definition ESTIMATOR_VARS :: "(string \<times> string) list" where
  "ESTIMATOR_VARS =
     [(''cr'', ''cacheReadTokens''), (''cc'', ''cacheCreateTokens''), (''cc1h'', ''cacheCreate1hTokens''),
      (''img'', ''imageTokens''), (''img_o'', ''imageOutputTokens''), (''ai'', ''audioInputTokens''),
      (''ao'', ''audioOutputTokens'')]"

type_synonym ExtraTokenValues = "(string \<times> number) list"

record EvalResult =
  er_cost :: number
  er_matchedTier :: string
  er_error :: "string option"

definition extra_value :: "ExtraTokenValues \<Rightarrow> string \<Rightarrow> number" where
  "extra_value extraTokenValues key = nullish (map_of extraTokenValues key) 0"

text \<open>The numbers of \<open>env\<close>\<close>

definition estimator_env :: "number \<Rightarrow> number \<Rightarrow> ExtraTokenValues \<Rightarrow> (string \<times> number) list" where
  "estimator_env promptTokens completionTokens extraTokenValues =
     [(''p'', promptTokens), (''c'', completionTokens),
      (''len'', promptTokens + extra_value extraTokenValues ''cacheReadTokens'' +
         extra_value extraTokenValues ''cacheCreateTokens'' + extra_value extraTokenValues ''cacheCreate1hTokens'')] @
     map (\<lambda>(v, key). (v, extra_value extraTokenValues key)) ESTIMATOR_VARS"

definition as_num :: "jval \<Rightarrow> number option" where
  "as_num v = (case v of VNum x \<Rightarrow> Some x | _ \<Rightarrow> None)"

text \<open>The functions of \<open>env\<close>; the state is \<open>matchedTier\<close>.\<close>

definition estimator_call :: "string \<Rightarrow> jval list \<Rightarrow> string \<Rightarrow> (jval \<times> string) option" where
  "estimator_call f vs matchedTier =
     (if f = ''tier''
      then (case vs of [VStr name, v] \<Rightarrow> Some (v, name) | _ \<Rightarrow> None)
      else if vs = [] \<or> None \<in> set (map as_num vs) then None
      else let xs = map (\<lambda>v. nullish (as_num v) 0) vs
           in if f = ''max'' then Some (VNum (foldl max (hd xs) (tl xs)), matchedTier)
              else if f = ''min'' then Some (VNum (foldl min (hd xs) (tl xs)), matchedTier)
              else if f = ''abs'' then Some (VNum \<bar>hd xs\<bar>, matchedTier)
              else if f = ''ceil'' then Some (VNum (of_int \<lceil>hd xs\<rceil>), matchedTier)
              else if f = ''floor'' then Some (VNum (of_int \<lfloor>hd xs\<rfloor>), matchedTier)
              else None)"

text \<open>The body \<open>"use strict"; return (price);\<close> in the fragment\<close>

definition run_price :: "string \<Rightarrow> (string \<times> number) list \<Rightarrow> (number \<times> string) option" where
  "run_price exprStr env =
     Option.bind (js_parse (''('' @ exprStr @ '')'')) (\<lambda>e.
     Option.bind (js_eval (map_of env) estimator_call e []) (\<lambda>(v, matchedTier).
     case v of
       VNum x \<Rightarrow> Some (x, matchedTier)
     | VBool b \<Rightarrow> Some (of_bool b, matchedTier)
     | VStr s \<Rightarrow> None))"

type_synonym price_function = "string \<Rightarrow> (string \<times> number) list \<Rightarrow> string + number option \<times> string"

definition evalExprLocally ::
  "price_function \<Rightarrow> string \<Rightarrow> number \<Rightarrow> number \<Rightarrow> ExtraTokenValues \<Rightarrow> EvalResult" where
  "evalExprLocally fn exprStr promptTokens completionTokens extraTokenValues =
     (if trim exprStr = [] then \<lparr>er_cost = 0, er_matchedTier = [], er_error = None\<rparr>
      else let env = estimator_env promptTokens completionTokens extraTokenValues
           in case run_price exprStr env of
                Some (cost, matchedTier) \<Rightarrow> \<lparr>er_cost = cost, er_matchedTier = matchedTier, er_error = None\<rparr>
              | None \<Rightarrow>
                  (case fn exprStr env of
                     Inl message \<Rightarrow> \<lparr>er_cost = 0, er_matchedTier = [], er_error = Some message\<rparr>
                   | Inr (cost, matchedTier) \<Rightarrow>
                       \<lparr>er_cost = nullish cost 0, er_matchedTier = matchedTier, er_error = None\<rparr>))"

definition exprUsesExtraVars :: "string \<Rightarrow> bool" where
  "exprUsesExtraVars exprStr \<longleftrightarrow>
     exprStr \<noteq> [] \<and> rtest (rseq [RWord, RGroup 1 (alts (map fst ESTIMATOR_VARS)), RWord]) exprStr"

section \<open>The component\<close>

record CostEstimator =
  ce_promptTokens :: number
  ce_completionTokens :: number
  ce_extras :: ExtraTokenValues

definition openEstimator :: CostEstimator where
  "openEstimator = \<lparr>ce_promptTokens = 0, ce_completionTokens = 0, ce_extras = map (\<lambda>(v, key). (key, 0)) ESTIMATOR_VARS\<rparr>"

definition setPromptTokens :: "number \<Rightarrow> CostEstimator \<Rightarrow> CostEstimator" where
  "setPromptTokens v s = s\<lparr>ce_promptTokens := v\<rparr>"

definition setCompletionTokens :: "number \<Rightarrow> CostEstimator \<Rightarrow> CostEstimator" where
  "setCompletionTokens v s = s\<lparr>ce_completionTokens := v\<rparr>"

text \<open>\<open>s.replace(pattern, replacement)\<close> for texts: the first occurrence\<close>

fun replace_first :: "string \<Rightarrow> string \<Rightarrow> string \<Rightarrow> string" where
  "replace_first pattern replacement [] = (if pattern = [] then replacement else [])"
| "replace_first pattern replacement (c # s) =
     (if prefix pattern (c # s) then replacement @ drop (length pattern) (c # s)
      else c # replace_first pattern replacement s)"

definition tokens_key :: "BillingVar \<Rightarrow> string" where
  "tokens_key variable = replace_first ''Price'' ''Tokens'' (nullish (bv_field variable) [])"

definition setExtra :: "BillingVar \<Rightarrow> number \<Rightarrow> CostEstimator \<Rightarrow> CostEstimator" where
  "setExtra variable v s = s\<lparr>ce_extras := obj_set (tokens_key variable) v (ce_extras s)\<rparr>"

definition estimate :: "price_function \<Rightarrow> string \<Rightarrow> CostEstimator \<Rightarrow> EvalResult" where
  "estimate fn effectiveExpr s = evalExprLocally fn effectiveExpr (ce_promptTokens s) (ce_completionTokens s) (ce_extras s)"

end
