(* ===== verification/Estimator_Laws.thy ===== *)
theory Estimator_Laws
  imports Estimator Tier_Round_Trip
begin

text \<open>
  What the cost estimate shows for a price of the visual editor: the price is read as tokens, then as
  an expression whose value is the cost of the first tier that applies.
\<close>

section \<open>The expression of a configuration\<close>

definition num_toks :: "number \<Rightarrow> token list" where
  "num_toks x = (if x < 0 then [TOp ''-'', TNum (- x)] else [TNum x])"

definition num_expr :: "number \<Rightarrow> jexpr" where
  "num_expr x = (if x < 0 then JNeg (JNumber (- x)) else JNumber x)"

definition cond_number :: "TierConditionInput \<Rightarrow> number" where
  "cond_number c = (case ti_value c of NumberValue x \<Rightarrow> x | TextValue s \<Rightarrow> 0)"

definition cond_toks :: "TierConditionInput \<Rightarrow> token list" where
  "cond_toks c = [TId (ti_var c), TOp (ti_op c), TNum (cond_number c)]"

definition cond_expr :: "TierConditionInput \<Rightarrow> jexpr" where
  "cond_expr c = JBin (ti_op c) (JVar (ti_var c)) (JNumber (cond_number c))"

definition term_toks :: "string \<times> number \<Rightarrow> token list" where
  "term_toks t = TId (fst t) # TOp ''*'' # num_toks (snd t)"

definition term_expr :: "string \<times> number \<Rightarrow> jexpr" where
  "term_expr t = JBin ''*'' (JVar (fst t)) (num_expr (snd t))"

text \<open>Items joined by one operator\<close>

definition join_toks :: "string \<Rightarrow> ('a \<Rightarrow> token list) \<Rightarrow> 'a list \<Rightarrow> token list" where
  "join_toks f toks xs = concat (map (\<lambda>x. TOp f # toks x) xs)"

definition fold_expr :: "string \<Rightarrow> ('a \<Rightarrow> jexpr) \<Rightarrow> jexpr \<Rightarrow> 'a list \<Rightarrow> jexpr" where
  "fold_expr f ex e xs = foldl (\<lambda>a x. JBin f a (ex x)) e xs"

definition cost_terms :: "VisualTier \<Rightarrow> (string \<times> number) list" where
  "cost_terms tier = (''p'', vt_input_unit_cost tier) # (''c'', vt_output_unit_cost tier) #
     filter (\<lambda>t. snd t \<noteq> 0) (map snd (tier_costs 0 tier))"

definition body_toks :: "VisualTier \<Rightarrow> token list" where
  "body_toks tier = term_toks (hd (cost_terms tier)) @ join_toks ''+'' term_toks (tl (cost_terms tier))"

definition body_expr :: "VisualTier \<Rightarrow> jexpr" where
  "body_expr tier = fold_expr ''+'' term_expr (term_expr (hd (cost_terms tier))) (tl (cost_terms tier))"

definition call_toks :: "VisualTier \<Rightarrow> token list" where
  "call_toks tier = [TId ''tier'', TOp ''('', TStr (vt_label tier), TOp '',''] @ body_toks tier @ [TOp '')'']"

definition call_expr :: "VisualTier \<Rightarrow> jexpr" where
  "call_expr tier = JCall ''tier'' [JString (vt_label tier), body_expr tier]"

definition guard_toks :: "TierConditionInput list \<Rightarrow> token list" where
  "guard_toks cs = cond_toks (hd cs) @ join_toks ''&&'' cond_toks (tl cs)"

definition guard_expr :: "TierConditionInput list \<Rightarrow> jexpr" where
  "guard_expr cs = fold_expr ''&&'' cond_expr (cond_expr (hd cs)) (tl cs)"

definition zero_toks :: "token list" where
  "zero_toks = [TId ''p'', TOp ''*'', TNum 0, TOp ''+'', TId ''c'', TOp ''*'', TNum 0]"

definition zero_expr :: jexpr where
  "zero_expr = JBin ''+'' (JBin ''*'' (JVar ''p'') (JNumber 0)) (JBin ''*'' (JVar ''c'') (JNumber 0))"

fun tiers_toks :: "VisualTier list \<Rightarrow> token list" where
  "tiers_toks [] = zero_toks"
| "tiers_toks (tier # ts) =
     (if vt_conditions tier = [] then call_toks tier
      else guard_toks (vt_conditions tier) @ [TOp ''?''] @ call_toks tier @ [TOp '':''] @ tiers_toks ts)"

fun tiers_expr :: "VisualTier list \<Rightarrow> jexpr" where
  "tiers_expr [] = zero_expr"
| "tiers_expr (tier # ts) =
     (if vt_conditions tier = [] then call_expr tier
      else JIf (guard_expr (vt_conditions tier)) (call_expr tier) (tiers_expr ts))"

section \<open>The value of the expression\<close>

definition cond_holds :: "(string \<Rightarrow> number) \<Rightarrow> TierConditionInput \<Rightarrow> bool" where
  "cond_holds val c =
     (let x = val (ti_var c); y = cond_number c
      in if ti_op c = ''<'' then x < y else if ti_op c = ''<='' then x \<le> y
         else if ti_op c = ''>'' then x > y else x \<ge> y)"

definition tier_applies :: "(string \<Rightarrow> number) \<Rightarrow> VisualTier \<Rightarrow> bool" where
  "tier_applies val tier = list_all (cond_holds val) (vt_conditions tier)"

definition tier_price :: "(string \<Rightarrow> number) \<Rightarrow> VisualTier \<Rightarrow> number" where
  "tier_price val tier = val ''p'' * vt_input_unit_cost tier + val ''c'' * vt_output_unit_cost tier +
     (\<Sum>(field, v)\<leftarrow>BILLING_CACHE_VAR_MAP. val v * nullish (tier_field tier field) 0)"

definition amount :: "number \<Rightarrow> number \<Rightarrow> ExtraTokenValues \<Rightarrow> string \<Rightarrow> number" where
  "amount promptTokens completionTokens extras v =
     nullish (map_of (estimator_env promptTokens completionTokens extras) v) 0"

section \<open>Parsing\<close>

definition ends :: "string list \<Rightarrow> token list \<Rightarrow> bool" where
  "ends fs r = (case r of [] \<Rightarrow> True | TOp f # _ \<Rightarrow> f \<notin> set fs | _ \<Rightarrow> False)"

abbreviation MUL :: "string list" where
  "MUL \<equiv> [''*'', ''/'', ''('']"

abbreviation ADD :: "string list" where
  "ADD \<equiv> MUL @ [''+'', ''-'']"

abbreviation REL :: "string list" where
  "REL \<equiv> ADD @ [''<'', ''<='', ''>'', ''>='']"

abbreviation ANYOP :: "string list" where
  "ANYOP \<equiv> REL @ [''&&'', ''||'', ''?'']"

lemma ends_simps [simp]: "ends fs []" "ends fs (TOp f # r) \<longleftrightarrow> f \<notin> set fs"
  by (simp_all add: ends_def)

lemma ends_mono: "ends fs r \<Longrightarrow> set gs \<subseteq> set fs \<Longrightarrow> ends gs r"
  by (auto simp: ends_def split: list.splits token.splits)

lemma loop_end: "ends ops r \<Longrightarrow> chain_loop ops sub e r = Some (e, r)"
  by (subst chain_loop.simps) (auto simp: ends_def split: list.splits token.splits)

lemma chain_end: "sub ts = Some (e, r) \<Longrightarrow> ends ops r \<Longrightarrow> chain ops sub ts = Some (e, r)"
  by (simp add: chain_def loop_end)

lemma loop_step:
  assumes "f \<in> set ops" "sub (toks @ r) = Some (e', r)"
  shows "chain_loop ops sub e (TOp f # toks @ r) = chain_loop ops sub (JBin f e e') r"
  unfolding chain_loop.simps [of ops sub e "TOp f # toks @ r"] using assms by simp

lemma loop_items:
  assumes "\<And>x r. x \<in> set xs \<Longrightarrow> ends fs r \<Longrightarrow> sub (toks x @ r) = Some (ex x, r)"
    "f \<in> set ops" "f \<notin> set fs" "ends (ops @ fs) r"
  shows "chain_loop ops sub e (join_toks f toks xs @ r) = Some (fold_expr f ex e xs, r)"
  using assms(1)
proof (induction xs arbitrary: e)
  case Nil
  then show ?case using ends_mono [OF assms(4), of ops] by (simp add: join_toks_def fold_expr_def loop_end)
next
  case (Cons x xs)
  have "ends fs (join_toks f toks xs @ r)"
    using assms(3) ends_mono [OF assms(4), of fs] by (cases xs) (simp_all add: join_toks_def)
  then have "sub (toks x @ join_toks f toks xs @ r) = Some (ex x, join_toks f toks xs @ r)" by (intro Cons.prems) simp_all
  then have "chain_loop ops sub e (TOp f # toks x @ join_toks f toks xs @ r) =
      chain_loop ops sub (JBin f e (ex x)) (join_toks f toks xs @ r)"
    by (rule loop_step [OF assms(2)])
  also have "\<dots> = Some (fold_expr f ex (JBin f e (ex x)) xs, r)" by (rule Cons.IH) (simp add: Cons.prems)
  finally show ?case by (simp add: join_toks_def fold_expr_def)
qed

lemma chain_items:
  assumes "\<And>x r. x \<in> set xs \<Longrightarrow> ends fs r \<Longrightarrow> sub (toks x @ r) = Some (ex x, r)"
    "f \<in> set ops" "f \<notin> set fs" "ends (ops @ fs) r" "xs \<noteq> []"
  shows "chain ops sub (toks (hd xs) @ join_toks f toks (tl xs) @ r) = Some (fold_expr f ex (ex (hd xs)) (tl xs), r)"
proof -
  have "ends fs (join_toks f toks (tl xs) @ r)"
    using assms(3) ends_mono [OF assms(4), of fs] by (cases "tl xs") (simp_all add: join_toks_def)
  then have "sub (toks (hd xs) @ join_toks f toks (tl xs) @ r) = Some (ex (hd xs), join_toks f toks (tl xs) @ r)"
    using assms(5) by (intro assms(1)) simp_all
  moreover have "chain_loop ops sub (ex (hd xs)) (join_toks f toks (tl xs) @ r) = Some (fold_expr f ex (ex (hd xs)) (tl xs), r)"
    using assms(2-5) by (intro loop_items [of _ fs]) (auto intro: assms(1) list.set_sel(2))
  ultimately show ?thesis by (simp add: chain_def)
qed

lemma unary_simps [simp]:
  "js_unary p (TNum x # r) = Some (JNumber x, r)"
  "js_unary p (TStr s # r) = Some (JString s, r)"
  "js_unary p (TOp ''-'' # TNum x # r) = Some (JNeg (JNumber x), r)"
  by (simp_all add: js_unary_def js_primary_def)

lemma unary_num: "js_unary p (num_toks x @ r) = Some (num_expr x, r)"
  by (simp add: num_toks_def num_expr_def)

lemma unary_var: "ends [''(''] r \<Longrightarrow> js_unary p (TId v # r) = Some (JVar v, r)"
  by (auto simp: js_unary_def js_primary_def ends_def split: list.splits token.splits)

abbreviation products :: "js_parser \<Rightarrow> js_parser" where
  "products p \<equiv> chain [''*'', ''/''] (js_unary p)"

abbreviation additions :: "js_parser \<Rightarrow> js_parser" where
  "additions p \<equiv> chain [''+'', ''-''] (products p)"

abbreviation comparisons :: "js_parser \<Rightarrow> js_parser" where
  "comparisons p \<equiv> chain [''<'', ''<='', ''>'', ''>=''] (additions p)"

lemma term_parse: "ends MUL r \<Longrightarrow> products p (term_toks t @ r) = Some (term_expr t, r)"
  unfolding chain_def term_toks_def append_Cons using ends_mono [of MUL r "[''*'', ''/'']"]
  by (simp add: unary_var loop_step unary_num loop_end term_expr_def)

lemma body_parse:
  assumes "ends ADD r"
  shows "additions p (body_toks tier @ r) = Some (body_expr tier, r)"
proof -
  have "additions p (term_toks (hd (cost_terms tier)) @ join_toks ''+'' term_toks (tl (cost_terms tier)) @ r) =
    Some (fold_expr ''+'' term_expr (term_expr (hd (cost_terms tier))) (tl (cost_terms tier)), r)"
    by (rule chain_items [of _ MUL]) (use ends_mono [OF assms] in \<open>auto simp: term_parse cost_terms_def\<close>)
  then show ?thesis by (simp add: body_toks_def body_expr_def)
qed

lemma unary_additions:
  "js_unary p ts = Some (e, r) \<Longrightarrow> ends ADD r \<Longrightarrow> additions p ts = Some (e, r)"
  using ends_mono [of ADD r "[''+'', ''-'']"] ends_mono [of ADD r "[''*'', ''/'']"] by (simp add: chain_end)

lemma additions_or:
  assumes "additions p ts = Some (e, r)" "ends ANYOP r"
  shows "js_or p ts = Some (e, r)"
  unfolding js_or_def using ends_mono [OF assms(2)] by (intro chain_end assms(1)) auto

lemma or_conditional:
  "js_or p ts = Some (e, r) \<Longrightarrow> ends [''?''] r \<Longrightarrow> js_conditional p ts = Some (e, r)"
  by (auto simp: js_conditional_def ends_def split: list.splits token.splits)

lemma additions_conditional:
  "additions p ts = Some (e, r) \<Longrightarrow> ends ANYOP r \<Longrightarrow> js_conditional p ts = Some (e, r)"
  using additions_or [of p ts e r] ends_mono [of ANYOP r "[''?'']"] by (simp add: or_conditional)

lemma unary_conditional:
  "js_unary p ts = Some (e, r) \<Longrightarrow> ends ANYOP r \<Longrightarrow> js_conditional p ts = Some (e, r)"
  using unary_additions [of p ts e r] ends_mono [of ANYOP r ADD] by (simp add: additions_conditional)

lemma call_parse: "js_unary (js_expr (Suc n)) (call_toks tier @ r) = Some (call_expr tier, r)"
proof -
  let ?p = "js_expr (Suc n)"
  let ?body = "body_toks tier @ TOp '')'' # r"
  have 1: "?p (TStr l # TOp '','' # ts) = Some (JString l, TOp '','' # ts)" for l ts
    by (simp add: unary_conditional)
  have 2: "?p ?body = Some (body_expr tier, TOp '')'' # r)"
    using ends_mono [of _ _ ADD] by (simp add: additions_conditional body_parse)
  have 3: "js_args ?p ?body = Some ([body_expr tier], r)"
    unfolding js_args.simps [of ?p ?body] 2 by simp
  have "js_args ?p (TStr (vt_label tier) # TOp '','' # ?body) = Some ([JString (vt_label tier), body_expr tier], r)"
    unfolding js_args.simps [of ?p "TStr _ # _"] 1 using 3 by simp
  then show ?thesis by (simp add: call_toks_def call_expr_def js_unary_def js_primary_def del: js_expr.simps)
qed

lemma cond_parse:
  assumes "cond_ok c" "ends REL r"
  shows "comparisons p (cond_toks c @ r) = Some (cond_expr c, r)"
proof -
  have op: "ti_op c \<in> set [''<'', ''<='', ''>'', ''>='']" using assms(1) by (simp add: cond_ok_def)
  have "additions p (TId (ti_var c) # TOp (ti_op c) # ts) = Some (JVar (ti_var c), TOp (ti_op c) # ts)" for ts
    using op by (intro unary_additions unary_var) auto
  moreover have "additions p (TNum (cond_number c) # r) = Some (JNumber (cond_number c), r)"
    using ends_mono [OF assms(2)] by (intro unary_additions) simp_all
  ultimately show ?thesis
    unfolding chain_def [of "[''<'', ''<='', ''>'', ''>='']"] cond_toks_def
    using loop_step [OF op, of "additions p" "[TNum (cond_number c)]" r] ends_mono [OF assms(2)]
    by (simp add: loop_end cond_expr_def)
qed

lemma guard_parse:
  assumes "list_all cond_ok cs" "cs \<noteq> []"
  shows "js_or p (guard_toks cs @ TOp ''?'' # r) = Some (guard_expr cs, TOp ''?'' # r)"
proof -
  have "chain [''&&''] (comparisons p) (cond_toks (hd cs) @ join_toks ''&&'' cond_toks (tl cs) @ TOp ''?'' # r) =
    Some (fold_expr ''&&'' cond_expr (cond_expr (hd cs)) (tl cs), TOp ''?'' # r)"
    using assms by (intro chain_items [of _ REL]) (auto simp: cond_parse list_all_iff)
  then show ?thesis by (simp add: js_or_def guard_toks_def guard_expr_def chain_end)
qed

lemma zero_parse: "ends ANYOP r \<Longrightarrow> js_conditional p (zero_toks @ r) = Some (zero_expr, r)"
proof (rule additions_conditional)
  assume r: "ends ANYOP r"
  have "additions p (term_toks (hd [(''p'', 0), (''c'', 0)]) @ join_toks ''+'' term_toks (tl [(''p'', 0), (''c'', 0)]) @ r) =
    Some (fold_expr ''+'' term_expr (term_expr (hd [(''p'', 0), (''c'', 0)])) (tl [(''p'', 0), (''c'', 0)]), r)"
    using ends_mono [OF r] by (intro chain_items [of _ MUL]) (auto simp: term_parse)
  then show "additions p (zero_toks @ r) = Some (zero_expr, r)"
    by (simp add: zero_toks_def zero_expr_def term_toks_def term_expr_def join_toks_def fold_expr_def num_toks_def num_expr_def)
qed

lemma tiers_parse:
  assumes "list_all tier_ok ts" "length ts + 2 \<le> n" "ends ANYOP r"
  shows "js_expr n (tiers_toks ts @ r) = Some (tiers_expr ts, r)"
  using assms(1,2)
proof (induction ts arbitrary: n)
  case Nil
  then obtain m where "n = Suc m" by (cases n) simp_all
  then show ?case using zero_parse [OF assms(3)] by simp
next
  case (Cons tier ts)
  obtain m where n: "n = Suc (Suc (Suc m))" using Cons.prems(2) that [of "n - 3"] by simp
  have call: "ends ANYOP u \<Longrightarrow> js_expr (Suc (Suc k)) (call_toks tier @ u) = Some (call_expr tier, u)" for u k
    unfolding js_expr.simps(2) [of "Suc k"] by (intro unary_conditional call_parse)
  show ?case
  proof (cases "vt_conditions tier = []")
    case True
    then show ?thesis using call [OF assms(3)] by (simp add: n del: js_expr.simps)
  next
    case False
    have g: "js_or (js_expr (Suc (Suc m))) (guard_toks (vt_conditions tier) @ TOp ''?'' # u) = Some (guard_expr (vt_conditions tier), TOp ''?'' # u)" for u
      using Cons.prems(1) False by (intro guard_parse) (simp_all add: tier_ok_def)
    have e: "js_expr (Suc (Suc m)) (tiers_toks ts @ r) = Some (tiers_expr ts, r)"
      using Cons.prems n by (intro Cons.IH) simp_all
    have "js_expr (Suc (Suc m)) (call_toks tier @ TOp '':'' # tiers_toks ts @ r) = Some (call_expr tier, TOp '':'' # tiers_toks ts @ r)"
      by (rule call) simp
    then show ?thesis using False e g
      unfolding n js_expr.simps(2) [of "Suc (Suc m)"] js_conditional_def by (simp del: js_expr.simps)
  qed
qed

section \<open>Reading the text\<close>

text \<open>In a printed price, a space, a parenthesis or the end follows every part.\<close>

definition part_end :: "string \<Rightarrow> bool" where
  "part_end r \<longleftrightarrow> r = [] \<or> hd r = CHR '' '' \<or> hd r = CHR '')''"

definition reads :: "string \<Rightarrow> token list \<Rightarrow> bool" where
  "reads w ts \<longleftrightarrow> (\<forall>r. part_end r \<longrightarrow> js_tokens (w @ r) = map_option ((@) ts) (js_tokens r))"

lemma readsD: "reads w ts \<Longrightarrow> part_end r \<Longrightarrow> js_tokens (w @ r) = map_option ((@) ts) (js_tokens r)"
  by (simp add: reads_def)

lemma part_end_space [simp]: "part_end (CHR '' '' # r)" "part_end (CHR '')'' # r)" "part_end []"
  by (simp_all add: part_end_def)

lemma map_option_append: "map_option ((@) a) (map_option ((@) b) x) = map_option ((@) (a @ b)) x"
  by (cases x) simp_all

lemma append_single [simp]: "(@) [t] = Cons t"
  by (rule ext) simp

lemma reads_then:
  assumes "reads w ts" "reads w' ts'"
  shows "reads (w @ '' '' @ w') (ts @ ts')"
  unfolding reads_def
proof (intro allI impI)
  fix r :: string
  assume "part_end r"
  then have 1: "js_tokens (w' @ r) = map_option ((@) ts') (js_tokens r)" by (rule readsD [OF assms(2)])
  have 2: "js_tokens (w @ CHR '' '' # w' @ r) = map_option ((@) ts) (js_tokens (CHR '' '' # w' @ r))"
    by (rule readsD [OF assms(1)]) simp
  show "js_tokens ((w @ '' '' @ w') @ r) = map_option ((@) (ts @ ts')) (js_tokens r)"
    using 2 by (simp only: append.simps append_assoc tokens_space space_simps 1 map_option_append)
qed

lemma part_end_facts:
  assumes "part_end r"
  shows "\<not> word_at r" "number_stop r" "\<not> prefix ''.'' r" "r = [] \<or> \<not> sticky (hd r)"
proof -
  have "r = [] \<or> (\<exists>u. r = CHR '' '' # u) \<or> (\<exists>u. r = CHR '')'' # u)"
    using assms by (cases r) (auto simp: part_end_def)
  then show "\<not> word_at r" "number_stop r" "\<not> prefix ''.'' r" "r = [] \<or> \<not> sticky (hd r)"
    by (elim disjE exE; simp add: word_at_def word_char_def number_stop_def is_digit_def is_e_def sticky_def)+
qed

lemma reads_operator: "f \<in> set OPERATORS \<Longrightarrow> reads f [TOp f]"
  unfolding reads_def using part_end_facts(4) by (auto simp: tokens_operator)

lemma reads_colon: "reads '':'' [TOp '':'']"
  unfolding reads_def by (simp add: tokens_paren)

lemma reads_name:
  "name_start (hd w) \<Longrightarrow> list_all word_char w \<Longrightarrow> w \<noteq> [] \<Longrightarrow> w \<notin> set RESERVED \<Longrightarrow> reads w [TId w]"
  unfolding reads_def using part_end_facts(1) by (auto simp: tokens_name)

lemma unsigned_text:
  assumes "printable_number x" "number_stop r"
  obtains w where "number_to_string x = (if x < 0 then ''-'' else []) @ w" "w \<noteq> []" "is_digit (hd w)"
    "p_unsigned (w @ r) = Some (\<bar>x\<bar>, r)"
proof -
  from assms(1) obtain k where k: "decimals x = Some k" "plain_range x"
    by (auto simp: printable_number_def)
  let ?m = "nat \<lfloor>\<bar>x\<bar> * 10 ^ k\<rfloor>"
  have m: "(of_nat ?m :: number) / 10 ^ k = \<bar>x\<bar>"
    by (simp only: abs_scaled_nat [OF decimals_Some [OF k(1)]]) simp
  have p: "p_unsigned (plain_digits ?m k @ r) = Some (\<bar>x\<bar>, r)"
    using p_unsigned_plain_digits [OF assms(2), of ?m k] by (simp only: m)
  have "is_digit (hd (nat_digits n))" for n using nat_digits_digits [of "hd (nat_digits n)" n] by simp
  then have "is_digit (hd (plain_digits ?m k))" by (simp add: plain_digits_def hd_append)
  then show thesis
    using that [of "plain_digits ?m k"] p k plain_digits_head [of ?m k] by (simp add: number_to_string_def Let_def)
qed

lemma reads_number:
  assumes "printable_number x"
  shows "reads (number_to_string x) (num_toks x)"
  unfolding reads_def
proof (intro allI impI)
  fix r :: string
  assume r: "part_end r"
  obtain w where w: "number_to_string x = (if x < 0 then ''-'' else []) @ w" "w \<noteq> []" "is_digit (hd w)"
    "p_unsigned (w @ r) = Some (\<bar>x\<bar>, r)" using unsigned_text [OF assms part_end_facts(2) [OF r]] .
  have n: "js_tokens (w @ r) = map_option (Cons (TNum \<bar>x\<bar>)) (js_tokens r)"
    using w part_end_facts [OF r] by (intro tokens_unsigned)
  have "\<not> sticky c" if "is_digit c" for c using that by (auto simp: sticky_def is_digit_def)
  then have "js_tokens (''-'' @ w @ r) = map_option (Cons (TOp ''-'')) (js_tokens (w @ r))"
    using w(2,3) by (intro tokens_operator) (simp_all add: OPERATORS_def)
  then show "js_tokens (number_to_string x @ r) = map_option ((@) (num_toks x)) (js_tokens r)"
    using n w(1) by (cases "js_tokens r") (simp_all add: num_toks_def)
qed

lemma reads_var:
  assumes "v \<in> {''p'', ''c'', ''len'', ''cr'', ''cc'', ''cc1h'', ''img'', ''img_o'', ''ai'', ''ao''}"
  shows "reads v [TId v]"
  by (rule reads_name)
    (use assms in \<open>elim insertE emptyE; simp add: name_start_def word_char_def is_digit_def RESERVED_def\<close>)+

lemma reads_cond:
  assumes "cond_ok c"
  shows "reads (cond_text c) (cond_toks c)"
proof -
  obtain x where x: "ti_value c = NumberValue x" "0 \<le> x" "printable_number x"
    using assms by (auto simp: cond_ok_def split: ConditionValue.splits)
  have v: "reads (ti_var c) [TId (ti_var c)]" using assms by (intro reads_var) (auto simp: cond_ok_def)
  have f: "reads (ti_op c) [TOp (ti_op c)]" using assms by (intro reads_operator) (auto simp: cond_ok_def OPERATORS_def)
  show ?thesis
    using reads_then [OF v reads_then [OF f reads_number [OF x(3)]]] x
    by (simp add: cond_text_def cond_toks_def cond_number_def value_text_def num_toks_def)
qed

lemma reads_items:
  assumes "reads w ts" "\<And>x. x \<in> set xs \<Longrightarrow> reads (text_of x) (toks x)" "f \<in> set OPERATORS"
  shows "reads (w @ concat (map (\<lambda>x. '' '' @ f @ '' '' @ text_of x) xs)) (ts @ join_toks f toks xs)"
  using assms(1,2)
proof (induction xs arbitrary: w ts)
  case (Cons x xs)
  have "reads (w @ '' '' @ f @ '' '' @ text_of x) (ts @ [TOp f] @ toks x)"
    using Cons.prems by (intro reads_then reads_operator assms(3)) simp_all
  then have "reads ((w @ '' '' @ f @ '' '' @ text_of x) @ concat (map (\<lambda>x. '' '' @ f @ '' '' @ text_of x) xs))
      ((ts @ [TOp f] @ toks x) @ join_toks f toks xs)"
    by (intro Cons.IH) (simp_all add: Cons.prems)
  then show ?case by (simp add: join_toks_def)
qed (simp add: join_toks_def)

lemma reads_guard:
  assumes "list_all cond_ok cs" "cs \<noteq> []"
  shows "reads (conds_text cs) (guard_toks cs)"
proof -
  obtain c cs' where c: "cs = c # cs'" using assms(2) by (cases cs) simp_all
  have "reads (cond_text c @ concat (map (\<lambda>c. '' '' @ ''&&'' @ '' '' @ cond_text c) cs')) (cond_toks c @ join_toks ''&&'' cond_toks cs')"
    using assms(1) by (intro reads_items reads_cond) (auto simp: c list_all_iff OPERATORS_def)
  then show ?thesis by (simp add: c conds_text_Cons more_text_def guard_toks_def)
qed

definition term_text :: "string \<times> number \<Rightarrow> string" where
  "term_text t = fst t @ '' * '' @ number_to_string (snd t)"

lemma cost_text_terms:
  "cost_text ts = concat (map (\<lambda>t. '' '' @ ''+'' @ '' '' @ term_text t) (filter (\<lambda>t. snd t \<noteq> 0) (map snd ts)))"
  by (induction ts rule: cost_text.induct) (simp_all add: term_text_def)

lemma body_text_terms:
  "buildTierBodyExpr tier = term_text (hd (cost_terms tier)) @
     concat (map (\<lambda>t. '' '' @ ''+'' @ '' '' @ term_text t) (tl (cost_terms tier)))"
  unfolding body_text [of tier 0] cost_text_terms by (simp add: cost_terms_def term_text_def)

lemma terms_ok:
  assumes "costs_printable tier" "t \<in> set (cost_terms tier)"
  shows "reads (term_text t) (term_toks t)"
proof -
  have t: "t \<in> set ((''p'', vt_input_unit_cost tier) # (''c'', vt_output_unit_cost tier) # map snd (tier_costs 0 tier))"
    using assms(2) by (auto simp: cost_terms_def)
  have "fst t \<in> {''p'', ''c'', ''len'', ''cr'', ''cc'', ''cc1h'', ''img'', ''img_o'', ''ai'', ''ao''}" "printable_number (snd t)"
    using t assms(1) by (auto simp: tier_costs_def cache_vars costs_printable_def COST_FIELDS_def tier_field_def)
  then have "reads (fst t @ '' '' @ ''*'' @ '' '' @ number_to_string (snd t)) ([TId (fst t)] @ [TOp ''*''] @ num_toks (snd t))"
    by (intro reads_then reads_var reads_operator reads_number) (simp_all add: OPERATORS_def)
  then show ?thesis by (simp add: term_text_def term_toks_def)
qed

lemma reads_body:
  assumes "costs_printable tier"
  shows "reads (buildTierBodyExpr tier) (body_toks tier)"
proof -
  have ne: "cost_terms tier \<noteq> []" by (simp add: cost_terms_def)
  show ?thesis
    unfolding body_text_terms body_toks_def using terms_ok [OF assms] list.set_sel [OF ne]
    by (intro reads_items) (auto simp: OPERATORS_def)
qed

lemma reads_call:
  assumes "costs_printable tier" "list_all verbatim_char (vt_label tier)"
  shows "reads (tier_call (vt_label tier) tier) (call_toks tier)"
  unfolding reads_def
proof (intro allI impI)
  fix r :: string
  assume "part_end r"
  let ?l = "vt_label tier"
  have 1: "js_tokens (buildTierBodyExpr tier @ CHR '')'' # r) = map_option ((@) (body_toks tier @ [TOp '')''])) (js_tokens r)"
    using readsD [OF reads_body [OF assms(1)], of "CHR '')'' # r"] by (cases "js_tokens r") (simp_all add: tokens_paren)
  have 2: "js_tokens (quote_c # ?l @ quote_c # '', '' @ u) = map_option ((@) [TStr ?l, TOp '','']) (js_tokens u)" for u
    by (cases "js_tokens u") (simp_all add: tokens_string [OF assms(2)] tokens_paren tokens_space)
  have 3: "js_tokens (''tier'' @ CHR ''('' # u) = map_option ((@) [TId ''tier'', TOp ''('']) (js_tokens u)" for u
    by (cases "js_tokens u", simp_all only: tokens_paren)
      (subst tokens_name; simp add: name_start_def word_char_def is_digit_def RESERVED_def word_at_def tokens_paren)+
  show "js_tokens (tier_call ?l tier @ r) = map_option ((@) (call_toks tier)) (js_tokens r)"
    using 3 [of "quote_c # ?l @ quote_c # '', '' @ buildTierBodyExpr tier @ CHR '')'' # r"]
      2 [of "buildTierBodyExpr tier @ CHR '')'' # r"] 1
    by (cases "js_tokens r") (simp_all add: tier_call_def call_toks_def)
qed

fun tiers_text :: "VisualTier list \<Rightarrow> string" where
  "tiers_text [] = ZERO_EXPR"
| "tiers_text (tier # ts) =
     (if vt_conditions tier = [] then tier_call (vt_label tier) tier
      else conds_text (vt_conditions tier) @ '' ? '' @ tier_call (vt_label tier) tier @ '' : '' @ tiers_text ts)"

lemma joined_text:
  assumes "list_all (\<lambda>t. vt_conditions t \<noteq> []) us" "vt_conditions tier = []"
  shows "join '' : '' (map tier_text (us @ [tier])) = tiers_text (us @ [tier])"
  using assms(1)
proof (induction us)
  case Nil
  then show ?case using assms(2) by (simp add: tier_text_def)
next
  case (Cons u us)
  have "join '' : '' (map tier_text ((u # us) @ [tier])) = tier_text u @ '' : '' @ join '' : '' (map tier_text (us @ [tier]))"
    by (simp add: join_Cons)
  also have "\<dots> = tier_text u @ '' : '' @ tiers_text (us @ [tier])" using Cons by simp
  finally show ?case using Cons.prems by (simp add: tier_text_def [of u])
qed

lemma config_tiers_text:
  assumes "tiers_ok ts"
  shows "generateExprFromVisualConfig (Some \<lparr>vc_tiers = ts\<rparr>) = tiers_text ts"
proof (cases "length ts = 1")
  case True
  then obtain tier where "ts = [tier]" by (cases ts) simp_all
  then show ?thesis using config_text [OF assms] by (simp add: config_end_def tier_text_def)
next
  case False
  have ne: "ts \<noteq> []" using assms by (simp add: tiers_ok_def)
  then have "1 < length ts" using False by (cases ts) auto
  then have "join '' : '' (map tier_text (butlast ts @ [last ts])) = tiers_text (butlast ts @ [last ts])"
    using assms by (intro joined_text) (simp_all add: tiers_ok_def)
  then show ?thesis using config_text [OF assms] False ne by (simp add: config_end_def)
qed

lemma zero_string: "number_to_string 0 = ''0''"
proof -
  have u: "[0..<1100] = (0 :: nat) # [Suc 0..<1100]" by (rule upt_conv_Cons) simp
  have "decimals 0 = Some 0" unfolding decimals_def u find.simps by (simp add: is_integer_def)
  then show ?thesis by (simp add: number_to_string_def plain_range_def plain_digits_def nat_digits.simps)
qed

lemma reads_zero: "reads ZERO_EXPR zero_toks"
proof -
  have "printable_number 0" by (rule printable_decimal [of _ 0]) (simp_all add: is_integer_def plain_range_def)
  then have n: "reads (number_to_string 0) [TNum 0]" using reads_number [of 0] by (simp add: num_toks_def)
  have "reads (''p'' @ '' '' @ ''*'' @ '' '' @ ''0'' @ '' '' @ ''+'' @ '' '' @ ''c'' @ '' '' @ ''*'' @ '' '' @ ''0'')
      ([TId ''p''] @ [TOp ''*''] @ [TNum 0] @ [TOp ''+''] @ [TId ''c''] @ [TOp ''*''] @ [TNum 0])"
    by (intro reads_then reads_var reads_operator n [unfolded zero_string]) (simp_all add: OPERATORS_def)
  then show ?thesis by (simp add: ZERO_EXPR_def zero_toks_def)
qed

lemma reads_tiers:
  "list_all (\<lambda>t. tier_ok t \<and> list_all verbatim_char (vt_label t)) ts \<Longrightarrow> reads (tiers_text ts) (tiers_toks ts)"
proof (induction ts)
  case (Cons tier ts)
  then have call: "reads (tier_call (vt_label tier) tier) (call_toks tier)"
    by (intro reads_call) (simp_all add: tier_ok_def)
  show ?case
  proof (cases "vt_conditions tier = []")
    case False
    then have "reads (conds_text (vt_conditions tier)) (guard_toks (vt_conditions tier))"
      using Cons.prems by (intro reads_guard) (simp_all add: tier_ok_def)
    then have "reads (conds_text (vt_conditions tier) @ '' '' @ ''?'' @ '' '' @ tier_call (vt_label tier) tier @ '' '' @ '':'' @ '' '' @ tiers_text ts)
        (guard_toks (vt_conditions tier) @ [TOp ''?''] @ call_toks tier @ [TOp '':''] @ tiers_toks ts)"
      using Cons call by (intro reads_then reads_operator reads_colon) (simp_all add: OPERATORS_def)
    then show ?thesis using False by simp
  qed (use call in simp)
qed (simp add: reads_zero)

lemma tiers_js_parse:
  assumes "list_all (\<lambda>t. tier_ok t \<and> list_all verbatim_char (vt_label t)) ts"
  shows "js_parse (''('' @ tiers_text ts @ '')'') = Some (tiers_expr ts)"
proof -
  let ?toks = "tiers_toks ts"
  have "js_tokens (tiers_text ts @ '')'') = Some (?toks @ [TOp '')''])"
    using readsD [OF reads_tiers [OF assms], of "'')''"] by (simp add: tokens_paren tokens_Nil)
  then have t: "js_tokens (''('' @ tiers_text ts @ '')'') = Some (TOp ''('' # ?toks @ [TOp '')''])"
    by (simp add: tokens_paren)
  have "js_expr (length ?toks + 2 + length ts) (?toks @ [TOp '')'']) = Some (tiers_expr ts, [TOp '')''])"
    using assms by (intro tiers_parse) (auto simp: list_all_iff)
  then have "js_expr (Suc (Suc (length ?toks))) (?toks @ [TOp '')'']) = Some (tiers_expr ts, [TOp '')''])"
    using js_expr_enough [of "?toks @ [TOp '')'']" "length ?toks + 2" "length ts"] by simp
  then have "js_unary (js_expr (Suc (Suc (length ?toks)))) (TOp ''('' # ?toks @ [TOp '')'']) = Some (tiers_expr ts, [])"
    by (simp add: js_unary_def js_primary_def del: js_expr.simps)
  then have "js_conditional (js_expr (Suc (Suc (length ?toks)))) (TOp ''('' # ?toks @ [TOp '')'']) = Some (tiers_expr ts, [])"
    by (rule unary_conditional) simp
  then show ?thesis unfolding js_parse_def t
    by (simp add: js_expr.simps(2) [of "Suc (Suc (length ?toks))"] del: js_expr.simps)
qed

section \<open>The value\<close>

abbreviation price_vars :: "string set" where
  "price_vars \<equiv> {''p'', ''c'', ''len'', ''cr'', ''cc'', ''cc1h'', ''img'', ''img_o'', ''ai'', ''ao''}"

abbreviation eval_in :: "(string \<Rightarrow> number option) \<Rightarrow> jexpr \<Rightarrow> string \<Rightarrow> (jval \<times> string) option" where
  "eval_in env \<equiv> js_eval env estimator_call"

text \<open>The environment gives every variable of a price its number.\<close>

definition covers :: "(string \<Rightarrow> number option) \<Rightarrow> (string \<Rightarrow> number) \<Rightarrow> bool" where
  "covers env val \<longleftrightarrow> (\<forall>v\<in>price_vars. env v = Some (val v))"

lemma covers_estimator: "covers (map_of (estimator_env p c extras)) (amount p c extras)"
  by (simp add: covers_def amount_def estimator_env_def ESTIMATOR_VARS_def)

lemma eval_num: "eval_in env (num_expr x) s = Some (VNum x, s)"
  by (simp add: num_expr_def)

lemma eval_term:
  "covers env val \<Longrightarrow> v \<in> price_vars \<Longrightarrow> eval_in env (term_expr (v, x)) s = Some (VNum (val v * x), s)"
  unfolding covers_def by (drule (1) bspec) (simp add: term_expr_def eval_num js_binop_def)

lemma eval_sum:
  assumes "covers env val" "fst ` set ts \<subseteq> price_vars" "eval_in env e s = Some (VNum y, s)"
  shows "eval_in env (fold_expr ''+'' term_expr e ts) s = Some (VNum (y + (\<Sum>(v, x)\<leftarrow>ts. val v * x)), s)"
  using assms(2,3)
proof (induction ts arbitrary: e y)
  case (Cons t ts)
  obtain v x where t: "t = (v, x)" by (cases t)
  have "eval_in env (JBin ''+'' e (term_expr t)) s = Some (VNum (y + val v * x), s)"
    using Cons.prems eval_term [OF assms(1), of v x s] by (simp add: t js_binop_def)
  then show ?case using Cons.IH [of "JBin ''+'' e (term_expr t)" "y + val v * x"] Cons.prems(1)
    by (simp add: fold_expr_def t add.assoc)
qed (simp add: fold_expr_def)

lemma cost_terms_vars: "fst ` set (cost_terms tier) \<subseteq> price_vars"
proof -
  have "set (cost_terms tier) \<subseteq> set ((''p'', vt_input_unit_cost tier) # (''c'', vt_output_unit_cost tier) # map snd (tier_costs 0 tier))"
    by (auto simp: cost_terms_def)
  then have "fst ` set (cost_terms tier) \<subseteq>
      fst ` set ((''p'', vt_input_unit_cost tier) # (''c'', vt_output_unit_cost tier) # map snd (tier_costs 0 tier))"
    by (rule image_mono)
  also have "\<dots> \<subseteq> price_vars" by (simp add: tier_costs_def cache_vars)
  finally show ?thesis .
qed

lemma sum_nonzero: "(\<Sum>(v, x)\<leftarrow>filter (\<lambda>t. snd t \<noteq> 0) ts. val v * x) = (\<Sum>(v, x)\<leftarrow>ts. val v * (x :: number))"
  by (induction ts) auto

lemma eval_body:
  assumes "covers env val"
  shows "eval_in env (body_expr tier) s = Some (VNum (tier_price val tier), s)"
proof -
  have "eval_in env (fold_expr ''+'' term_expr (term_expr (hd (cost_terms tier))) (tl (cost_terms tier))) s =
    Some (VNum (val ''p'' * vt_input_unit_cost tier + (\<Sum>(v, x)\<leftarrow>tl (cost_terms tier). val v * x)), s)"
    using cost_terms_vars [of tier] by (intro eval_sum [OF assms]) (auto simp: cost_terms_def eval_term [OF assms])
  moreover have "(\<Sum>(v, x)\<leftarrow>tl (cost_terms tier). val v * x) = val ''c'' * vt_output_unit_cost tier +
      (\<Sum>(field, v)\<leftarrow>BILLING_CACHE_VAR_MAP. val v * nullish (tier_field tier field) 0)"
    by (simp only: cost_terms_def list.sel list.map sum_list.Cons sum_nonzero prod.case)
      (simp add: tier_costs_def cache_vars)
  ultimately show ?thesis by (simp add: body_expr_def tier_price_def add.assoc)
qed

lemma eval_call:
  "covers env val \<Longrightarrow> eval_in env (call_expr tier) s = Some (VNum (tier_price val tier), vt_label tier)"
  by (simp add: call_expr_def eval_body estimator_call_def)

lemma eval_cond:
  assumes "covers env val" "cond_ok c"
  shows "eval_in env (cond_expr c) s = Some (VBool (cond_holds val c), s)"
proof -
  have "env (ti_var c) = Some (val (ti_var c))" using assms by (auto simp: covers_def cond_ok_def)
  moreover have "ti_op c = ''<'' \<or> ti_op c = ''<='' \<or> ti_op c = ''>'' \<or> ti_op c = ''>=''"
    using assms(2) by (auto simp: cond_ok_def)
  ultimately show ?thesis by (elim disjE) (simp_all add: cond_expr_def cond_holds_def js_binop_def Let_def)
qed

lemma eval_conj:
  assumes "covers env val" "list_all cond_ok cs" "eval_in env e s = Some (VBool b, s)"
  shows "eval_in env (fold_expr ''&&'' cond_expr e cs) s = Some (VBool (b \<and> list_all (cond_holds val) cs), s)"
  using assms(2,3)
proof (induction cs arbitrary: e b)
  case (Cons c cs)
  have "eval_in env (JBin ''&&'' e (cond_expr c)) s = Some (VBool (b \<and> cond_holds val c), s)"
    using Cons.prems eval_cond [OF assms(1), of c s] by (simp add: js_truthy_def)
  then show ?case using Cons.IH [of "JBin ''&&'' e (cond_expr c)" "b \<and> cond_holds val c"] Cons.prems(1)
    by (simp add: fold_expr_def)
qed (simp add: fold_expr_def)

lemma eval_guard:
  assumes "covers env val" "list_all cond_ok cs" "cs \<noteq> []"
  shows "eval_in env (guard_expr cs) s = Some (VBool (list_all (cond_holds val) cs), s)"
  using eval_conj [OF assms(1), of "tl cs" "cond_expr (hd cs)" s "cond_holds val (hd cs)"] assms
  by (cases cs) (simp_all add: guard_expr_def eval_cond)

lemma eval_tiers:
  assumes "covers env val" "list_all tier_ok ts"
  shows "eval_in env (tiers_expr ts) s =
    (case find (tier_applies val) ts of
       Some tier \<Rightarrow> Some (VNum (tier_price val tier), vt_label tier)
     | None \<Rightarrow> Some (VNum 0, s))"
  using assms(2)
proof (induction ts)
  case Nil
  then show ?case using assms(1) by (simp add: covers_def zero_expr_def js_binop_def)
next
  case (Cons tier ts)
  then have g: "vt_conditions tier \<noteq> [] \<Longrightarrow>
      eval_in env (guard_expr (vt_conditions tier)) s = Some (VBool (tier_applies val tier), s)"
    unfolding tier_applies_def by (intro eval_guard [OF assms(1)]) (simp_all add: tier_ok_def)
  show ?case
  proof (cases "vt_conditions tier = []")
    case True
    then show ?thesis by (simp add: eval_call [OF assms(1)] tier_applies_def)
  next
    case False
    then show ?thesis using Cons g by (simp add: eval_call [OF assms(1)] js_truthy_def)
  qed
qed

lemma blank_tokens: "trim s = [] \<Longrightarrow> js_tokens s = Some []"
proof (induction s)
  case (Cons c s)
  then show ?case by (simp add: trim_by_eq_Nil_iff tokens_space)
qed (simp add: tokens_Nil)

lemma tiers_text_nonblank:
  assumes "list_all (\<lambda>t. tier_ok t \<and> list_all verbatim_char (vt_label t)) ts"
  shows "trim (tiers_text ts) \<noteq> []"
proof
  assume "trim (tiers_text ts) = []"
  then have "Some [] = Some (tiers_toks ts)"
    using readsD [OF reads_tiers [OF assms], of "[]"] by (simp add: blank_tokens tokens_Nil)
  then show False by (cases ts) (simp_all add: zero_toks_def call_toks_def split: if_splits)
qed

text \<open>What the estimate of a configuration is: the price of the first tier that applies, or nothing.\<close>

definition charged :: "(string \<Rightarrow> number) \<Rightarrow> VisualTier list \<Rightarrow> EvalResult" where
  "charged val ts =
     (case find (tier_applies val) ts of
        Some tier \<Rightarrow> \<lparr>er_cost = tier_price val tier, er_matchedTier = vt_label tier, er_error = None\<rparr>
      | None \<Rightarrow> \<lparr>er_cost = 0, er_matchedTier = [], er_error = None\<rparr>)"

definition labels_plain :: "VisualTier list \<Rightarrow> bool" where
  "labels_plain ts \<longleftrightarrow> list_all (\<lambda>t. list_all verbatim_char (vt_label t)) ts"

lemma estimate_charged:
  assumes "tiers_ok (vc_tiers cfg)" "labels_plain (vc_tiers cfg)"
  shows "evalExprLocally fn (generateExprFromVisualConfig (Some cfg)) p c extras = charged (amount p c extras) (vc_tiers cfg)"
proof -
  let ?ts = "vc_tiers cfg"
  have ok: "list_all (\<lambda>t. tier_ok t \<and> list_all verbatim_char (vt_label t)) ?ts" "list_all tier_ok ?ts"
    using assms by (auto simp: tiers_ok_def labels_plain_def list_all_iff)
  have t: "generateExprFromVisualConfig (Some cfg) = tiers_text ?ts"
    using config_tiers_text [OF assms(1)] by (cases cfg) simp
  have "run_price (tiers_text ?ts) (estimator_env p c extras) =
    (case find (tier_applies (amount p c extras)) ?ts of
       Some tier \<Rightarrow> Some (tier_price (amount p c extras) tier, vt_label tier) | None \<Rightarrow> Some (0, []))"
    using tiers_js_parse [OF ok(1)] eval_tiers [OF covers_estimator ok(2), of p c extras "[]"]
    by (simp add: run_price_def split: option.splits)
  then show ?thesis
    unfolding evalExprLocally_def t charged_def Let_def using tiers_text_nonblank [OF ok(1)]
    by (simp split: option.splits)
qed

text \<open>
  C15: For a price of the visual editor the estimate is the price of the first tier whose conditions the
  token counts satisfy, with its label: the sum of each token count times the unit cost of the tier.
  When no tier applies the estimate is 0 and no tier is named. There is never an error. The
  configuration has the shape that the editor reads back and labels that print unescaped.
\<close>

theorem estimate_of_config:
  assumes "tiers_ok (vc_tiers cfg)" "labels_plain (vc_tiers cfg)"
  shows "evalExprLocally fn (generateExprFromVisualConfig (Some cfg)) p c extras =
    (case find (tier_applies (amount p c extras)) (vc_tiers cfg) of
       Some tier \<Rightarrow> \<lparr>er_cost = tier_price (amount p c extras) tier, er_matchedTier = vt_label tier, er_error = None\<rparr>
     | None \<Rightarrow> \<lparr>er_cost = 0, er_matchedTier = [], er_error = None\<rparr>)"
  using estimate_charged [OF assms] by (simp add: charged_def)

lemma example_plain: "labels_plain [short_tier, long_tier]"
  by (simp add: labels_plain_def short_tier_def long_tier_def verbatim_char_def)

theorem estimate_of_config_witness:
  "evalExprLocally (\<lambda>_ _. Inl ''error'') (generateExprFromVisualConfig (Some \<lparr>vc_tiers = [short_tier, long_tier]\<rparr>)) 1000 500
      [(''cacheReadTokens'', 100)] =
    \<lparr>er_cost = 1000 * 3 + 500 * 15 + 100 * (3 / 10), er_matchedTier = ''short'', er_error = None\<rparr>"
  using estimate_of_config [of "\<lparr>vc_tiers = [short_tier, long_tier]\<rparr>" "\<lambda>_ _. Inl ''error''" 1000 500 "[(''cacheReadTokens'', 100)]"]
    example_ok example_plain
  by (simp add: tier_applies_def cond_holds_def cond_number_def amount_def estimator_env_def ESTIMATOR_VARS_def
      extra_value_def tier_price_def cache_vars tier_field_def short_tier_def long_tier_def)

section \<open>The fields of the estimator\<close>

lemma exec_at: "run r (rev a @ b, cs, []) \<noteq> [] \<Longrightarrow> exec r b (a @ cs) \<noteq> None"
proof (induction a arbitrary: b)
  case Nil
  then show ?case by (cases "run r (b, cs, [])") (simp_all add: exec.simps [of r b cs])
next
  case (Cons c a)
  then have "exec r (c # b) (a @ cs) \<noteq> None" by simp
  then show ?case by (simp add: exec.simps [of r b "c # a @ cs"] split: list.splits)
qed

lemma uses_var:
  assumes "v \<in> set (map fst ESTIMATOR_VARS)" "sublist ('' '' @ v @ '' '') w"
  shows "exprUsesExtraVars w"
proof -
  obtain a b where w: "w = a @ ('' '' @ v @ '' '') @ b" using assms(2) unfolding sublist_def by blast
  let ?r = "rseq [RWord, RGroup 1 (alts (map fst ESTIMATOR_VARS)), RWord]"
  have "v \<in> {''cr'', ''cc'', ''cc1h'', ''img'', ''img_o'', ''ai'', ''ao''}" using assms(1) by (simp add: ESTIMATOR_VARS_def)
  then have "run ?r (rev (a @ '' '') @ [], v @ '' '' @ b, []) \<noteq> []"
    by (elim insertE emptyE; simp add: ESTIMATOR_VARS_def alts_simps run_lit word_at_def word_char_def)
  then have "exec ?r [] ((a @ '' '') @ v @ '' '' @ b) \<noteq> None" by (rule exec_at)
  then show ?thesis by (simp add: exprUsesExtraVars_def rtest_def w)
qed

lemma sublist_within: "sublist x b \<Longrightarrow> sublist x (a @ b @ c)"
  by (meson sublist_appendI sublist_order.order.trans)

lemma cost_shown:
  "(n, v, x) \<in> set ts \<Longrightarrow> x \<noteq> 0 \<Longrightarrow> sublist ('' '' @ v @ '' '') (cost_text ts)"
proof (induction ts rule: cost_text.induct)
  case (2 m u y ts)
  show ?case
  proof (cases "(n, v, x) = (m, u, y)")
    case True
    have "cost_text ((m, u, y) # ts) = '' +'' @ ('' '' @ v @ '' '') @ ''* '' @ number_to_string y @ cost_text ts"
      using True "2.prems"(2) by simp
    then show ?thesis unfolding sublist_def by blast
  next
    case False
    then have "sublist ('' '' @ v @ '' '') (cost_text ts)" using "2.prems" by (intro "2.IH") auto
    then have "sublist ('' '' @ v @ '' '') ((if y = 0 then [] else '' + '' @ u @ '' * '' @ number_to_string y) @ cost_text ts @ [])"
      by (rule sublist_within)
    then show ?thesis by simp
  qed
qed simp

lemma tiers_text_call:
  assumes "tier \<in> set ts" "list_all (\<lambda>t. vt_conditions t \<noteq> []) (butlast ts)"
  shows "sublist (tier_call (vt_label tier) tier) (tiers_text ts)"
  using assms
proof (induction ts)
  case (Cons t ts)
  show ?case
  proof (cases "tier = t")
    case True
    have "tiers_text (t # ts) = (if vt_conditions t = [] then [] else conds_text (vt_conditions t) @ '' ? '') @
        tier_call (vt_label tier) tier @ (if vt_conditions t = [] then [] else '' : '' @ tiers_text ts)"
      using True by simp
    then show ?thesis unfolding sublist_def by blast
  next
    case False
    then have "ts \<noteq> []" "tier \<in> set ts" using Cons.prems by auto
    then have "sublist (tier_call (vt_label tier) tier) (tiers_text ts)" "vt_conditions t \<noteq> []"
      using Cons by (auto split: if_splits)
    then show ?thesis
      using sublist_within [of _ "tiers_text ts" "conds_text (vt_conditions t) @ '' ? '' @ tier_call (vt_label t) t @ '' : ''" "[]"]
      by simp
  qed
qed simp

lemma extra_shown:
  assumes "tiers_ok ts" "tier \<in> set ts" "(field, v) \<in> set BILLING_CACHE_VAR_MAP" "nullish (tier_field tier field) 0 \<noteq> 0"
  shows "exprUsesExtraVars (generateExprFromVisualConfig (Some \<lparr>vc_tiers = ts\<rparr>))"
proof (rule uses_var)
  show "v \<in> set (map fst ESTIMATOR_VARS)" using assms(3) by (auto simp: cache_vars ESTIMATOR_VARS_def)
  have "list_all (\<lambda>t. vt_conditions t \<noteq> []) (butlast ts)"
    using assms(1) by (cases "1 < length ts") (auto simp: tiers_ok_def length_Suc_conv not_less le_Suc_eq)
  then have "sublist (tier_call (vt_label tier) tier) (tiers_text ts)" by (rule tiers_text_call [OF assms(2)])
  moreover have "sublist ('' '' @ v @ '' '') (tier_call (vt_label tier) tier)"
  proof -
    have "(field, v) \<in> snd ` set (enumerate 0 BILLING_CACHE_VAR_MAP)" using assms(3) by (metis map_snd_enumerate set_map)
    then obtain i where "(i, field, v) \<in> set (enumerate 0 BILLING_CACHE_VAR_MAP)" by (auto simp del: enumerate_simps)
    then have "(0 + i, v, nullish (tier_field tier field) 0) \<in> set (tier_costs 0 tier)"
      unfolding tier_costs_def set_map by (rule rev_image_eqI) simp
    then have "sublist ('' '' @ v @ '' '') (cost_text (tier_costs 0 tier))" using assms(4) by (rule cost_shown)
    then show ?thesis
      using sublist_within [of _ "cost_text (tier_costs 0 tier)" "''tier(\"'' @ vt_label tier @ ''\", '' @ ''p * '' @
          number_to_string (vt_input_unit_cost tier) @ '' + c * '' @ number_to_string (vt_output_unit_cost tier)" "'')''"]
      unfolding tier_call_def body_text [of tier 0] by simp
  qed
  ultimately show "sublist ('' '' @ v @ '' '') (generateExprFromVisualConfig (Some \<lparr>vc_tiers = ts\<rparr>))"
    using config_tiers_text [OF assms(1)] sublist_order.order.trans by simp
qed

lemma applies_cong:
  assumes "tier_ok tier" "\<And>v. v \<in> {''p'', ''c'', ''len''} \<Longrightarrow> val v = val' v"
  shows "tier_applies val tier = tier_applies val' tier"
proof -
  have "cond_holds val c = cond_holds val' c" if "c \<in> set (vt_conditions tier)" for c
  proof -
    have "cond_ok c" using that assms(1) by (simp add: tier_ok_def list_all_iff)
    then have "val (ti_var c) = val' (ti_var c)" by (intro assms(2)) (simp add: cond_ok_def)
    then show ?thesis by (simp add: cond_holds_def)
  qed
  then show ?thesis by (simp add: tier_applies_def list_all_iff)
qed

lemma price_cong:
  assumes "\<And>field v. (field, v) \<in> set BILLING_CACHE_VAR_MAP \<Longrightarrow> nullish (tier_field tier field) 0 = 0"
    "val ''p'' = val' ''p''" "val ''c'' = val' ''c''"
  shows "tier_price val tier = tier_price val' tier"
proof -
  have z: "\<forall>x\<in>set xs. nullish (tier_field tier (fst x)) 0 = 0 \<Longrightarrow>
      (\<Sum>(field, v)\<leftarrow>xs. w v * nullish (tier_field tier field) 0) = 0" for w :: "string \<Rightarrow> number" and xs
    by (induction xs) auto
  have "(\<Sum>(field, v)\<leftarrow>BILLING_CACHE_VAR_MAP. w v * nullish (tier_field tier field) 0) = 0" for w :: "string \<Rightarrow> number"
    using assms(1) by (intro z) auto
  then show ?thesis using assms(2,3) by (simp add: tier_price_def)
qed

lemma charged_cong:
  assumes "\<And>t. t \<in> set ts \<Longrightarrow> tier_applies val t = tier_applies val' t" "\<And>t. t \<in> set ts \<Longrightarrow> tier_price val t = tier_price val' t"
  shows "charged val ts = charged val' ts"
  using assms by (induction ts) (simp_all add: charged_def)

text \<open>
  C20: When the estimator hides the fields of the other token counts for a price of the visual editor,
  they do not matter: the estimate depends only on the prompt, the completion and the length the
  conditions compare. The configuration has the shape and the labels as above.
\<close>

theorem hidden_fields_irrelevant:
  assumes "tiers_ok (vc_tiers cfg)" "labels_plain (vc_tiers cfg)"
    "\<not> exprUsesExtraVars (generateExprFromVisualConfig (Some cfg))"
    "amount p c extras ''len'' = amount p c extras' ''len''"
  shows "evalExprLocally fn (generateExprFromVisualConfig (Some cfg)) p c extras =
    evalExprLocally fn (generateExprFromVisualConfig (Some cfg)) p c extras'"
proof -
  have "charged (amount p c extras) (vc_tiers cfg) = charged (amount p c extras') (vc_tiers cfg)"
  proof (rule charged_cong)
    fix t assume t: "t \<in> set (vc_tiers cfg)"
    have pc: "amount p c e ''p'' = p" "amount p c e ''c'' = c" for e by (simp_all add: amount_def estimator_env_def)
    show "tier_applies (amount p c extras) t = tier_applies (amount p c extras') t"
      using assms(1,4) t pc by (intro applies_cong) (auto simp: tiers_ok_def list_all_iff)
    have "nullish (tier_field t field) 0 = 0" if "(field, v) \<in> set BILLING_CACHE_VAR_MAP" for field v
      using extra_shown [OF assms(1) t that] assms(3) by (cases cfg) auto
    then show "tier_price (amount p c extras) t = tier_price (amount p c extras') t" using pc by (intro price_cong) auto
  qed
  then show ?thesis using estimate_charged [OF assms(1,2)] by simp
qed

lemma default_ok: "tiers_ok (vc_tiers createDefaultVisualConfig)" "labels_plain (vc_tiers createDefaultVisualConfig)"
proof -
  have "printable_number 0" by (rule printable_decimal [of _ 0]) (simp_all add: is_integer_def plain_range_def)
  then show "tiers_ok (vc_tiers createDefaultVisualConfig)"
    by (simp add: createDefaultVisualConfig_def tiers_ok_def tier_ok_def normalizeVisualTier_def not_quote_def costs_printable_def
        tier_complete_def COST_FIELDS_def tier_field_def partial_cost_def getTierCacheMode_def del: not_None_eq)
  show "labels_plain (vc_tiers createDefaultVisualConfig)"
    by (simp add: createDefaultVisualConfig_def labels_plain_def normalizeVisualTier_def verbatim_char_def)
qed

lemma tokens_keys: "map (\<lambda>v. (bv_key v, tokens_key v)) BILLING_EXTRA_VARS = ESTIMATOR_VARS"
  by (simp add: BILLING_EXTRA_VARS_def BILLING_VARS_def price_var_def tokens_key_def ESTIMATOR_VARS_def)

lemma estimator_input:
  assumes "variable \<in> set BILLING_EXTRA_VARS"
  shows "amount p c (ce_extras (setExtra variable x s)) (bv_key variable) = x"
proof -
  have m: "map_of (obj_set k x e) = (map_of e)(k \<mapsto> x)" for k :: string and e :: ExtraTokenValues
    by (induction k x e rule: obj_set.induct) auto
  have k: "(bv_key variable, tokens_key variable) \<in> set ESTIMATOR_VARS"
    unfolding tokens_keys [symmetric] using assms by simp
  have "map_of (estimator_env p c e) v = Some (extra_value e key)" if "(v, key) \<in> set ESTIMATOR_VARS" for v key e
    using that by (simp add: ESTIMATOR_VARS_def, elim disjE conjE; simp add: estimator_env_def ESTIMATOR_VARS_def)
  from this [OF k] show ?thesis by (simp add: amount_def extra_value_def setExtra_def m)
qed


lemma default_text: "generateExprFromVisualConfig (Some createDefaultVisualConfig) = ''tier(\"base\", p * 0 + c * 0)''"
  by (simp add: generateExprFromVisualConfig_def createDefaultVisualConfig_def normalizeVisualTier_def Let_def buildConditionStr_def
      tier_call_def buildTierBodyExpr_def partial_cost_def zero_string cache_vars map_filter_simps tier_field_def or_string_def)

theorem hidden_fields_irrelevant_witness:
  "evalExprLocally (\<lambda>_ _. Inl ''error'') (generateExprFromVisualConfig (Some createDefaultVisualConfig)) 10 5
      [(''imageTokens'', 7)] =
    evalExprLocally (\<lambda>_ _. Inl ''error'') (generateExprFromVisualConfig (Some createDefaultVisualConfig)) 10 5 []"
proof (rule hidden_fields_irrelevant [OF default_ok])
  show "\<not> exprUsesExtraVars (generateExprFromVisualConfig (Some createDefaultVisualConfig))"
    unfolding default_text by code_simp
qed (simp add: amount_def estimator_env_def extra_value_def)

end
