(* ===== verification/Spec2Isabelle.thy ===== *)
theory Spec2Isabelle
  imports Session_Progress Status_Rules Channel_Form Custom_Editor Nav_Settings Editor_Laws Estimator_Laws
begin

text \<open>
  A verification development of the TypeScript front end of New API (\<open>web/default/src\<close>, which the
  paths below are relative to): the gateway's playground, the channel pages, the configuration of
  the navigation and the price editor.

  \<^bold>\<open>The language.\<close> \<open>Js_Prelude\<close> holds the operations of JavaScript strings and arrays the code
  uses, \<open>Json\<close> the functions \<open>JSON.parse\<close> and \<open>JSON.stringify\<close> with the object operations (spread,
  assignment, \<open>Object.entries\<close>), and \<open>Json_Indent\<close> the indented form of the printer. The locale
  \<open>json_codec\<close> is the contract of the two printers: parsing what was printed returns the value. The
  JSON parser recurses with fuel bounded by the length of the text; \<open>p_fuel_enough\<close> shows that more
  fuel changes nothing. A string is a list of Latin-1 characters (of UTF-16 code units in
  \<open>Status_Rules\<close>, where the code uses a character beyond), a number is an exact rational,
  \<open>undefined\<close> is \<open>None\<close>, \<open>null\<close> is \<open>JNull\<close> or \<open>Some None\<close>. Exceptions are \<open>None\<close> or the left side of
  a sum. \<open>nanoid()\<close>, \<open>Date.now()\<close>, the translation function, \<open>new URL\<close>, the zod schemas and the
  answers of the server are arguments of the definitions that use them.

  \<^bold>\<open>The playground\<close> (\<open>features/playground\<close>) sends a conversation to a model and shows the reply
  while it arrives.
  \<^item> \<open>Think_Tags\<close>: the reasoning that a reply carries between think tags
    (\<open>lib/message/message-reasoning-utils.ts\<close>). The scanning loop recovers the segments of a text and
    neither loses nor invents characters.
  \<^item> \<open>Messages\<close>, \<open>Streaming\<close>, \<open>Conversation\<close>: the message type, how chunks, responses and errors
    change a reply, and the operations on the list of messages and the request built from it
    (\<open>lib/message\<close>, \<open>lib/streaming/payload-builder.ts\<close>, \<open>lib/options\<close>, \<open>lib/input\<close>). A reply holds
    the chunks that arrived, a completed or failed reply stays so, message keys stay distinct, and a
    regeneration sends what precedes the reply.
  \<^item> \<open>Storage\<close>, \<open>Storage_Laws\<close>: persistence in \<open>localStorage\<close> (\<open>lib/storage\<close>, \<open>lib/state\<close>). Saving and
    loading is the identity within the limits, what is loaded is the longest latest run within the
    limits, and a saved conversation survives later failures of the storage. The locales \<open>message_schema\<close> and \<open>config_schema\<close> state what the schemas
    promise; the schemas of \<open>storage-schema.ts\<close> interpret them.
  \<^item> \<open>Stream_Protocol\<close>: the payloads of the event stream and of failed requests (\<open>lib/streaming\<close>).
  \<^item> \<open>Session\<close>, \<open>Session_Laws\<close>: the hooks (\<open>hooks/*.ts\<close>) and \<open>index.tsx\<close> as one state and a step
    relation whose steps are the events of the user, the server, the timers and React. For every
    reachable state: at most one stream is open, a reply is pending only while something will settle
    it, every change is stored or waits for the save timer, and a stopped reply stays stopped.
  \<^item> \<open>Session_Progress\<close>: once the user does nothing more, the steps that the server and the timers owe
    end within a bound read off the state, with everything settled and saved.

  \<^bold>\<open>The channel pages\<close> (\<open>features/channels\<close>).
  \<^item> \<open>Status_Rules\<close>: rules over HTTP status codes (\<open>lib/http-status-code-rules.ts\<close>). Parsing reports
    the tokens that name no code, or yields the canonical ranges of the codes the rules name.
  \<^item> \<open>Model_Mapping\<close>: model lists and mappings (\<open>lib/model-mapping-validation.ts\<close>).
  \<^item> \<open>Channel_Form\<close>: the checks of the channel form (\<open>components/drawers/channel-mutate-drawer.tsx\<close>), the
    model mapping beside the model list, the two repairs of the list and the submit handler. What is
    submitted passed every check or was confirmed; the answers of the user are arguments.
  \<^item> \<open>Grouping\<close>, \<open>Channel_Utils\<close>: keys, lists, the tag view and the guard of risky status codes
    (\<open>lib/channel-utils.ts\<close>, \<open>lib/status-code-risk-guard.ts\<close>). The locale \<open>grouping\<close> gives the grouping
    loops in closed form; the tag view and the route editor interpret it.
  \<^item> \<open>Advanced_Custom\<close>: parsing, validating and printing the routes of a custom channel
    (\<open>lib/advanced-custom.ts\<close>). The validation accepts exactly the configurations that satisfy a
    declarative specification, and a valid configuration survives printing and parsing.
  \<^item> \<open>Custom_Editor\<close>: the dialog that edits these routes, as a step relation over its state. What it
    saves is valid, and its repair of the route order removes every order error.

  \<^bold>\<open>Navigation\<close>. \<open>Nav_Modules\<close> (\<open>lib/nav-modules.ts\<close>) and \<open>Nav_Settings\<close>
  (\<open>features/system-settings/maintenance/config.ts\<close>, \<open>hooks/use-sidebar-config.ts\<close>): three readers of
  one configuration. The settings page, the sidebar and the route guards agree on what is enabled
  for the configurations the page saves, and a user's choice only narrows what the administrator
  allows.

  \<^bold>\<open>Prices\<close> (\<open>features/pricing/lib\<close>, \<open>features/system-settings/models\<close>). A price is a text: the price
  expression, multiplied by the factors of the request rules.
  \<^item> \<open>Regex\<close>: regular expressions of JavaScript as the list of their matches in the order of
    backtracking, with \<open>exec\<close>, the loop over a global pattern, \<open>split\<close> and \<open>replace\<close>. The loop is
    \<open>None\<close> when it would not end; \<open>exec_all_ends\<close> shows that it ends for patterns that match no
    empty text.
  \<^item> \<open>Billing_Rules\<close>, \<open>Billing_Laws\<close>: request rules (\<open>billing-expr.ts\<close>). What the form builds is read
    back as the rules in normal form, comparisons of a parameter excepted, and combining price and rules is undone by splitting.
  \<^item> \<open>Tier_Expr\<close>, \<open>Tier_Laws\<close>, \<open>Tier_Conditions\<close>, \<open>Tier_Round_Trip\<close>, \<open>Tier_Display\<close>: the tiers of a
    price (\<open>tier-expr.ts\<close>, and their display in \<open>billing-expr.ts\<close>). The configuration of the visual
    editor is recovered from the expression printed for it, and the price pages show its tiers.
  \<^item> \<open>Tiered_Editor\<close>, \<open>Editor_Laws\<close>: the price editor (\<open>tiered-pricing-editor.tsx\<close>). A rendering is one
    step that runs the effects of the component on the rendered state; the effects come to rest
    within five renderings, a price of the visual editor survives opening and editing, while a
    price or rules that only the expression editor can show do not survive opening.
  \<^item> \<open>Js_Expr\<close>, \<open>Estimator\<close>, \<open>Estimator_Laws\<close>: the cost estimate, which runs the price as a JavaScript
    expression (\<open>evalExprLocally\<close> of \<open>tier-expr.ts\<close>, \<open>CostEstimator\<close> of the editor). \<open>Js_Expr\<close> reads and
    evaluates a fragment of these expressions; its parser descends at most one level per token, and
    \<open>js_expr_enough\<close> shows that a greater depth changes nothing. A price outside the fragment is
    evaluated by a parameter. For a price of the visual editor the estimate is the cost of the first
    tier that applies. The theorem at the end of this theory joins this to the editor.

  \<^bold>\<open>Not modelled.\<close> Markup, styling and the translation tables; the other fields of the channel form; the prompt helper and the token
  hint of the price editor; the server (Go) and the desktop
  shell, which are other programs; the classic and brief front ends; the pages whose logic is a form
  or table library over HTTP calls. Rounding of binary64, \<open>NaN\<close> and inherited properties of
  \<open>Object.prototype\<close> are outside the model of the language.
\<close>

text \<open>
  C14: An edit in the visual editor is priced as edited: when the effects have come to rest, the estimator
  gets the price the parent has, and shows for it the cost and the label of the first tier of the edited
  configuration that applies to the token counts, without an error. The edited configuration has the
  shape that the editor reads back, its labels print unescaped, and the rules on show are plain groups.
\<close>

theorem edited_price_estimated:
  assumes "at_rest s" "te_mode s = VisualMode" "list_all plain_group (te_groups s)"
    "tiers_ok (vc_tiers next)" "labels_plain (vc_tiers next)"
  shows "\<exists>s' price. commits 5 (handleVisualChange next s) = Inr s' \<and> at_rest s' \<and>
    effectiveExpr s' = Inr price \<and> te_expr s' = price \<and>
    estimate fn price est =
      charged (amount (ce_promptTokens est) (ce_completionTokens est) (ce_extras est)) (vc_tiers next)"
proof -
  obtain s' where "commits 5 (handleVisualChange next s) = Inr s'" "at_rest s'" "te_mode s' = VisualMode"
    "te_visual s' = Some next" "te_expr s' = generateExprFromVisualConfig (Some next)"
    using edit_settles [OF assms(1-4)] by blast
  then show ?thesis
    using estimate_charged [OF assms(4,5)] by (simp add: effectiveExpr_def estimate_def)
qed

theorem edited_price_estimated_witness:
  "\<exists>s s' price. commits 5 (handleVisualChange \<lparr>vc_tiers = [long_tier]\<rparr> s) = Inr s' \<and> te_expr s' = price \<and>
     estimate (\<lambda>_ _. Inl ''error'') price (setPromptTokens 100 openEstimator) =
       \<lparr>er_cost = 600, er_matchedTier = ''long'', er_error = None\<rparr>"
proof -
  obtain s where s: "at_rest s" "te_mode s = VisualMode" "list_all plain_group (te_groups s)" using example_rest .
  have ok: "tiers_ok (vc_tiers \<lparr>vc_tiers = [long_tier]\<rparr>)" "labels_plain (vc_tiers \<lparr>vc_tiers = [long_tier]\<rparr>)"
    using example_long_ok example_plain by (simp_all add: labels_plain_def)
  have "charged (amount 100 0 (ce_extras openEstimator)) [long_tier] =
      \<lparr>er_cost = 600, er_matchedTier = ''long'', er_error = None\<rparr>"
    by (simp add: charged_def tier_applies_def tier_price_def cache_vars amount_def estimator_env_def ESTIMATOR_VARS_def
        extra_value_def openEstimator_def tier_field_def long_tier_def short_tier_def)
  then show ?thesis
    using edited_price_estimated [OF s ok, of "\<lambda>_ _. Inl ''error''" "setPromptTokens 100 openEstimator"]
    by (auto simp: setPromptTokens_def openEstimator_def)
qed

end
